(* ===== verification/Bolt_Prelude.thy ===== *)
theory Bolt_Prelude
  imports
    Main
    "HOL-Library.Word"
    "HOL-Library.List_Lexorder"
begin

text \<open>
  Shared vocabulary of the development: the machine types of the C++ program, the ways a C++
  call can fail, the result type of fallible operations, and the two library algorithms the
  components have in common, \<^verbatim>\<open>std::lower_bound\<close> (a binary search) and \<^verbatim>\<open>std::inplace_merge\<close>
  (a stable merge). The facts about binary search are proved once in the locale
  \<open>keyed_range\<close>, which every sorted container of the program interprets.
\<close>

named_theorems mem_eval \<open>equations that evaluate reads and writes of concrete memory\<close>

section \<open>Machine types\<close>

type_synonym u8 = "8 word"
type_synonym u16 = "16 word"
type_synonym u32 = "32 word"
type_synonym u64 = "64 word"

text \<open>\<^verbatim>\<open>typedef std::uint64_t pgid_t\<close> and \<^verbatim>\<open>txid_t\<close> of \<^verbatim>\<open>types.h\<close>; \<^verbatim>\<open>size_t\<close> and pointers are 64 bits wide.\<close>

type_synonym pgid_t = u64
type_synonym txid_t = u64
type_synonym addr = u64

abbreviation (input) nullptr :: addr where
  "nullptr \<equiv> 0"

text \<open>
  Conversions to the 32-bit \<^verbatim>\<open>int\<close>: C++ \<^verbatim>\<open>int\<close> values are kept as \<open>int\<close>; converting a wider
  unsigned value to \<^verbatim>\<open>int\<close> takes it modulo $2^{32}$ into the signed range.
\<close>

definition int_of_u32 :: "u32 \<Rightarrow> int" where
  "int_of_u32 x = sint x"

definition int_of_size :: "nat \<Rightarrow> int" where
  "int_of_size n = sint (of_nat n :: u32)"

lemma int_of_size_small: "n < 2 ^ 31 \<Longrightarrow> int_of_size n = int n"
proof -
  assume "n < 2 ^ 31"
  then have "signed_take_bit 31 (int n) = int n"
    by (intro signed_take_bit_int_eq_self) auto
  then show ?thesis by (simp add: int_of_size_def signed_of_nat)
qed

lemma unat_of_nat64: "n < 2 ^ 64 \<Longrightarrow> unat (of_nat n :: u64) = n"
  by (simp add: unat_of_nat)

lemma of_nat64_inject: "i < 2 ^ 64 \<Longrightarrow> j < 2 ^ 64 \<Longrightarrow> (of_nat i :: u64) = of_nat j \<longleftrightarrow> i = j"
  by (metis unat_of_nat64)

lemma unat_ucast_u32 [simp]: "unat (ucast (x :: u32) :: u64) = unat x"
  using unsigned_less [of x, where ?'a = nat]
  by (simp add: unsigned_ucast_eq take_bit_nat_eq_self)

lemma unat_ucast_u16 [simp]: "unat (ucast (x :: u16) :: u64) = unat x"
  using unsigned_less [of x, where ?'a = nat]
  by (simp add: unsigned_ucast_eq take_bit_nat_eq_self)

section \<open>Failures\<close>

text \<open>The exception classes of \<^verbatim>\<open>exception.h\<close> and the standard exceptions the code raises.\<close>

datatype exn =
    DatabaseNotOpenException
  | DatabaseOpenException
  | DatabaseInvalidException
  | DatabaseVersionMismatchException
  | DatabaseChecksumException
  | TimeoutException
  | TxNotWritableException
  | TxClosedException
  | DatabaseReadOnlyException
  | RuntimeError string
  | SystemError string
  | BadOptionalAccess
  | BadAlloc
  | LengthError
  | StdException

text \<open>
  \<open>Exit n\<close> is \<^verbatim>\<open>std::exit(n)\<close>, \<open>Abort\<close> is \<^verbatim>\<open>std::abort()\<close>, \<open>AssertFail\<close> a failing \<^verbatim>\<open>assert\<close>,
  \<open>Throw e\<close> a C++ exception, \<open>UB\<close> undefined behaviour (a null dereference, an index outside a
  vector), and \<open>Block\<close> a call that waits for a lock its own state shows as held.
\<close>

datatype fault =
    Exit int
  | Abort
  | AssertFail
  | Throw exn
  | UB
  | Block

type_synonym 'a res = "fault + 'a"

definition bindE :: "'e + 'a \<Rightarrow> ('a \<Rightarrow> 'e + 'b) \<Rightarrow> 'e + 'b" where
  "bindE x f = (case x of Inl e \<Rightarrow> Inl e | Inr v \<Rightarrow> f v)"

lemma bindE_simps [simp]:
  "bindE (Inl e) f = Inl e"
  "bindE (Inr v) f = f v"
  by (simp_all add: bindE_def)

lemma bindE_Inr_iff: "bindE x f = Inr y \<longleftrightarrow> (\<exists>v. x = Inr v \<and> f v = Inr y)"
  by (cases x) auto

lemma bindE_Inl_iff: "bindE x f = Inl e \<longleftrightarrow> x = Inl e \<or> (\<exists>v. x = Inr v \<and> f v = Inl e)"
  by (cases x) auto

text \<open>\<^verbatim>\<open>xs[i]\<close> on a \<^verbatim>\<open>std::vector\<close> with an \<^verbatim>\<open>int\<close> index: outside the vector it is undefined behaviour.\<close>

definition vec_at :: "'a list \<Rightarrow> int \<Rightarrow> 'a res" where
  "vec_at xs i = (if 0 \<le> i \<and> i < int (length xs) then Inr (xs ! nat i) else Inl UB)"

lemma vec_at_nth [simp]: "i < length xs \<Longrightarrow> vec_at xs (int i) = Inr (xs ! i)"
  by (simp add: vec_at_def)

text \<open>\<^verbatim>\<open>*p\<close> for a pointer into one of the object heaps: a dangling or null pointer is undefined behaviour.\<close>

definition deref :: "(addr \<rightharpoonup> 'a) \<Rightarrow> addr \<Rightarrow> 'a res" where
  "deref h p = (case h p of None \<Rightarrow> Inl UB | Some x \<Rightarrow> Inr x)"

lemma deref_Some [simp]: "h p = Some x \<Longrightarrow> deref h p = Inr x"
  by (simp add: deref_def)

lemma deref_Inr_iff: "deref h p = Inr x \<longleftrightarrow> h p = Some x"
  by (auto simp: deref_def split: option.splits)

section \<open>Binary search: \<^verbatim>\<open>std::lower_bound\<close>\<close>

text \<open>
  The loop of \<^verbatim>\<open>std::lower_bound\<close> over a random-access range of \<open>len\<close> elements from \<open>first\<close>;
  \<open>lt i\<close> says that the \<open>i\<close>-th element compares less than the searched value. It is defined on
  every range, sorted or not.
\<close>

fun lb_loop :: "(nat \<Rightarrow> bool) \<Rightarrow> nat \<Rightarrow> nat \<Rightarrow> nat" where
  "lb_loop lt first len =
     (if len = 0 then first
      else let half = len div 2; mid = first + half
           in if lt mid then lb_loop lt (mid + 1) (len - half - 1)
              else lb_loop lt first half)"

declare lb_loop.simps [simp del]

definition lower_bound :: "(nat \<Rightarrow> bool) \<Rightarrow> nat \<Rightarrow> nat" where
  "lower_bound lt n = lb_loop lt 0 n"

lemma lb_loop_bounds: "first \<le> lb_loop lt first len \<and> lb_loop lt first len \<le> first + len"
proof (induction lt first len rule: lb_loop.induct)
  case (1 lt first len)
  show ?case
  proof (cases "len = 0")
    case True
    then show ?thesis by (simp add: lb_loop.simps)
  next
    case False
    show ?thesis
    proof (cases "lt (first + len div 2)")
      case True
      with False "1.IH"(1) show ?thesis
        by (force simp: lb_loop.simps [of lt first len] Let_def)
    next
      case nlt: False
      with False "1.IH"(2) show ?thesis
        by (force simp: lb_loop.simps [of lt first len] Let_def)
    qed
  qed
qed

lemma lb_loop_partition:
  assumes "\<And>i. first \<le> i \<Longrightarrow> i < first + len \<Longrightarrow> lt i \<longleftrightarrow> i < p"
    and "first \<le> p" and "p \<le> first + len"
  shows "lb_loop lt first len = p"
  using assms
proof (induction lt first len rule: lb_loop.induct)
  case (1 lt first len)
  show ?case
  proof (cases "len = 0")
    case True
    with "1.prems" show ?thesis by (simp add: lb_loop.simps)
  next
    case False
    let ?half = "len div 2" let ?mid = "first + ?half"
    have mid: "lt ?mid \<longleftrightarrow> ?mid < p"
      using False "1.prems"(1) [of ?mid] by simp
    show ?thesis
    proof (cases "lt ?mid")
      case True
      have "lb_loop lt (?mid + 1) (len - ?half - 1) = p"
        using False True mid "1.prems" by (intro "1.IH"(1)) auto
      with False True show ?thesis by (simp add: lb_loop.simps [of lt first len] Let_def)
    next
      case nlt: False
      have "lb_loop lt first ?half = p"
        using False nlt mid "1.prems" by (intro "1.IH"(2)) auto
      with False nlt show ?thesis by (simp add: lb_loop.simps [of lt first len] Let_def)
    qed
  qed
qed

lemma lower_bound_le: "lower_bound lt n \<le> n"
  using lb_loop_bounds [of 0 lt n] by (simp add: lower_bound_def)

text \<open>The search looks at elements of the range only.\<close>

lemma lb_loop_cong:
  assumes "\<And>i. first \<le> i \<Longrightarrow> i < first + len \<Longrightarrow> lt i = lt' i"
  shows "lb_loop lt first len = lb_loop lt' first len"
  using assms
proof (induction lt first len rule: lb_loop.induct)
  case (1 lt first len)
  show ?case
  proof (cases "len = 0")
    case True
    then show ?thesis by (simp add: lb_loop.simps)
  next
    case False
    let ?half = "len div 2" let ?mid = "first + ?half"
    have mid: "lt ?mid = lt' ?mid" using False "1.prems" [of ?mid] by simp
    have "lb_loop lt (?mid + 1) (len - ?half - 1) = lb_loop lt' (?mid + 1) (len - ?half - 1)" if "lt ?mid"
      using False that "1.prems" by (intro "1.IH"(1)) auto
    moreover have "lb_loop lt first ?half = lb_loop lt' first ?half" if "\<not> lt ?mid"
      using False that "1.prems" by (intro "1.IH"(2)) auto
    ultimately show ?thesis
      using False mid by (simp add: lb_loop.simps [of lt first len] lb_loop.simps [of lt' first len] Let_def)
  qed
qed

lemma lower_bound_cong: "(\<And>i. i < n \<Longrightarrow> lt i = lt' i) \<Longrightarrow> lower_bound lt n = lower_bound lt' n"
  unfolding lower_bound_def by (intro lb_loop_cong) simp

lemma lower_bound_partition:
  assumes "\<And>i. i < n \<Longrightarrow> lt i \<longleftrightarrow> i < p" and "p \<le> n"
  shows "lower_bound lt n = p"
  unfolding lower_bound_def using assms by (intro lb_loop_partition) auto

text \<open>
  The interface between a sorted container and the code that searches it. A provider gives the
  comparison operators \<^verbatim>\<open>operator<(elem, key)\<close> and \<^verbatim>\<open>operator==(elem, key)\<close> and promises that
  they compare keys in one linear order; the client gets the meaning of the binary search.
\<close>

locale keyed_range =
  fixes elt_key :: "'e \<Rightarrow> 'k::linorder"
    and probe :: "'s \<Rightarrow> 'k"
    and elt_lt :: "'e \<Rightarrow> 's \<Rightarrow> bool"
    and elt_eq :: "'e \<Rightarrow> 's \<Rightarrow> bool"
  assumes elt_lt_iff: "elt_lt e s \<longleftrightarrow> elt_key e < probe s"
    and elt_eq_iff: "elt_eq e s \<longleftrightarrow> elt_key e = probe s"
begin

lemma search_pos:
  assumes "sorted (map elt_key xs)"
  shows "lower_bound (\<lambda>i. elt_lt (xs ! i) s) (length xs)
           = length (takeWhile (\<lambda>e. elt_key e < probe s) xs)"
proof (rule lower_bound_partition)
  let ?P = "\<lambda>e. elt_key e < probe s"
  let ?p = "length (takeWhile ?P xs)"
  show "?p \<le> length xs" by (rule length_takeWhile_le)
  fix i assume i: "i < length xs"
  show "elt_lt (xs ! i) s \<longleftrightarrow> i < ?p"
  proof (cases "i < ?p")
    case True
    then have "xs ! i \<in> set (takeWhile ?P xs)"
      by (metis nth_mem takeWhile_nth)
    then show ?thesis using True by (auto simp: elt_lt_iff dest: set_takeWhileD)
  next
    case False
    then have p: "?p < length xs" using i by simp
    then have "\<not> elt_key (xs ! ?p) < probe s" by (rule nth_length_takeWhile)
    moreover have "elt_key (xs ! ?p) \<le> elt_key (xs ! i)"
      using assms False i sorted_nth_mono [of "map elt_key xs" ?p i] by simp
    ultimately show ?thesis using False by (simp add: elt_lt_iff)
  qed
qed

lemma search_split:
  assumes "sorted (map elt_key xs)"
    and "p = lower_bound (\<lambda>i. elt_lt (xs ! i) s) (length xs)"
  shows "\<forall>e \<in> set (take p xs). elt_key e < probe s"
    and "\<forall>e \<in> set (drop p xs). probe s \<le> elt_key e"
proof -
  let ?P = "\<lambda>e. elt_key e < probe s"
  have p: "p = length (takeWhile ?P xs)" using assms by (simp add: search_pos)
  have t: "take p xs = takeWhile ?P xs" unfolding p by (metis takeWhile_eq_take)
  have d: "drop p xs = dropWhile ?P xs" unfolding p by (metis dropWhile_eq_drop)
  show "\<forall>e \<in> set (take p xs). ?P e" unfolding t by (auto dest: set_takeWhileD)
  show "\<forall>e \<in> set (drop p xs). probe s \<le> elt_key e"
  proof (cases "dropWhile ?P xs")
    case Nil
    then show ?thesis unfolding d Nil by simp
  next
    case (Cons y ys)
    then have y: "\<not> ?P y" using hd_dropWhile [of ?P xs] by simp
    have "sorted (map elt_key (y # ys))"
      using assms(1) d Cons by (metis drop_map sorted_wrt_drop)
    with y show ?thesis unfolding d Cons by auto
  qed
qed

text \<open>With distinct keys, the element at the found position is the one with the searched key, if there is one.\<close>

lemma search_exact:
  assumes "sorted_wrt (<) (map elt_key xs)"
    and "p = lower_bound (\<lambda>i. elt_lt (xs ! i) s) (length xs)"
  shows "(p < length xs \<and> elt_eq (xs ! p) s) \<longleftrightarrow> probe s \<in> elt_key ` set xs"
proof
  assume "p < length xs \<and> elt_eq (xs ! p) s"
  then show "probe s \<in> elt_key ` set xs"
    by (metis elt_eq_iff image_eqI nth_mem)
next
  assume "probe s \<in> elt_key ` set xs"
  then obtain i where i: "i < length xs" and k: "elt_key (xs ! i) = probe s"
    by (auto simp: in_set_conv_nth)
  have srt: "sorted (map elt_key xs)"
    using assms(1) by (simp add: strict_sorted_iff)
  note sp = search_split [OF srt assms(2)]
  have ip: "\<not> i < p"
  proof
    assume "i < p"
    then have "xs ! i \<in> set (take p xs)"
      using i by (auto simp: in_set_conv_nth intro!: exI [of _ i])
    with sp(1) k show False by auto
  qed
  then have p: "p < length xs" using i by simp
  have "xs ! p \<in> set (drop p xs)" using p by (metis Cons_nth_drop_Suc list.set_intros(1))
  with sp(2) have "probe s \<le> elt_key (xs ! p)" by auto
  moreover have "elt_key (xs ! p) \<le> elt_key (xs ! i)"
    using srt ip i p sorted_nth_mono [of "map elt_key xs" p i] by simp
  ultimately show "p < length xs \<and> elt_eq (xs ! p) s" using p k by (simp add: elt_eq_iff)
qed

end

section \<open>Stable merge: \<^verbatim>\<open>std::inplace_merge\<close>\<close>

text \<open>
  The merge loop: an element of the second range is taken only when it is strictly less than
  the head of the first.
\<close>

fun merge :: "'a::linorder list \<Rightarrow> 'a list \<Rightarrow> 'a list" where
  "merge [] ys = ys"
| "merge (x # xs) [] = x # xs"
| "merge (x # xs) (y # ys) =
     (if y < x then y # merge (x # xs) ys else x # merge xs (y # ys))"

lemma merge_Nil2 [simp]: "merge xs [] = xs"
  by (cases xs) auto

lemma set_merge [simp]: "set (merge xs ys) = set xs \<union> set ys"
  by (induction xs ys rule: merge.induct) auto

lemma length_merge [simp]: "length (merge xs ys) = length xs + length ys"
  by (induction xs ys rule: merge.induct) auto

lemma sorted_merge_iff: "sorted (merge xs ys) \<longleftrightarrow> sorted xs \<and> sorted ys"
  by (induction xs ys rule: merge.induct) (auto simp: not_less)

end
