(* ===== verification/Memory.thy ===== *)
theory Memory
  imports Bolt_Prelude
begin

text \<open>
  Byte-addressed memory. Pages, page elements, meta records and the bytes behind a slice all
  live in it, so that pointer arithmetic, aliasing and the binary layout of the file format are
  part of the model. The locale \<open>cell\<close> states what a fixed-width field promises (a load
  returns what was stored, a store changes nothing outside the field); the 16, 32 and 64 bit
  little-endian accessors interpret it.
\<close>

unbundle bit_operations_syntax

type_synonym mem = "addr \<Rightarrow> u8"

section \<open>Regions\<close>

definition region :: "addr \<Rightarrow> nat \<Rightarrow> addr set" where
  "region a n = {x. unat (x - a) < n}"

lemma region_0 [simp]: "region a 0 = {}"
  by (simp add: region_def)

lemma in_region_offset: "i < n \<Longrightarrow> i < 2 ^ 64 \<Longrightarrow> a + of_nat i \<in> region a n"
  by (simp add: region_def unat_of_nat64)

lemma region_memE:
  assumes "x \<in> region a n"
  obtains i where "i < n" "i < 2 ^ 64" "x = a + of_nat i"
proof
  show "unat (x - a) < n" using assms by (simp add: region_def)
  show "unat (x - a) < 2 ^ 64" using unsigned_less [of "x - a", where ?'a = nat] by simp
  show "x = a + of_nat (unat (x - a))" by simp
qed

lemma region_mono: "n \<le> k \<Longrightarrow> region a n \<subseteq> region a k"
  by (auto simp: region_def)

lemma region_sub: "i + k \<le> n \<Longrightarrow> n \<le> 2 ^ 64 \<Longrightarrow> region (a + of_nat i) k \<subseteq> region a n"
proof
  fix x assume *: "i + k \<le> n" "n \<le> 2 ^ 64" and x: "x \<in> region (a + of_nat i) k"
  from x obtain j where j: "j < k" "x = a + of_nat i + of_nat j" by (rule region_memE) auto
  then have "x = a + of_nat (i + j)" by simp
  moreover have "i + j < n" "i + j < 2 ^ 64" using j * by auto
  ultimately show "x \<in> region a n" using in_region_offset by blast
qed

lemma region_disjoint_offsets:
  assumes "i + n \<le> j" and "j + k \<le> 2 ^ 64"
  shows "region (a + of_nat i) n \<inter> region (a + of_nat j) k = {}"
proof (rule equals0I)
  fix x assume "x \<in> region (a + of_nat i) n \<inter> region (a + of_nat j) k"
  then obtain p q where p: "p < n" "x = a + of_nat i + of_nat p"
    and q: "q < k" "x = a + of_nat j + of_nat q"
    by (auto elim!: region_memE)
  then have "(of_nat (i + p) :: addr) = of_nat (j + q)" by simp
  moreover have "i + p < 2 ^ 64" "j + q < 2 ^ 64" using p q assms by auto
  ultimately have "i + p = j + q"
    by (simp add: of_nat64_inject del: of_nat_add)
  with p q assms show False by simp
qed

text \<open>
  Two regions are disjoint when each starts outside the other; on addresses that are constants,
  or constant offsets from one base, the simplifier decides the premises.
\<close>

lemma region_disjointI:
  assumes "n \<le> unat (b - a)" and "k \<le> unat (a - b)"
  shows "region a n \<inter> region b k = {}"
proof (rule equals0I)
  fix x assume "x \<in> region a n \<inter> region b k"
  then have "unat (x - a) < n" and "unat (x - b) < k" by (simp_all add: region_def)
  with assms show False
    using unsigned_less [of x, where ?'a = nat] unsigned_less [of a, where ?'a = nat]
      unsigned_less [of b, where ?'a = nat]
    by (auto simp: unat_sub_if' split: if_splits)
qed

lemma region_sub_field: "unat x + k \<le> n \<Longrightarrow> n \<le> 2 ^ 64 \<Longrightarrow> region (a + x) k \<subseteq> region a n"
  using region_sub [of "unat x" k n a] by simp

section \<open>Reading and writing byte strings\<close>

definition read_bytes :: "mem \<Rightarrow> addr \<Rightarrow> nat \<Rightarrow> u8 list" where
  "read_bytes m a n = map (\<lambda>i. m (a + of_nat i)) [0..<n]"

text \<open>\<^verbatim>\<open>std::memcpy(a, bs, len)\<close> once the source bytes are known.\<close>

fun write_bytes :: "mem \<Rightarrow> addr \<Rightarrow> u8 list \<Rightarrow> mem" where
  "write_bytes m a [] = m"
| "write_bytes m a (b # bs) = write_bytes (m(a := b)) (a + 1) bs"

lemma length_read_bytes [simp]: "length (read_bytes m a n) = n"
  by (simp add: read_bytes_def)

lemma nth_read_bytes [simp]: "i < n \<Longrightarrow> read_bytes m a n ! i = m (a + of_nat i)"
  by (simp add: read_bytes_def)

lemma read_bytes_0 [simp]: "read_bytes m a 0 = []"
  by (simp add: read_bytes_def)

lemma read_bytes_Suc: "read_bytes m a (Suc n) = m a # read_bytes m (a + 1) n"
proof (rule nth_equalityI)
  fix i assume "i < length (read_bytes m a (Suc n))"
  then show "read_bytes m a (Suc n) ! i = (m a # read_bytes m (a + 1) n) ! i"
    by (cases i) (simp_all add: add.assoc)
qed simp

lemma read_bytes_numeral [mem_eval]:
  "read_bytes m a (numeral k) = m a # read_bytes m (a + 1) (pred_numeral k)"
  "read_bytes m a 1 = [m a]"
  "read_bytes m a (Suc 0) = [m a]"
  by (simp_all add: numeral_eq_Suc read_bytes_Suc)

lemma read_bytes_add: "read_bytes m a (n + k) = read_bytes m a n @ read_bytes m (a + of_nat n) k"
proof (induction n arbitrary: a)
  case 0
  then show ?case by simp
next
  case (Suc n)
  then show ?case by (simp add: read_bytes_Suc add.assoc)
qed

lemma read_bytes_cong:
  assumes "\<And>x. x \<in> region a n \<Longrightarrow> m x = m' x" and "n \<le> 2 ^ 64"
  shows "read_bytes m a n = read_bytes m' a n"
  using assms by (intro nth_equalityI) (auto intro!: assms(1) in_region_offset)

lemma write_bytes_nth:
  "length bs \<le> 2 ^ 64 \<Longrightarrow>
   write_bytes m a bs x = (if unat (x - a) < length bs then bs ! unat (x - a) else m x)"
proof (induction bs arbitrary: m a)
  case Nil
  then show ?case by simp
next
  case (Cons b bs)
  show ?case
  proof (cases "x = a")
    case True
    then have "x - (a + 1) = - 1" by simp
    then have "unat (x - (a + 1)) = 2 ^ 64 - 1" by (simp add: unsigned_minus_1_eq_mask mask_eq_exp_minus_1)
    then have "\<not> unat (x - (a + 1)) < length bs" using Cons.prems by simp
    with Cons True show ?thesis by simp
  next
    case False
    then have "x - a \<noteq> 0" by simp
    then have "unat (x - a) = Suc (unat (x - a - 1))"
      by (metis Suc_pred' measure_unat unat_gt_0 unat_minus_one)
    moreover have "x - a - 1 = x - (a + 1)" by simp
    ultimately have u: "unat (x - a) = Suc (unat (x - (a + 1)))" by metis
    with Cons False show ?thesis by simp
  qed
qed

lemma write_bytes_outside:
  "x \<notin> region a (length bs) \<Longrightarrow> length bs \<le> 2 ^ 64 \<Longrightarrow> write_bytes m a bs x = m x"
  by (simp add: write_bytes_nth region_def)

lemma read_write_same:
  "length bs \<le> 2 ^ 64 \<Longrightarrow> n = length bs \<Longrightarrow> read_bytes (write_bytes m a bs) a n = bs"
  by (rule nth_equalityI) (auto simp: write_bytes_nth unat_of_nat64)

lemma read_write_disjoint:
  assumes "region a n \<inter> region b (length bs) = {}" and "length bs \<le> 2 ^ 64" and "n \<le> 2 ^ 64"
  shows "read_bytes (write_bytes m b bs) a n = read_bytes m a n"
  using assms by (intro read_bytes_cong) (auto intro: write_bytes_outside)

lemma read_bytes_sub:
  "i + k \<le> n \<Longrightarrow> read_bytes m (a + of_nat i) k = take k (drop i (read_bytes m a n))"
  by (intro nth_equalityI) (simp_all add: read_bytes_def add.assoc)

section \<open>Little-endian encodings\<close>

definition enc :: "nat \<Rightarrow> 'a::len word \<Rightarrow> u8 list" where
  "enc n w = map (\<lambda>i. ucast (drop_bit (8 * i) w)) [0..<n]"

fun dec :: "u8 list \<Rightarrow> 'a::len word" where
  "dec [] = 0"
| "dec (b # bs) = ucast b OR push_bit 8 (dec bs)"

lemma length_enc [simp]: "length (enc n w) = n"
  by (simp add: enc_def)

lemma enc_Suc: "enc (Suc n) w = ucast w # enc n (drop_bit 8 w)"
  unfolding enc_def
  by (simp only: upt_conv_Cons [of 0 "Suc n"] zero_less_Suc list.map map_Suc_upt [symmetric] map_map)
     (simp add: drop_bit_drop_bit comp_def add.commute)

lemma dec_enc_take_bit: "dec (enc n w) = take_bit (8 * n) w"
proof (induction n arbitrary: w)
  case 0
  then show ?case by (simp add: enc_def)
next
  case (Suc n)
  show ?case
    by (rule bit_word_eqI)
      (auto simp: enc_Suc Suc bit_or_iff bit_push_bit_iff bit_take_bit_iff bit_drop_bit_eq
        bit_ucast_iff)
qed

lemma dec_enc: "LENGTH('a) \<le> 8 * n \<Longrightarrow> dec (enc n w) = (w :: 'a::len word)"
  by (simp add: dec_enc_take_bit take_bit_word_eq_self)

section \<open>Typed cells\<close>

definition load_u16 :: "mem \<Rightarrow> addr \<Rightarrow> u16" where
  "load_u16 m a = dec (read_bytes m a 2)"

definition load_u32 :: "mem \<Rightarrow> addr \<Rightarrow> u32" where
  "load_u32 m a = dec (read_bytes m a 4)"

definition load_u64 :: "mem \<Rightarrow> addr \<Rightarrow> u64" where
  "load_u64 m a = dec (read_bytes m a 8)"

definition store_u16 :: "mem \<Rightarrow> addr \<Rightarrow> u16 \<Rightarrow> mem" where
  "store_u16 m a v = write_bytes m a (enc 2 v)"

definition store_u32 :: "mem \<Rightarrow> addr \<Rightarrow> u32 \<Rightarrow> mem" where
  "store_u32 m a v = write_bytes m a (enc 4 v)"

definition store_u64 :: "mem \<Rightarrow> addr \<Rightarrow> u64 \<Rightarrow> mem" where
  "store_u64 m a v = write_bytes m a (enc 8 v)"

lemma load_zero [mem_eval]:
  "load_u16 (\<lambda>_. 0) a = 0" "load_u32 (\<lambda>_. 0) a = 0" "load_u64 (\<lambda>_. 0) a = 0"
  by (simp_all add: load_u16_def load_u32_def load_u64_def mem_eval)

locale cell =
  fixes load :: "mem \<Rightarrow> addr \<Rightarrow> 'v"
    and store :: "mem \<Rightarrow> addr \<Rightarrow> 'v \<Rightarrow> mem"
    and width :: nat
  assumes load_store: "load (store m a v) a = v"
    and load_cong: "(\<And>x. x \<in> region a width \<Longrightarrow> m x = m' x) \<Longrightarrow> load m a = load m' a"
    and store_frame: "x \<notin> region a width \<Longrightarrow> store m a v x = m x"
    and width_bound: "width \<le> 2 ^ 64"
begin

text \<open>A store leaves every byte string that does not meet the cell alone.\<close>

lemma read_bytes_store:
  "region b n \<inter> region a width = {} \<Longrightarrow> n \<le> 2 ^ 64 \<Longrightarrow> read_bytes (store m a v) b n = read_bytes m b n"
  by (rule read_bytes_cong) (auto intro: store_frame)

text \<open>A load does not see a byte string written elsewhere.\<close>

lemma load_write_bytes:
  "region a width \<inter> region b (length bs) = {} \<Longrightarrow> length bs \<le> 2 ^ 64 \<Longrightarrow>
   load (write_bytes m b bs) a = load m a"
  by (rule load_cong) (auto intro: write_bytes_outside)

end

interpretation u16: cell load_u16 store_u16 2
proof
  show "load_u16 (store_u16 m a v) a = v" for m a v
    by (simp add: load_u16_def store_u16_def read_write_same dec_enc)
  show "load_u16 m a = load_u16 m' a" if "\<And>x. x \<in> region a 2 \<Longrightarrow> m x = m' x" for a m m'
    using that read_bytes_cong [of a 2 m m'] by (simp add: load_u16_def)
  show "store_u16 m a v x = m x" if "x \<notin> region a 2" for x a m v
    using that by (simp add: store_u16_def write_bytes_outside)
qed simp

interpretation u32: cell load_u32 store_u32 4
proof
  show "load_u32 (store_u32 m a v) a = v" for m a v
    by (simp add: load_u32_def store_u32_def read_write_same dec_enc)
  show "load_u32 m a = load_u32 m' a" if "\<And>x. x \<in> region a 4 \<Longrightarrow> m x = m' x" for a m m'
    using that read_bytes_cong [of a 4 m m'] by (simp add: load_u32_def)
  show "store_u32 m a v x = m x" if "x \<notin> region a 4" for x a m v
    using that by (simp add: store_u32_def write_bytes_outside)
qed simp

interpretation u64: cell load_u64 store_u64 8
proof
  show "load_u64 (store_u64 m a v) a = v" for m a v
    by (simp add: load_u64_def store_u64_def read_write_same dec_enc)
  show "load_u64 m a = load_u64 m' a" if "\<And>x. x \<in> region a 8 \<Longrightarrow> m x = m' x" for a m m'
    using that read_bytes_cong [of a 8 m m'] by (simp add: load_u64_def)
  show "store_u64 m a v x = m x" if "x \<notin> region a 8" for x a m v
    using that by (simp add: store_u64_def write_bytes_outside)
qed simp

text \<open>Two cells that do not overlap do not interfere.\<close>

locale cell_pair = c1: cell load1 store1 w1 + c2: cell load2 store2 w2
  for load1 :: "mem \<Rightarrow> addr \<Rightarrow> 'v" and store1 and w1
    and load2 :: "mem \<Rightarrow> addr \<Rightarrow> 'w" and store2 and w2
begin

lemma load_other: "region a w1 \<inter> region b w2 = {} \<Longrightarrow> load1 (store2 m b v) a = load1 m a"
  by (rule c1.load_cong) (auto intro: c2.store_frame)

end

interpretation u16_u16: cell_pair load_u16 store_u16 2 load_u16 store_u16 2 ..
interpretation u16_u32: cell_pair load_u16 store_u16 2 load_u32 store_u32 4 ..
interpretation u16_u64: cell_pair load_u16 store_u16 2 load_u64 store_u64 8 ..
interpretation u32_u16: cell_pair load_u32 store_u32 4 load_u16 store_u16 2 ..
interpretation u32_u32: cell_pair load_u32 store_u32 4 load_u32 store_u32 4 ..
interpretation u32_u64: cell_pair load_u32 store_u32 4 load_u64 store_u64 8 ..
interpretation u64_u16: cell_pair load_u64 store_u64 8 load_u16 store_u16 2 ..
interpretation u64_u32: cell_pair load_u64 store_u64 8 load_u32 store_u32 4 ..
interpretation u64_u64: cell_pair load_u64 store_u64 8 load_u64 store_u64 8 ..

lemmas load_store_same = u16.load_store u32.load_store u64.load_store
lemmas load_store_other =
  u16_u16.load_other u16_u32.load_other u16_u64.load_other
  u32_u16.load_other u32_u32.load_other u32_u64.load_other
  u64_u16.load_other u64_u32.load_other u64_u64.load_other
lemmas store_frames = u16.store_frame u32.store_frame u64.store_frame
lemmas load_congs = u16.load_cong u32.load_cong u64.load_cong
lemmas load_write_other = u16.load_write_bytes u32.load_write_bytes u64.load_write_bytes
lemmas read_store_other = u16.read_bytes_store u32.read_bytes_store u64.read_bytes_store

section \<open>Copies\<close>

text \<open>Fields of a block that was copied from \<open>a\<close> to \<open>b\<close>.\<close>

lemma copied_bytes:
  assumes "i + k \<le> n" and "n \<le> 2 ^ 64"
  shows "read_bytes (write_bytes m b (read_bytes m a n)) (b + of_nat i) k = read_bytes m (a + of_nat i) k"
proof -
  have "read_bytes (write_bytes m b (read_bytes m a n)) b n = read_bytes m a n"
    using assms(2) by (intro read_write_same) simp_all
  then show ?thesis using read_bytes_sub [OF assms(1)] by metis
qed

lemma copied_u32:
  "i + 4 \<le> n \<Longrightarrow> n \<le> 2 ^ 64 \<Longrightarrow>
   load_u32 (write_bytes m b (read_bytes m a n)) (b + of_nat i) = load_u32 m (a + of_nat i)"
  by (simp only: load_u32_def copied_bytes)

lemma copied_u64:
  "i + 8 \<le> n \<Longrightarrow> n \<le> 2 ^ 64 \<Longrightarrow>
   load_u64 (write_bytes m b (read_bytes m a n)) (b + of_nat i) = load_u64 m (a + of_nat i)"
  by (simp only: load_u64_def copied_bytes)

end
