(* ===== verification/Slice.thy ===== *)
theory Slice
  imports Memory "HOL-Library.Sublist"
begin

text \<open>
  \<^verbatim>\<open>class Slice\<close> of \<^verbatim>\<open>slice.h\<close> and \<^verbatim>\<open>slice.cpp\<close>: a pointer and a length into memory, its
  three-way comparison, its prefix operations and its hexadecimal encoding. The theorems relate
  every operation to the byte string a slice denotes: comparison is the lexicographic order on
  byte strings, the prefix tests are list prefix and suffix, and decoding undoes encoding.
\<close>

unbundle bit_operations_syntax

section \<open>The class\<close>

record Slice =
  s_data :: addr
  s_size :: u64

text \<open>\<^verbatim>\<open>lit_empty\<close> is the address of the string literal \<^verbatim>\<open>""\<close> in the program image.\<close>

definition lit_empty :: addr where
  "lit_empty = 8"

definition Slice_default :: Slice where
  "Slice_default = \<lparr>s_data = lit_empty, s_size = 0\<rparr>"

definition Slice_data :: "Slice \<Rightarrow> addr" where "Slice_data s = s_data s"
definition Slice_size :: "Slice \<Rightarrow> u64" where "Slice_size s = s_size s"

definition Slice_make :: "addr \<Rightarrow> u64 \<Rightarrow> Slice" where
  "Slice_make d n = \<lparr>s_data = d, s_size = n\<rparr>"

text \<open>\<^verbatim>\<open>::strlen\<close>: counts up to the terminating NUL; without one it does not return.\<close>

partial_function (option) strlen_from :: "mem \<Rightarrow> addr \<Rightarrow> u64 \<Rightarrow> u64 option" where
  "strlen_from m a n = (if m a = 0 then Some n else strlen_from m (a + 1) (n + 1))"

definition strlen :: "mem \<Rightarrow> addr \<Rightarrow> u64 option" where
  "strlen m s = strlen_from m s 0"

definition Slice_cstr :: "mem \<Rightarrow> addr \<Rightarrow> Slice option" where
  "Slice_cstr m s = map_option (Slice_make s) (strlen m s)"

definition slice_bytes :: "mem \<Rightarrow> Slice \<Rightarrow> u8 list" where
  "slice_bytes m s = read_bytes m (s_data s) (unat (s_size s))"

lemma length_slice_bytes [simp]: "length (slice_bytes m s) = unat (s_size s)"
  by (simp add: slice_bytes_def)

definition Slice_empty :: "Slice \<Rightarrow> bool" where
  "Slice_empty s \<longleftrightarrow> s_size s = 0"

definition Slice_index :: "mem \<Rightarrow> Slice \<Rightarrow> u64 \<Rightarrow> u8 res" where
  "Slice_index m s n = (if n < s_size s then Inr (m (s_data s + n)) else Inl AssertFail)"

definition Slice_clear :: "Slice \<Rightarrow> Slice" where
  "Slice_clear s = s\<lparr>s_data := lit_empty, s_size := 0\<rparr>"

definition Slice_remove_prefix :: "Slice \<Rightarrow> u64 \<Rightarrow> Slice res" where
  "Slice_remove_prefix s n =
     (if n \<le> s_size s then Inr (s\<lparr>s_data := s_data s + n, s_size := s_size s - n\<rparr>)
      else Inl AssertFail)"

definition Slice_remove_suffix :: "Slice \<Rightarrow> u64 \<Rightarrow> Slice res" where
  "Slice_remove_suffix s n =
     (if n \<le> s_size s then Inr (s\<lparr>s_size := s_size s - n\<rparr>) else Inl AssertFail)"

section \<open>Comparison\<close>

text \<open>
  \<^verbatim>\<open>memcmp\<close> compares bytes as unsigned values. The C standard fixes the sign of its result
  only; the model returns -1, 0 or 1.
\<close>

fun memcmp :: "mem \<Rightarrow> addr \<Rightarrow> addr \<Rightarrow> nat \<Rightarrow> int" where
  "memcmp m a b 0 = 0"
| "memcmp m a b (Suc n) =
     (if m a = m b then memcmp m (a + 1) (b + 1) n else if m a < m b then -1 else 1)"

definition Slice_compare :: "mem \<Rightarrow> Slice \<Rightarrow> Slice \<Rightarrow> int" where
  "Slice_compare m this that =
     (let min_len = (if s_size this < s_size that then s_size this else s_size that);
          r = memcmp m (s_data this) (s_data that) (unat min_len)
      in if r = 0
         then (if s_size this < s_size that then -1
               else if s_size this > s_size that then 1 else r)
         else r)"

definition Slice_eq :: "mem \<Rightarrow> Slice \<Rightarrow> Slice \<Rightarrow> bool" where
  "Slice_eq m x y \<longleftrightarrow>
     s_size x = s_size y \<and> memcmp m (s_data x) (s_data y) (unat (s_size x)) = 0"

definition Slice_neq :: "mem \<Rightarrow> Slice \<Rightarrow> Slice \<Rightarrow> bool" where
  "Slice_neq m x y \<longleftrightarrow> \<not> Slice_eq m x y"

definition Slice_less :: "mem \<Rightarrow> Slice \<Rightarrow> Slice \<Rightarrow> bool" where
  "Slice_less m x y =
     (let s1 = s_size x; s2 = s_size y; s = (if s1 < s2 then s1 else s2);
          result = memcmp m (s_data x) (s_data y) (unat s)
      in result < 0 \<or> (result = 0 \<and> s1 < s2))"

definition Slice_starts_with :: "mem \<Rightarrow> Slice \<Rightarrow> Slice \<Rightarrow> bool" where
  "Slice_starts_with m s x \<longleftrightarrow>
     s_size s \<ge> s_size x \<and> memcmp m (s_data s) (s_data x) (unat (s_size x)) = 0"

definition Slice_ends_with :: "mem \<Rightarrow> Slice \<Rightarrow> Slice \<Rightarrow> bool" where
  "Slice_ends_with m s x \<longleftrightarrow>
     s_size s \<ge> s_size x \<and>
     memcmp m (s_data s + s_size s - s_size x) (s_data x) (unat (s_size x)) = 0"

text \<open>The loop of \<^verbatim>\<open>difference_offset\<close>; \<open>k\<close> is the number of bytes left before \<^verbatim>\<open>len\<close>.\<close>

fun diff_loop :: "mem \<Rightarrow> Slice \<Rightarrow> Slice \<Rightarrow> u64 \<Rightarrow> nat \<Rightarrow> u64" where
  "diff_loop m x y off 0 = off"
| "diff_loop m x y off (Suc k) =
     (if m (s_data x + off) \<noteq> m (s_data y + off) then off else diff_loop m x y (off + 1) k)"

definition Slice_difference_offset :: "mem \<Rightarrow> Slice \<Rightarrow> Slice \<Rightarrow> u64" where
  "Slice_difference_offset m this that =
     (let len = (if s_size this < s_size that then s_size this else s_size that)
      in diff_loop m this that 0 (unat len))"

section \<open>Hexadecimal text and concatenation\<close>

definition toHex :: "u8 \<Rightarrow> u8" where
  "toHex v = (if v \<le> 9 then 48 + v else 65 + v - 10)"

text \<open>\<^verbatim>\<open>char\<close> is signed on the platforms the build supports, so a byte is read as \<open>sint\<close>.\<close>

definition fromHex :: "u8 \<Rightarrow> int" where
  "fromHex b =
     (let c0 = sint b;
          c = (if c0 \<ge> 97 \<and> c0 \<le> 102 then c0 - (97 - 65) else c0)
      in if c < 48 \<or> (c > 57 \<and> (c < 65 \<or> c > 70)) then -1
         else if c \<le> 57 then c - 48
         else c - 65 + 10)"

fun hex_bytes :: "u8 list \<Rightarrow> u8 list" where
  "hex_bytes [] = []"
| "hex_bytes (c # cs) = toHex (drop_bit 4 c) # toHex (c AND 15) # hex_bytes cs"

definition Slice_ToString :: "mem \<Rightarrow> Slice \<Rightarrow> bool \<Rightarrow> u8 list" where
  "Slice_ToString m s hex = (if hex then hex_bytes (slice_bytes m s) else slice_bytes m s)"

text \<open>The loop of \<^verbatim>\<open>DecodeHex\<close>, two characters at a time; \<open>None\<close> is the jump to \<^verbatim>\<open>failed\<close>.\<close>

fun decode_pairs :: "u8 list \<Rightarrow> u8 list \<Rightarrow> u8 list option" where
  "decode_pairs result [] = Some result"
| "decode_pairs result [c] = None"
| "decode_pairs result (c1 # c2 # cs) =
     (let h1 = fromHex c1 in
      if h1 < 0 then None
      else let h2 = fromHex c2 in
           if h2 < 0 then None
           else decode_pairs (result @ [word_of_int (push_bit 4 h1 OR h2)]) cs)"

definition Slice_DecodeHex :: "mem \<Rightarrow> Slice \<Rightarrow> u8 list \<times> bool" where
  "Slice_DecodeHex m s =
     (if unat (s_size s) mod 2 \<noteq> 0 then ([], False)
      else case decode_pairs [] (slice_bytes m s) of
             None \<Rightarrow> ([], False)
           | Some result \<Rightarrow> (result, True))"

text \<open>\<^verbatim>\<open>struct SliceParts\<close> and the constructor that concatenates its slices into a \<^verbatim>\<open>std::string\<close>.\<close>

record SliceParts =
  sp_parts :: "Slice list"
  sp_num_parts :: int

fun append_parts :: "mem \<Rightarrow> Slice list \<Rightarrow> int \<Rightarrow> nat \<Rightarrow> u8 list \<Rightarrow> u8 list res" where
  "append_parts m ps i 0 buf = Inr buf"
| "append_parts m ps i (Suc k) buf =
     bindE (vec_at ps i) (\<lambda>s. append_parts m ps (i + 1) k (buf @ slice_bytes m s))"

text \<open>
  \<open>loc\<close> is where the string keeps its characters after the appends; the new slice refers to
  them there.
\<close>

definition Slice_of_parts ::
  "mem \<Rightarrow> SliceParts \<Rightarrow> u8 list \<Rightarrow> addr \<Rightarrow> (mem \<times> u8 list \<times> Slice) res" where
  "Slice_of_parts m parts buf loc =
     bindE (append_parts m (sp_parts parts) 0 (nat (sp_num_parts parts)) buf)
       (\<lambda>buf'. Inr (write_bytes m loc buf', buf', Slice_make loc (of_nat (length buf'))))"


section \<open>Comparison is the lexicographic order of the byte strings\<close>

fun lex_cmp :: "u8 list \<Rightarrow> u8 list \<Rightarrow> int" where
  "lex_cmp (x # xs) (y # ys) = (if x = y then lex_cmp xs ys else if x < y then -1 else 1)"
| "lex_cmp _ _ = 0"

lemma memcmp_lex_cmp: "memcmp m a b n = lex_cmp (read_bytes m a n) (read_bytes m b n)"
  by (induction n arbitrary: a b) (simp_all add: read_bytes_Suc)

lemma lex_cmp_take: "lex_cmp (take (length ys) xs) ys = lex_cmp xs ys"
  "lex_cmp xs (take (length xs) ys) = lex_cmp xs ys"
  by (induction xs ys rule: lex_cmp.induct) auto

lemma read_bytes_take: "k \<le> n \<Longrightarrow> read_bytes m a k = take k (read_bytes m a n)"
  by (rule nth_equalityI) auto

lemma memcmp_min_len:
  "memcmp m (s_data x) (s_data y) (unat (if s_size x < s_size y then s_size x else s_size y))
     = lex_cmp (slice_bytes m x) (slice_bytes m y)"
proof (cases "s_size x < s_size y")
  case True
  then have "unat (s_size x) \<le> unat (s_size y)" by (simp add: word_less_nat_alt)
  then have "read_bytes m (s_data y) (unat (s_size x)) = take (length (slice_bytes m x)) (slice_bytes m y)"
    by (simp add: slice_bytes_def read_bytes_take)
  with True show ?thesis
    by (simp add: memcmp_lex_cmp slice_bytes_def [symmetric] lex_cmp_take del: length_slice_bytes)
next
  case False
  then have "unat (s_size y) \<le> unat (s_size x)" by (simp add: word_less_nat_alt)
  then have "read_bytes m (s_data x) (unat (s_size y)) = take (length (slice_bytes m y)) (slice_bytes m x)"
    by (simp add: slice_bytes_def read_bytes_take)
  with False show ?thesis
    by (simp add: memcmp_lex_cmp slice_bytes_def [symmetric] lex_cmp_take del: length_slice_bytes)
qed

lemma Nil_less_iff: "[] < ys \<longleftrightarrow> ys \<noteq> []"
  by (cases ys) auto

lemma lex_cmp_less: "xs < ys \<longleftrightarrow> lex_cmp xs ys < 0 \<or> lex_cmp xs ys = 0 \<and> length xs < length ys"
  by (induction xs ys rule: lex_cmp.induct) (auto simp: Nil_less_iff)

lemma lex_cmp_eq: "xs = ys \<longleftrightarrow> lex_cmp xs ys = 0 \<and> length xs = length ys"
  by (induction xs ys rule: lex_cmp.induct) auto

lemma lex_cmp_antisym: "lex_cmp ys xs = - lex_cmp xs ys"
  by (induction xs ys rule: lex_cmp.induct) auto

lemma size_less_length: "s_size x < s_size y \<longleftrightarrow> length (slice_bytes m x) < length (slice_bytes m y)"
  by (simp add: word_less_nat_alt)

lemma size_eq_length: "s_size x = s_size y \<longleftrightarrow> length (slice_bytes m x) = length (slice_bytes m y)"
  by (simp add: word_unat_eq_iff)

lemma Slice_less_iff: "Slice_less m x y \<longleftrightarrow> slice_bytes m x < slice_bytes m y"
  unfolding Slice_less_def Let_def memcmp_min_len unfolding size_less_length [of x y m]
  by (simp add: lex_cmp_less)

lemma Slice_eq_iff: "Slice_eq m x y \<longleftrightarrow> slice_bytes m x = slice_bytes m y"
proof (cases "s_size x = s_size y")
  case True
  then show ?thesis
    using lex_cmp_eq [of "slice_bytes m x" "slice_bytes m y"]
    by (simp add: Slice_eq_def memcmp_lex_cmp slice_bytes_def)
next
  case False
  then show ?thesis by (metis Slice_eq_def size_eq_length)
qed

lemma Slice_compare_lex:
  "Slice_compare m x y =
     (if lex_cmp (slice_bytes m x) (slice_bytes m y) \<noteq> 0
      then lex_cmp (slice_bytes m x) (slice_bytes m y)
      else if length (slice_bytes m x) < length (slice_bytes m y) then -1
      else if length (slice_bytes m x) > length (slice_bytes m y) then 1 else 0)"
  unfolding Slice_compare_def Let_def memcmp_min_len unfolding size_less_length [of _ _ m] by simp

text \<open>
  C11. The three-way comparison of slices is the lexicographic order on the bytes they refer to:
  negative, zero and positive exactly when the first byte string is smaller, equal or greater.
  The comparison operators of \<^verbatim>\<open>slice.h\<close> agree with it.
\<close>

theorem Slice_compare_correct:
  "(Slice_compare m x y < 0 \<longleftrightarrow> slice_bytes m x < slice_bytes m y) \<and>
   (Slice_compare m x y = 0 \<longleftrightarrow> slice_bytes m x = slice_bytes m y) \<and>
   (Slice_compare m x y > 0 \<longleftrightarrow> slice_bytes m y < slice_bytes m x) \<and>
   (Slice_less m x y \<longleftrightarrow> Slice_compare m x y < 0) \<and>
   (Slice_eq m x y \<longleftrightarrow> Slice_compare m x y = 0)"
proof -
  have 1: "Slice_compare m x y < 0 \<longleftrightarrow> slice_bytes m x < slice_bytes m y"
    by (auto simp: Slice_compare_lex lex_cmp_less)
  have 2: "Slice_compare m x y = 0 \<longleftrightarrow> slice_bytes m x = slice_bytes m y"
    using lex_cmp_eq [of "slice_bytes m x" "slice_bytes m y"] by (auto simp: Slice_compare_lex)
  have 3: "Slice_compare m x y > 0 \<longleftrightarrow> slice_bytes m y < slice_bytes m x"
    using 1 2 by (metis linorder_neqE not_less_iff_gr_or_eq)
  show ?thesis using 1 2 3 by (simp add: Slice_less_iff Slice_eq_iff)
qed

section \<open>Prefix operations\<close>

lemma Slice_starts_with_iff: "Slice_starts_with m s x \<longleftrightarrow> prefix (slice_bytes m x) (slice_bytes m s)"
proof (cases "s_size s \<ge> s_size x")
  case True
  then have le: "unat (s_size x) \<le> unat (s_size s)" by (simp add: word_le_nat_alt)
  then have t: "read_bytes m (s_data s) (unat (s_size x)) = take (length (slice_bytes m x)) (slice_bytes m s)"
    by (simp add: slice_bytes_def read_bytes_take)
  have "Slice_starts_with m s x \<longleftrightarrow> take (length (slice_bytes m x)) (slice_bytes m s) = slice_bytes m x"
    using True le
    by (simp add: Slice_starts_with_def memcmp_lex_cmp t lex_cmp_eq [of "take _ _"]
        slice_bytes_def [symmetric])
  also have "\<dots> \<longleftrightarrow> prefix (slice_bytes m x) (slice_bytes m s)"
    by (metis append_eq_conv_conj prefix_def take_is_prefix)
  finally show ?thesis .
next
  case False
  then show ?thesis
    by (auto simp: Slice_starts_with_def word_le_nat_alt dest: prefix_length_le)
qed

lemma read_bytes_drop: "k \<le> n \<Longrightarrow> read_bytes m (a + of_nat k) (n - k) = drop k (read_bytes m a n)"
  by (rule nth_equalityI) (auto simp: add.assoc)

lemma Slice_ends_with_iff: "Slice_ends_with m s x \<longleftrightarrow> suffix (slice_bytes m x) (slice_bytes m s)"
proof (cases "s_size s \<ge> s_size x")
  case True
  let ?n = "unat (s_size s)" and ?k = "unat (s_size x)"
  from True have le: "?k \<le> ?n" by (simp add: word_le_nat_alt)
  have "s_data s + s_size s - s_size x = s_data s + of_nat (?n - ?k)"
    using le by (simp add: of_nat_diff)
  then have t: "read_bytes m (s_data s + s_size s - s_size x) ?k
      = drop (length (slice_bytes m s) - length (slice_bytes m x)) (slice_bytes m s)"
    using read_bytes_drop [of "?n - ?k" ?n m "s_data s"] le
    by (simp add: slice_bytes_def add_diff_eq)
  have "Slice_ends_with m s x \<longleftrightarrow>
      drop (length (slice_bytes m s) - length (slice_bytes m x)) (slice_bytes m s) = slice_bytes m x"
    using True le
    by (simp add: Slice_ends_with_def memcmp_lex_cmp t lex_cmp_eq [of "drop _ _"]
        slice_bytes_def [symmetric])
  also have "\<dots> \<longleftrightarrow> suffix (slice_bytes m x) (slice_bytes m s)"
    by (metis suffix_drop suffix_take append_take_drop_id length_drop
        diff_diff_cancel suffix_def suffix_length_le append_eq_append_conv)
  finally show ?thesis .
next
  case False
  then show ?thesis
    by (auto simp: Slice_ends_with_def word_le_nat_alt dest: suffix_length_le)
qed

lemma Slice_remove_prefix_bytes:
  assumes "Slice_remove_prefix s n = Inr s'"
  shows "slice_bytes m s' = drop (unat n) (slice_bytes m s)"
proof -
  from assms have n: "n \<le> s_size s"
    and s': "s' = s\<lparr>s_data := s_data s + n, s_size := s_size s - n\<rparr>"
    by (auto simp: Slice_remove_prefix_def split: if_splits)
  from n have "unat n \<le> unat (s_size s)" and "unat (s_size s - n) = unat (s_size s) - unat n"
    by (simp_all add: word_le_nat_alt unat_sub)
  then show ?thesis
    using read_bytes_drop [of "unat n" "unat (s_size s)" m "s_data s"]
    by (simp add: slice_bytes_def s')
qed

lemma Slice_remove_suffix_bytes:
  assumes "Slice_remove_suffix s n = Inr s'"
  shows "slice_bytes m s' = take (unat (s_size s) - unat n) (slice_bytes m s)"
proof -
  from assms have n: "n \<le> s_size s" and s': "s' = s\<lparr>s_size := s_size s - n\<rparr>"
    by (auto simp: Slice_remove_suffix_def split: if_splits)
  from n have "unat (s_size s - n) = unat (s_size s) - unat n"
    by (simp add: unat_sub)
  then show ?thesis by (simp add: slice_bytes_def s' read_bytes_take [of "_ - _" "unat (s_size s)"])
qed

lemma Slice_remove_prefix_Inr_iff: "(\<exists>s'. Slice_remove_prefix s n = Inr s') \<longleftrightarrow> n \<le> s_size s"
  by (simp add: Slice_remove_prefix_def)

fun common_prefix :: "'a list \<Rightarrow> 'a list \<Rightarrow> nat" where
  "common_prefix (x # xs) (y # ys) = (if x = y then Suc (common_prefix xs ys) else 0)"
| "common_prefix _ _ = 0"

lemma common_prefix_take:
  "common_prefix (take (length ys) xs) ys = common_prefix xs ys"
  "common_prefix xs (take (length xs) ys) = common_prefix xs ys"
  by (induction xs ys rule: common_prefix.induct) auto

lemma common_prefix_le: "common_prefix xs ys \<le> length xs \<and> common_prefix xs ys \<le> length ys"
  by (induction xs ys rule: common_prefix.induct) auto

lemma diff_loop_common:
  "diff_loop m x y off k =
     off + of_nat (common_prefix (read_bytes m (s_data x + off) k) (read_bytes m (s_data y + off) k))"
  by (induction k arbitrary: off) (simp_all add: read_bytes_Suc add.assoc)

lemma difference_offset_common:
  "unat (Slice_difference_offset m x y) = common_prefix (slice_bytes m x) (slice_bytes m y)"
proof -
  let ?len = "unat (if s_size x < s_size y then s_size x else s_size y)"
  have "common_prefix (read_bytes m (s_data x) ?len) (read_bytes m (s_data y) ?len)
      = common_prefix (slice_bytes m x) (slice_bytes m y)"
  proof (cases "s_size x < s_size y")
    case True
    then have "unat (s_size x) \<le> unat (s_size y)" by (simp add: word_less_nat_alt)
    then have "read_bytes m (s_data y) (unat (s_size x)) = take (length (slice_bytes m x)) (slice_bytes m y)"
      by (simp add: slice_bytes_def read_bytes_take)
    with True show ?thesis
      by (simp add: slice_bytes_def [symmetric] common_prefix_take del: length_slice_bytes)
  next
    case False
    then have "unat (s_size y) \<le> unat (s_size x)" by (simp add: word_less_nat_alt)
    then have "read_bytes m (s_data x) (unat (s_size y)) = take (length (slice_bytes m y)) (slice_bytes m x)"
      by (simp add: slice_bytes_def read_bytes_take)
    with False show ?thesis
      by (simp add: slice_bytes_def [symmetric] common_prefix_take del: length_slice_bytes)
  qed
  moreover have "common_prefix (slice_bytes m x) (slice_bytes m y) < 2 ^ 64"
    using common_prefix_le [of "slice_bytes m x" "slice_bytes m y"]
      unsigned_less [of "s_size x", where ?'a = nat] by simp
  ultimately show ?thesis
    by (simp add: Slice_difference_offset_def Let_def diff_loop_common unat_of_nat64)
qed

lemma common_prefix_spec:
  "i < common_prefix xs ys \<Longrightarrow> xs ! i = ys ! i"
  "common_prefix xs ys < length xs \<Longrightarrow> common_prefix xs ys < length ys \<Longrightarrow>
     xs ! common_prefix xs ys \<noteq> ys ! common_prefix xs ys"
proof (induction xs ys arbitrary: i rule: common_prefix.induct)
  case (1 x xs y ys)
  {
    case 1
    then show ?case using "1.IH"(1) by (cases i) (auto split: if_splits)
  next
    case 2
    then show ?case using "1.IH"(2) by (auto split: if_splits)
  }
qed auto

section \<open>Hexadecimal round trip\<close>

lemma fromHex_toHex_all: "\<forall>n \<in> set [0..<16]. fromHex (toHex (of_nat n)) = int n"
  by code_simp

lemma fromHex_toHex: "unat v < 16 \<Longrightarrow> fromHex (toHex v) = uint v"
  using fromHex_toHex_all [THEN bspec, of "unat v"] by simp

lemma nibble_bounds:
  fixes c :: u8
  shows "unat (drop_bit 4 c) < 16" and "unat (c AND 15) < 16"
proof -
  have "unat (drop_bit 4 c) = unat c div 16"
    by (simp add: drop_bit_eq_div unat_div_distrib)
  then show "unat (drop_bit 4 c) < 16"
    using unsigned_less [of c, where ?'a = nat] by (simp add: less_mult_imp_div_less)
  have "c AND 15 \<le> 15" by (rule word_and_le1)
  then show "unat (c AND 15) < 16" by (simp add: word_le_nat_alt)
qed

lemma nibbles_join:
  fixes c :: u8
  shows "word_of_int (push_bit 4 (uint (drop_bit 4 c)) OR uint (c AND 15)) = c"
proof (rule bit_word_eqI)
  fix n assume n: "n < LENGTH(8)"
  have 15: "(15 :: u8) = mask 4" by (simp add: mask_eq_exp_minus_1)
  show "bit (word_of_int (push_bit 4 (uint (drop_bit 4 c)) OR uint (c AND 15)) :: u8) n = bit c n"
    using n by (auto simp: 15 bit_word_of_int_iff bit_or_iff bit_push_bit_iff bit_uint_iff
        bit_drop_bit_eq bit_and_iff bit_mask_iff)
qed

lemma decode_hex_bytes: "decode_pairs acc (hex_bytes cs) = Some (acc @ cs)"
proof (induction cs arbitrary: acc)
  case Nil
  then show ?case by simp
next
  case (Cons c cs)
  have "fromHex (toHex (drop_bit 4 c)) = uint (drop_bit 4 c)"
    and "fromHex (toHex (c AND 15)) = uint (c AND 15)"
    by (simp_all add: fromHex_toHex nibble_bounds)
  then show ?case by (simp add: Let_def nibbles_join Cons del: word_of_int_eq_iff)
qed

lemma length_hex_bytes [simp]: "length (hex_bytes cs) = 2 * length cs"
  by (induction cs) auto

text \<open>
  C21. Hexadecimal round trip: decoding a slice that holds the hexadecimal text of another slice
  succeeds and returns the original bytes.
\<close>

theorem Slice_hex_roundtrip:
  assumes "slice_bytes m' t = Slice_ToString m s True"
  shows "Slice_DecodeHex m' t = (slice_bytes m s, True)"
proof -
  have "unat (s_size t) = 2 * unat (s_size s)"
    using arg_cong [OF assms, of length] by (simp add: Slice_ToString_def)
  then show ?thesis
    using assms decode_hex_bytes [of "[]" "slice_bytes m s"]
    by (simp add: Slice_DecodeHex_def Slice_ToString_def)
qed

theorem Slice_hex_roundtrip_witness:
  "Slice_DecodeHex ((\<lambda>_. 0)(100 := 54, 101 := 51, 102 := 55, 103 := 48)) (Slice_make 100 4)
     = ([99, 112], True)"
proof -
  let ?m = "(\<lambda>_. 0)(50 := 99, 51 := 112) :: mem"
  let ?m' = "(\<lambda>_. 0)(100 := 54, 101 := 51, 102 := 55, 103 := 48) :: mem"
  have "slice_bytes ?m' (Slice_make 100 4) = Slice_ToString ?m (Slice_make 50 2) True"
    by (simp add: Slice_ToString_def slice_bytes_def Slice_make_def toHex_def mem_eval)
  from Slice_hex_roundtrip [OF this] show ?thesis
    by (simp add: slice_bytes_def Slice_make_def mem_eval)
qed

text \<open>The characters \<^verbatim>\<open>fromHex\<close> accepts.\<close>

definition is_hex_digit :: "u8 \<Rightarrow> bool" where
  "is_hex_digit c \<longleftrightarrow> 48 \<le> c \<and> c \<le> 57 \<or> 65 \<le> c \<and> c \<le> 70 \<or> 97 \<le> c \<and> c \<le> 102"

lemma sint_u8: "sint (c :: u8) = (if uint c < 128 then uint c else uint c - 256)"
proof -
  have b: "0 \<le> uint c" "uint c < 256" using unsigned_less [of c, where ?'a = int] by auto
  have "sint c = (uint c + 128) mod 256 - 128"
    by (simp add: sint_uint signed_take_bit_eq_take_bit_shift take_bit_eq_mod)
  also have "\<dots> = (if uint c < 128 then uint c else uint c - 256)"
  proof (cases "uint c < 128")
    case True
    with b show ?thesis by simp
  next
    case False
    have "(uint c + 128) mod 256 = (uint c - 128 + 256) mod 256" by (simp add: add.commute)
    also have "\<dots> = uint c - 128" using False b by (simp only: mod_add_self2) simp
    finally show ?thesis using False by simp
  qed
  finally show ?thesis .
qed

lemma sint_range_u8:
  assumes "0 \<le> a" and "b < 128"
  shows "a \<le> sint (c :: u8) \<and> sint c \<le> b \<longleftrightarrow> a \<le> uint c \<and> uint c \<le> b"
  using assms unsigned_less [of c, where ?'a = int] by (auto simp: sint_u8)

lemma fromHex_digit: "0 \<le> fromHex c \<longleftrightarrow> is_hex_digit c"
proof -
  have "0 \<le> fromHex c \<longleftrightarrow>
      48 \<le> sint c \<and> sint c \<le> 57 \<or> 65 \<le> sint c \<and> sint c \<le> 70 \<or> 97 \<le> sint c \<and> sint c \<le> 102"
    by (auto simp: fromHex_def Let_def)
  also have "\<dots> \<longleftrightarrow> is_hex_digit c"
    by (simp add: sint_range_u8 is_hex_digit_def word_le_def)
  finally show ?thesis .
qed

lemma decode_pairs_accepts:
  "(\<exists>r. decode_pairs acc cs = Some r) \<longleftrightarrow> even (length cs) \<and> (\<forall>c \<in> set cs. 0 \<le> fromHex c)"
  by (induction acc cs rule: decode_pairs.induct) (auto simp: Let_def)

text \<open>
  C24. \<^verbatim>\<open>DecodeHex\<close> accepts exactly the texts its comment names: an even number of characters,
  each one of 0-9, A-F or a-f. A rejected text gives the empty string and false.
\<close>

theorem Slice_DecodeHex_accepts:
  "(snd (Slice_DecodeHex m s) \<longleftrightarrow>
      even (unat (s_size s)) \<and> list_all is_hex_digit (slice_bytes m s)) \<and>
   (snd (Slice_DecodeHex m s) \<or> Slice_DecodeHex m s = ([], False))"
proof -
  have "(\<exists>r. decode_pairs [] (slice_bytes m s) = Some r) \<longleftrightarrow>
      even (unat (s_size s)) \<and> list_all is_hex_digit (slice_bytes m s)"
    by (auto simp: decode_pairs_accepts fromHex_digit list_all_iff)
  then show ?thesis
    by (auto simp: Slice_DecodeHex_def even_iff_mod_2_eq_zero split: option.splits)
qed

section \<open>Construction\<close>

lemma append_parts_bytes:
  "int k + i = int (length ps) \<Longrightarrow> 0 \<le> i \<Longrightarrow>
   append_parts m ps i k buf = Inr (buf @ concat (map (slice_bytes m) (drop (nat i) ps)))"
proof (induction k arbitrary: i buf)
  case 0
  then show ?case by simp
next
  case (Suc k)
  then have lt: "nat i < length ps" by simp
  have "append_parts m ps (i + 1) k (buf @ slice_bytes m (ps ! nat i))
      = Inr ((buf @ slice_bytes m (ps ! nat i)) @ concat (map (slice_bytes m) (drop (nat (i + 1)) ps)))"
    using Suc.prems by (intro Suc.IH) auto
  moreover have "nat (i + 1) = Suc (nat i)" using Suc.prems by simp
  ultimately show ?case
    using Suc.prems lt Cons_nth_drop_Suc [OF lt, symmetric] by (simp add: vec_at_def)
qed

lemma slice_bytes_written:
  "length bs < 2 ^ 64 \<Longrightarrow> slice_bytes (write_bytes m a bs) (Slice_make a (of_nat (length bs))) = bs"
  by (simp add: slice_bytes_def Slice_make_def unat_of_nat64 read_write_same)

lemma Slice_of_parts_bytes:
  assumes "sp_num_parts parts = int (length (sp_parts parts))"
    and "length buf + sum_list (map (\<lambda>s. unat (s_size s)) (sp_parts parts)) < 2 ^ 64"
  shows "\<exists>m' s. Slice_of_parts m parts buf loc
      = Inr (m', buf @ concat (map (slice_bytes m) (sp_parts parts)), s)
    \<and> slice_bytes m' s = buf @ concat (map (slice_bytes m) (sp_parts parts))"
proof -
  let ?bs = "buf @ concat (map (slice_bytes m) (sp_parts parts))"
  have len: "length ?bs < 2 ^ 64"
    using assms(2) by (simp add: length_concat comp_def)
  have "append_parts m (sp_parts parts) 0 (nat (sp_num_parts parts)) buf = Inr ?bs"
    using assms(1) append_parts_bytes [of "length (sp_parts parts)" 0 "sp_parts parts" m buf] by simp
  moreover have "slice_bytes (write_bytes m loc ?bs) (Slice_make loc (of_nat (length ?bs))) = ?bs"
    using len by (rule slice_bytes_written)
  ultimately show ?thesis by (auto simp: Slice_of_parts_def simp del: length_append)
qed

lemma strlen_from_spec:
  assumes "m (a + of_nat k) = 0" and "\<And>i. i < k \<Longrightarrow> m (a + of_nat i) \<noteq> 0"
  shows "strlen_from m a n = Some (n + of_nat k)"
  using assms
proof (induction k arbitrary: a n)
  case 0
  then show ?case by (simp add: strlen_from.simps)
next
  case (Suc k)
  have "m a \<noteq> 0" using Suc.prems(2) [of 0] by simp
  moreover have "strlen_from m (a + 1) (n + 1) = Some (n + 1 + of_nat k)"
  proof (rule Suc.IH)
    show "m (a + 1 + of_nat k) = 0" using Suc.prems(1) by (simp add: add.assoc)
    show "m (a + 1 + of_nat i) \<noteq> 0" if "i < k" for i
      using Suc.prems(2) [of "Suc i"] that by (simp add: add.assoc)
  qed
  ultimately show ?case by (simp add: strlen_from.simps [of m a n] add.assoc)
qed

lemma Slice_cstr_bytes:
  assumes "m (a + of_nat k) = 0" and "\<And>i. i < k \<Longrightarrow> m (a + of_nat i) \<noteq> 0" and "k < 2 ^ 64"
  shows "\<exists>s. Slice_cstr m a = Some s \<and> slice_bytes m s = read_bytes m a k"
  using strlen_from_spec [of m a k 0] assms
  by (simp add: Slice_cstr_def strlen_def slice_bytes_def Slice_make_def unat_of_nat64)

end
