(* ===== verification/Page.thy ===== *)
theory Page
  imports Slice
begin

text \<open>
  \<^verbatim>\<open>page.h\<close> and \<^verbatim>\<open>page.cpp\<close>: the page header and the leaf and branch elements, as objects in
  byte memory with the layout of the x86-64 ABI (\<^verbatim>\<open>id_\<close> at offset 0, \<^verbatim>\<open>flags_\<close> at 8, \<^verbatim>\<open>count_\<close> at
  12, \<^verbatim>\<open>overflow_\<close> at 16, \<^verbatim>\<open>ptr_\<close> at 24; elements of 16 bytes). A page is its address; getters
  are loads, setters are stores. The lemmas give the effect of every setter on every getter.
\<close>

unbundle bit_operations_syntax

section \<open>Constants\<close>

definition BranchPageFlag :: u16 where "BranchPageFlag = 0x01"
definition LeafPageFlag :: u16 where "LeafPageFlag = 0x02"
definition MetaPageFlag :: u16 where "MetaPageFlag = 0x04"
definition FreelistPageFlag :: u16 where "FreelistPageFlag = 0x10"

definition BucketLeafFlag :: u32 where "BucketLeafFlag = 0x01"

lemmas page_flag_defs = BranchPageFlag_def LeafPageFlag_def MetaPageFlag_def FreelistPageFlag_def

text \<open>\<^verbatim>\<open>operator|(PageFlag, PageFlag)\<close>.\<close>

definition PageFlag_or :: "u16 \<Rightarrow> u16 \<Rightarrow> u16" where
  "PageFlag_or a b = a OR b"

text \<open>Byte offsets of the members of \<^verbatim>\<open>class Page\<close>; \<^verbatim>\<open>pagehsz\<close> is the offset of \<^verbatim>\<open>ptr_\<close>.\<close>

definition Page_pagehsz :: nat where "Page_pagehsz = 24"
definition LeafPageElement_elementSize :: nat where "LeafPageElement_elementSize = 16"
definition BranchPageElement_elementSize :: nat where "BranchPageElement_elementSize = 16"

definition pageHeaderSize :: nat where "pageHeaderSize = Page_pagehsz"
definition leafPageElementSize :: nat where "leafPageElementSize = LeafPageElement_elementSize"
definition branchPageElementSize :: nat where "branchPageElementSize = BranchPageElement_elementSize"

section \<open>The page header\<close>

definition Page_id :: "mem \<Rightarrow> addr \<Rightarrow> pgid_t" where
  "Page_id m p = load_u64 m p"

definition Page_setID :: "mem \<Rightarrow> addr \<Rightarrow> pgid_t \<Rightarrow> mem" where
  "Page_setID m p v = store_u64 m p v"

definition Page_flags :: "mem \<Rightarrow> addr \<Rightarrow> u16" where
  "Page_flags m p = load_u16 m (p + 8)"

definition Page_setFlags :: "mem \<Rightarrow> addr \<Rightarrow> u16 \<Rightarrow> mem" where
  "Page_setFlags m p v = store_u16 m (p + 8) (Page_flags m p OR v)"

definition Page_count :: "mem \<Rightarrow> addr \<Rightarrow> u32" where
  "Page_count m p = load_u32 m (p + 12)"

definition Page_setCount :: "mem \<Rightarrow> addr \<Rightarrow> u32 \<Rightarrow> mem" where
  "Page_setCount m p v = store_u32 m (p + 12) v"

definition Page_overflow :: "mem \<Rightarrow> addr \<Rightarrow> u32" where
  "Page_overflow m p = load_u32 m (p + 16)"

definition Page_setOverflow :: "mem \<Rightarrow> addr \<Rightarrow> mem" where
  "Page_setOverflow m p = store_u32 m (p + 16) (Page_overflow m p OR 0xffff)"

definition Page_unsetOverflow :: "mem \<Rightarrow> addr \<Rightarrow> mem" where
  "Page_unsetOverflow m p = store_u32 m (p + 16) (Page_overflow m p AND 0x0000)"

definition Page_ptr :: "mem \<Rightarrow> addr \<Rightarrow> addr" where
  "Page_ptr m p = load_u64 m (p + 24)"

text \<open>\<^verbatim>\<open>Page(id, flag, ptr)\<close>, constructed at address \<open>p\<close>.\<close>

definition Page_ctor :: "mem \<Rightarrow> addr \<Rightarrow> pgid_t \<Rightarrow> u16 \<Rightarrow> addr \<Rightarrow> mem" where
  "Page_ctor m p i flag ptr =
     store_u64 (store_u32 (store_u32 (store_u16 (store_u64 m p i) (p + 8) flag) (p + 12) 0)
       (p + 16) 0) (p + 24) ptr"

lemmas page_getter_defs = Page_id_def Page_flags_def Page_count_def Page_overflow_def Page_ptr_def
lemmas page_setter_defs =
  Page_setID_def Page_setFlags_def Page_setCount_def Page_setOverflow_def Page_unsetOverflow_def

text \<open>\<^verbatim>\<open>meta()\<close>: the stored pointer, reinterpreted.\<close>

definition Page_meta :: "mem \<Rightarrow> addr \<Rightarrow> addr" where
  "Page_meta m p = Page_ptr m p"

section \<open>Printing\<close>

text \<open>Decimal output of an unsigned value and lower-case hexadecimal output (\<^verbatim>\<open>std::hex\<close>).\<close>

fun dec_string :: "nat \<Rightarrow> string" where
  "dec_string n =
     (if n < 10 then [char_of (48 + n)] else dec_string (n div 10) @ [char_of (48 + n mod 10)])"

definition hex_char :: "nat \<Rightarrow> char" where
  "hex_char d = (if d < 10 then char_of (48 + d) else char_of (87 + d))"

fun hex_string :: "nat \<Rightarrow> string" where
  "hex_string n = (if n < 16 then [hex_char n] else hex_string (n div 16) @ [hex_char (n mod 16)])"

declare dec_string.simps [simp del] hex_string.simps [simp del]

definition Page_type :: "mem \<Rightarrow> addr \<Rightarrow> string" where
  "Page_type m p =
     (if Page_flags m p AND BranchPageFlag \<noteq> 0 then ''branch''
      else if Page_flags m p AND LeafPageFlag \<noteq> 0 then ''leaf''
      else if Page_flags m p AND MetaPageFlag \<noteq> 0 then ''meta''
      else if Page_flags m p AND FreelistPageFlag \<noteq> 0 then ''freelist''
      else ''unknown<'' @ dec_string (unat (Page_flags m p)) @ ''>'')"

text \<open>
  \<^verbatim>\<open>hexdump(n)\<close>: each byte is converted from (signed) \<^verbatim>\<open>char\<close> to \<^verbatim>\<open>int\<close> and printed in
  hexadecimal without padding; a negative value prints as its 32-bit two's complement.
\<close>

definition Page_hexdump :: "mem \<Rightarrow> addr \<Rightarrow> nat \<Rightarrow> string" where
  "Page_hexdump m p n =
     ''0x'' @ concat (map (\<lambda>b. hex_string (unat (scast b :: u32))) (read_bytes m p n)) @ ''\<newline>''"

section \<open>Page elements\<close>

record PageInfo =
  pi_id :: int
  pi_type :: string
  pi_count :: int
  pi_overflowCount :: int

record LeafPageElement =
  le_flags :: u32
  le_pos :: u32
  le_ksize :: u32
  le_vsize :: u32

record BranchPageElement =
  be_pos :: u32
  be_ksize :: u32
  be_id :: pgid_t

definition load_leaf :: "mem \<Rightarrow> addr \<Rightarrow> LeafPageElement" where
  "load_leaf m a = \<lparr>le_flags = load_u32 m a, le_pos = load_u32 m (a + 4),
     le_ksize = load_u32 m (a + 8), le_vsize = load_u32 m (a + 12)\<rparr>"

definition load_branch :: "mem \<Rightarrow> addr \<Rightarrow> BranchPageElement" where
  "load_branch m a = \<lparr>be_pos = load_u32 m a, be_ksize = load_u32 m (a + 4),
     be_id = load_u64 m (a + 8)\<rparr>"

definition LeafPageElement_key :: "mem \<Rightarrow> addr \<Rightarrow> Slice" where
  "LeafPageElement_key m this =
     Slice_make (this + ucast (le_pos (load_leaf m this))) (ucast (le_ksize (load_leaf m this)))"

definition LeafPageElement_value :: "mem \<Rightarrow> addr \<Rightarrow> Slice" where
  "LeafPageElement_value m this =
     Slice_make (this + ucast (le_pos (load_leaf m this)) + ucast (le_ksize (load_leaf m this)))
       (ucast (le_vsize (load_leaf m this)))"

definition BranchPageElement_key :: "mem \<Rightarrow> addr \<Rightarrow> Slice" where
  "BranchPageElement_key m this =
     Slice_make (this + ucast (be_pos (load_branch m this))) (ucast (be_ksize (load_branch m this)))"

definition Page_leafPageElement :: "mem \<Rightarrow> addr \<Rightarrow> u16 \<Rightarrow> addr" where
  "Page_leafPageElement m p index = Page_ptr m p + 16 * ucast index"

definition Page_branchPageElement :: "mem \<Rightarrow> addr \<Rightarrow> u16 \<Rightarrow> addr" where
  "Page_branchPageElement m p index = Page_ptr m p + 16 * ucast index"

definition Page_leafPageElements :: "mem \<Rightarrow> addr \<Rightarrow> LeafPageElement list" where
  "Page_leafPageElements m p =
     (if Page_count m p = 0 then []
      else map (\<lambda>i. load_leaf m (Page_ptr m p + 16 * of_nat i)) [0..<unat (Page_count m p)])"

definition Page_branchPageElements :: "mem \<Rightarrow> addr \<Rightarrow> BranchPageElement list" where
  "Page_branchPageElements m p =
     (if Page_count m p = 0 then []
      else map (\<lambda>i. load_branch m (Page_ptr m p + 16 * of_nat i)) [0..<unat (Page_count m p)])"

text \<open>The comparison operators between elements, and between an element and a key.\<close>

definition LeafPageElement_less :: "mem \<Rightarrow> addr \<Rightarrow> addr \<Rightarrow> bool" where
  "LeafPageElement_less m lhs rhs = Slice_less m (LeafPageElement_key m lhs) (LeafPageElement_key m rhs)"

definition LeafPageElement_eq_key :: "mem \<Rightarrow> addr \<Rightarrow> Slice \<Rightarrow> bool" where
  "LeafPageElement_eq_key m e key = Slice_eq m (LeafPageElement_key m e) key"

definition LeafPageElement_less_key :: "mem \<Rightarrow> addr \<Rightarrow> Slice \<Rightarrow> bool" where
  "LeafPageElement_less_key m e key = Slice_less m (LeafPageElement_key m e) key"

definition BranchPageElement_less :: "mem \<Rightarrow> addr \<Rightarrow> addr \<Rightarrow> bool" where
  "BranchPageElement_less m lhs rhs =
     Slice_less m (BranchPageElement_key m lhs) (BranchPageElement_key m rhs)"

definition BranchPageElement_eq_key :: "mem \<Rightarrow> addr \<Rightarrow> Slice \<Rightarrow> bool" where
  "BranchPageElement_eq_key m e key = Slice_eq m (BranchPageElement_key m e) key"

definition BranchPageElement_less_key :: "mem \<Rightarrow> addr \<Rightarrow> Slice \<Rightarrow> bool" where
  "BranchPageElement_less_key m e key = Slice_less m (BranchPageElement_key m e) key"

interpretation leaf_elem: keyed_range
  "\<lambda>e. slice_bytes m (LeafPageElement_key m e)" "slice_bytes m"
  "LeafPageElement_less_key m" "LeafPageElement_eq_key m" for m
  by unfold_locales
    (simp_all add: LeafPageElement_less_key_def LeafPageElement_eq_key_def Slice_less_iff Slice_eq_iff)

interpretation branch_elem: keyed_range
  "\<lambda>e. slice_bytes m (BranchPageElement_key m e)" "slice_bytes m"
  "BranchPageElement_less_key m" "BranchPageElement_eq_key m" for m
  by unfold_locales
    (simp_all add: BranchPageElement_less_key_def BranchPageElement_eq_key_def Slice_less_iff Slice_eq_iff)

section \<open>Getters after setters\<close>

lemmas page_access = page_getter_defs page_setter_defs load_store_same load_store_other region_disjointI

lemma Page_setID_get [simp]:
  "Page_id (Page_setID m p v) p = v"
  "Page_flags (Page_setID m p v) p = Page_flags m p"
  "Page_count (Page_setID m p v) p = Page_count m p"
  "Page_overflow (Page_setID m p v) p = Page_overflow m p"
  "Page_ptr (Page_setID m p v) p = Page_ptr m p"
  by (simp_all add: page_access)

lemma Page_setFlags_get [simp]:
  "Page_id (Page_setFlags m p v) p = Page_id m p"
  "Page_flags (Page_setFlags m p v) p = Page_flags m p OR v"
  "Page_count (Page_setFlags m p v) p = Page_count m p"
  "Page_overflow (Page_setFlags m p v) p = Page_overflow m p"
  "Page_ptr (Page_setFlags m p v) p = Page_ptr m p"
  by (simp_all add: page_access)

lemma Page_setCount_get [simp]:
  "Page_id (Page_setCount m p v) p = Page_id m p"
  "Page_flags (Page_setCount m p v) p = Page_flags m p"
  "Page_count (Page_setCount m p v) p = v"
  "Page_overflow (Page_setCount m p v) p = Page_overflow m p"
  "Page_ptr (Page_setCount m p v) p = Page_ptr m p"
  by (simp_all add: page_access)

lemma Page_setOverflow_get [simp]:
  "Page_id (Page_setOverflow m p) p = Page_id m p"
  "Page_flags (Page_setOverflow m p) p = Page_flags m p"
  "Page_count (Page_setOverflow m p) p = Page_count m p"
  "Page_overflow (Page_setOverflow m p) p = Page_overflow m p OR 0xffff"
  "Page_ptr (Page_setOverflow m p) p = Page_ptr m p"
  by (simp_all add: page_access)

lemma Page_unsetOverflow_get [simp]:
  "Page_id (Page_unsetOverflow m p) p = Page_id m p"
  "Page_flags (Page_unsetOverflow m p) p = Page_flags m p"
  "Page_count (Page_unsetOverflow m p) p = Page_count m p"
  "Page_overflow (Page_unsetOverflow m p) p = 0"
  "Page_ptr (Page_unsetOverflow m p) p = Page_ptr m p"
  by (simp_all add: page_access)

lemma Page_ctor_get [simp]:
  "Page_id (Page_ctor m p i flag ptr) p = i"
  "Page_flags (Page_ctor m p i flag ptr) p = flag"
  "Page_count (Page_ctor m p i flag ptr) p = 0"
  "Page_overflow (Page_ctor m p i flag ptr) p = 0"
  "Page_ptr (Page_ctor m p i flag ptr) p = ptr"
  by (simp_all add: page_access Page_ctor_def)

text \<open>The header of a page is the 32 bytes at its address; elements and data lie elsewhere.\<close>

lemma page_getter_congs:
  assumes "\<And>x. x \<in> region p 32 \<Longrightarrow> m x = m' x"
  shows "Page_id m p = Page_id m' p" and "Page_flags m p = Page_flags m' p"
    and "Page_count m p = Page_count m' p" and "Page_overflow m p = Page_overflow m' p"
    and "Page_ptr m p = Page_ptr m' p"
  unfolding page_getter_defs
  by (rule load_congs; rule assms; erule rev_subsetD; simp add: region_sub_field region_mono)+

lemma page_setter_frames:
  assumes "x \<notin> region p 32"
  shows "Page_setID m p i x = m x" and "Page_setFlags m p f x = m x"
    and "Page_setCount m p c x = m x" and "Page_setOverflow m p x = m x"
    and "Page_unsetOverflow m p x = m x"
  unfolding page_setter_defs
  by (rule store_frames; rule contra_subsetD [OF _ assms]; simp add: region_sub_field region_mono)+

text \<open>
  The type string of a page is decided by its flag bits in the order branch, leaf, meta,
  freelist: a freshly constructed page with exactly one of the four flags has that type, and a
  page with none of them prints its flags in decimal.
\<close>

theorem Page_type_flags:
  "Page_type (Page_ctor m p i BranchPageFlag d) p = ''branch'' \<and>
   Page_type (Page_ctor m p i LeafPageFlag d) p = ''leaf'' \<and>
   Page_type (Page_ctor m p i MetaPageFlag d) p = ''meta'' \<and>
   Page_type (Page_ctor m p i FreelistPageFlag d) p = ''freelist'' \<and>
   Page_type (Page_ctor m p i 20000 d) p = ''unknown<20000>'' \<and>
   (f AND 0x17 = 0) = (Page_type (Page_ctor m p i f d) p
      = ''unknown<'' @ dec_string (unat f) @ ''>'')"
proof -
  have 1: "dec_string 20000 = ''20000''"
    by (simp add: dec_string.simps char_of_def bit_0)
  have "f AND 0x17 = 0 \<longleftrightarrow> f AND 1 = 0 \<and> f AND 2 = 0 \<and> f AND 4 = 0 \<and> f AND 16 = 0"
  proof -
    have "f AND 0x17 = (f AND 1) OR (f AND 2) OR (f AND 4) OR (f AND 16)"
      by (simp add: bit.conj_disj_distrib [symmetric])
    then show ?thesis by (simp add: or_eq_0_iff)
  qed
  then show ?thesis by (auto simp: Page_type_def page_flag_defs 1)
qed

end
