(* ===== verification/FreeList.thy ===== *)
theory FreeList
  imports Page "HOL-Library.Multiset"
begin

text \<open>
  \<^verbatim>\<open>freelist.h\<close> and \<^verbatim>\<open>freelist.cpp\<close>: the ids of free pages, the ids each transaction has freed
  but readers may still use, and a cache of both. \<^verbatim>\<open>release\<close>, \<^verbatim>\<open>read\<close> and \<^verbatim>\<open>reindex\<close> are
  implemented; the other operations are stubs in the source and are modelled as such. The locale
  \<open>pending_store\<close> is the contract the transaction code relies on; the lemmas cover the page
  accounting (no page lost or invented), the order of the id list and the cache invariant.
\<close>

section \<open>State\<close>

text \<open>
  \<^verbatim>\<open>std::map\<close> iterates in key order, so \<open>fl_pending\<close> is an association list in ascending key
  order (\<open>pending_ok\<close>).
\<close>

record FreeList =
  fl_ids :: "pgid_t list"
  fl_pending :: "(txid_t \<times> pgid_t list) list"
  fl_cache :: "pgid_t set"

definition FreeList_new :: FreeList where
  "FreeList_new = \<lparr>fl_ids = [], fl_pending = [], fl_cache = {}\<rparr>"

section \<open>Operations\<close>

text \<open>
  The loop of \<^verbatim>\<open>release\<close> over \<^verbatim>\<open>pending\<close>: entries up to \<open>txid\<close> are erased and their pages
  appended to \<open>m\<close>, the others are kept.
\<close>

fun release_loop ::
  "txid_t \<Rightarrow> (txid_t \<times> pgid_t list) list \<Rightarrow> pgid_t list \<Rightarrow> (txid_t \<times> pgid_t list) list \<times> pgid_t list"
where
  "release_loop txid [] m = ([], m)"
| "release_loop txid ((t, ps) # rest) m =
     (if t \<le> txid then release_loop txid rest (m @ ps)
      else case release_loop txid rest m of (pending, m') \<Rightarrow> ((t, ps) # pending, m'))"

text \<open>
  \<^verbatim>\<open>std::inplace_merge\<close> of the first \<open>k\<close> elements with the rest: undefined unless both ranges are
  sorted.
\<close>

definition inplace_merge :: "nat \<Rightarrow> pgid_t list \<Rightarrow> pgid_t list res" where
  "inplace_merge k xs =
     (if sorted (take k xs) \<and> sorted (drop k xs) then Inr (merge (take k xs) (drop k xs)) else Inl UB)"

definition FreeList_release :: "FreeList \<Rightarrow> txid_t \<Rightarrow> FreeList res" where
  "FreeList_release fl txid =
     (case release_loop txid (fl_pending fl) [] of (pending, m) \<Rightarrow>
        let raw_size = length (fl_ids fl);
            ids = fl_ids fl @ m
        in bindE (inplace_merge raw_size ids) (\<lambda>ids'. Inr (fl\<lparr>fl_pending := pending, fl_ids := ids'\<rparr>)))"

fun insert_all :: "pgid_t list \<Rightarrow> pgid_t set \<Rightarrow> pgid_t set" where
  "insert_all [] c = c"
| "insert_all (i # is) c = insert_all is (insert i c)"

fun insert_pending :: "(txid_t \<times> pgid_t list) list \<Rightarrow> pgid_t set \<Rightarrow> pgid_t set" where
  "insert_pending [] c = c"
| "insert_pending ((t, ps) # rest) c = insert_pending rest (insert_all ps c)"

definition FreeList_reindex :: "FreeList \<Rightarrow> FreeList" where
  "FreeList_reindex fl =
     fl\<lparr>fl_cache := insert_pending (fl_pending fl) (insert_all (fl_ids fl) {})\<rparr>"

text \<open>\<^verbatim>\<open>ids[i]\<close> for \<open>ids\<close> the page's \<^verbatim>\<open>ptr()\<close> read as an array of \<^verbatim>\<open>pgid_t\<close>.\<close>

definition page_pgid :: "mem \<Rightarrow> addr \<Rightarrow> nat \<Rightarrow> pgid_t" where
  "page_pgid m p i = load_u64 m (Page_ptr m p + 8 * of_nat i)"

definition FreeList_read :: "mem \<Rightarrow> FreeList \<Rightarrow> addr \<Rightarrow> FreeList" where
  "FreeList_read m fl p =
     (let count0 = (ucast (Page_count m p) :: u64);
          idx = (if count0 = 0xFFFF then 1 else 0 :: nat);
          count = (if count0 = 0xFFFF then page_pgid m p 0 else count0);
          ids = (if count > 0
                 then sort (fl_ids fl @ map (page_pgid m p) [idx..<unat count])
                 else fl_ids fl)
      in FreeList_reindex (fl\<lparr>fl_ids := ids\<rparr>))"

text \<open>The stubs: they change nothing and return fixed values.\<close>

definition FreeList_rollback :: "FreeList \<Rightarrow> txid_t \<Rightarrow> FreeList" where
  "FreeList_rollback fl txid = fl"

definition FreeList_reload :: "mem \<Rightarrow> FreeList \<Rightarrow> addr \<Rightarrow> FreeList" where
  "FreeList_reload m fl p = fl"

definition FreeList_size :: "FreeList \<Rightarrow> int" where
  "FreeList_size fl = 0"

definition FreeList_count :: "FreeList \<Rightarrow> int" where
  "FreeList_count fl = 0"

definition FreeList_free_count :: "FreeList \<Rightarrow> int" where
  "FreeList_free_count fl = 0"

definition FreeList_pending_count :: "FreeList \<Rightarrow> int" where
  "FreeList_pending_count fl = 0"

definition FreeList_allocate :: "FreeList \<Rightarrow> int \<Rightarrow> pgid_t \<times> FreeList" where
  "FreeList_allocate fl n = (0, fl)"

definition FreeList_free :: "FreeList \<Rightarrow> txid_t \<Rightarrow> addr \<Rightarrow> FreeList" where
  "FreeList_free fl txid p = fl"

definition FreeList_freed :: "FreeList \<Rightarrow> pgid_t \<Rightarrow> bool" where
  "FreeList_freed fl pgid = False"

section \<open>Views and invariants\<close>

definition pending_of :: "FreeList \<Rightarrow> txid_t \<Rightarrow> pgid_t set" where
  "pending_of fl t = {pg. \<exists>ps. (t, ps) \<in> set (fl_pending fl) \<and> pg \<in> set ps}"

definition pending_ok :: "FreeList \<Rightarrow> bool" where
  "pending_ok fl \<longleftrightarrow> sorted_wrt (<) (map fst (fl_pending fl))"

definition all_pages :: "FreeList \<Rightarrow> pgid_t multiset" where
  "all_pages fl = mset (fl_ids fl) + mset (concat (map snd (fl_pending fl)))"

definition cache_ok :: "FreeList \<Rightarrow> bool" where
  "cache_ok fl \<longleftrightarrow> fl_cache fl = set_mset (all_pages fl)"

section \<open>Lemmas\<close>

lemma release_loop_split:
  "release_loop txid pending m =
     (filter (\<lambda>(t, ps). \<not> t \<le> txid) pending,
      m @ concat (map snd (filter (\<lambda>(t, ps). t \<le> txid) pending)))"
  by (induction txid pending m rule: release_loop.induct) auto

text \<open>The pages released, in the order of their transactions, and the free list with them.\<close>

definition released_pages :: "FreeList \<Rightarrow> txid_t \<Rightarrow> pgid_t list" where
  "released_pages fl txid = concat (map snd (filter (\<lambda>(t, ps). t \<le> txid) (fl_pending fl)))"

definition released :: "FreeList \<Rightarrow> txid_t \<Rightarrow> FreeList" where
  "released fl txid =
     fl\<lparr>fl_pending := filter (\<lambda>(t, ps). \<not> t \<le> txid) (fl_pending fl),
        fl_ids := merge (fl_ids fl) (released_pages fl txid)\<rparr>"

lemma FreeList_release_eq:
  "FreeList_release fl txid =
     (if sorted (fl_ids fl) \<and> sorted (released_pages fl txid) then Inr (released fl txid) else Inl UB)"
  by (simp add: FreeList_release_def release_loop_split inplace_merge_def released_def released_pages_def Let_def)

lemma FreeList_release_Inr:
  "FreeList_release fl txid = Inr fl' \<longleftrightarrow> sorted (fl_ids fl) \<and> sorted (released_pages fl txid) \<and> fl' = released fl txid"
  by (auto simp: FreeList_release_eq)

lemma mset_merge: "mset (merge xs ys) = mset xs + mset ys"
  by (induction xs ys rule: merge.induct) auto

lemma mset_concat_filter:
  "mset (concat (map snd (filter P xs))) + mset (concat (map snd (filter (\<lambda>x. \<not> P x) xs)))
     = mset (concat (map snd xs))"
  by (induction xs) (auto simp: ac_simps)

lemma all_pages_release: "all_pages (released fl txid) = all_pages fl"
  using mset_concat_filter [of "\<lambda>(t, ps). t \<le> txid" "fl_pending fl"]
  by (simp add: all_pages_def released_def released_pages_def mset_merge case_prod_unfold ac_simps)

lemma cache_release: "fl_cache (released fl txid) = fl_cache fl"
  by (simp add: released_def)

lemma pending_release:
  "pending_of (released fl txid) t = (if t \<le> txid then {} else pending_of fl t)"
  by (auto simp: pending_of_def released_def)

lemma ids_release:
  "set (fl_ids (released fl txid)) = set (fl_ids fl) \<union> \<Union> (pending_of fl ` {t. t \<le> txid})"
  by (auto simp: released_def released_pages_def pending_of_def; blast)

lemma pending_ok_release: "pending_ok fl \<Longrightarrow> pending_ok (released fl txid)"
  by (auto simp: pending_ok_def released_def sorted_wrt_map intro: sorted_wrt_filter)

lemma insert_all_eq: "insert_all is c = set is \<union> c"
  by (induction "is" c rule: insert_all.induct) auto

lemma insert_pending_eq: "insert_pending ps c = set (concat (map snd ps)) \<union> c"
  by (induction ps c rule: insert_pending.induct) (auto simp: insert_all_eq)

lemma cache_ok_reindex: "cache_ok (FreeList_reindex fl)"
  by (auto simp: cache_ok_def FreeList_reindex_def all_pages_def insert_pending_eq insert_all_eq)

text \<open>
  What the code that opens and closes transactions relies on: releasing up to a transaction id
  makes exactly the pages pending for that id or an earlier one available.
\<close>

locale pending_store =
  fixes release :: "'f \<Rightarrow> txid_t \<Rightarrow> 'f"
    and available :: "'f \<Rightarrow> pgid_t set"
    and pending :: "'f \<Rightarrow> txid_t \<Rightarrow> pgid_t set"
  assumes available_release: "available (release f t) = available f \<union> \<Union> (pending f ` {u. u \<le> t})"
    and pending_after: "pending (release f t) u = (if u \<le> t then {} else pending f u)"
begin

lemma release_keeps_newer: "t < u \<Longrightarrow> pending (release f t) u = pending f u"
  by (auto simp: pending_after)

text \<open>Releasing twice is releasing up to the later id.\<close>

lemma release_twice_available: "available (release (release f t) u) = available (release f (max t u))"
  by (auto simp: available_release pending_after le_max_iff_disj split: if_splits)

lemma release_twice_pending: "pending (release (release f t) u) v = pending (release f (max t u)) v"
  by (auto simp: pending_after le_max_iff_disj)

text \<open>A page no pending transaction holds becomes available only if it was.\<close>

lemma release_only_pending:
  "pg \<in> available (release f t) \<Longrightarrow> pg \<notin> available f \<Longrightarrow> \<exists>u \<le> t. pg \<in> pending f u"
  by (auto simp: available_release)

end

interpretation freelist: pending_store released "\<lambda>fl. set (fl_ids fl)" pending_of
  by unfold_locales (auto simp: ids_release pending_release)

section \<open>Properties\<close>

text \<open>
  C8. \<^verbatim>\<open>release\<close> is defined exactly when the ids are sorted and the released pages, one transaction
  after the other, are sorted too, as \<^verbatim>\<open>inplace_merge\<close> demands. Then it moves the pages of exactly the
  transactions up to the given id from pending to available; as a multiset no page id is lost or
  invented, the ids stay sorted, the cache stays valid, and releasing again up to a later id is the
  same as releasing up to the later id at once.
\<close>

theorem FreeList_release_correct:
  "(case FreeList_release fl t of
      Inl e \<Rightarrow> e = UB \<and> \<not> (sorted (fl_ids fl) \<and> sorted (released_pages fl t))
    | Inr fl' \<Rightarrow> sorted (fl_ids fl) \<and> sorted (released_pages fl t) \<and> sorted (fl_ids fl') \<and>
        set (fl_ids fl') = set (fl_ids fl) \<union> \<Union> (pending_of fl ` {u. u \<le> t}) \<and>
        pending_of fl' u = (if u \<le> t then {} else pending_of fl u) \<and>
        all_pages fl' = all_pages fl \<and> cache_ok fl' = cache_ok fl \<and>
        (\<forall>v fl1 fl2. FreeList_release fl' v = Inr fl1 \<and> FreeList_release fl (max t v) = Inr fl2 \<longrightarrow>
           set (fl_ids fl1) = set (fl_ids fl2) \<and> pending_of fl1 u = pending_of fl2 u))"
proof (cases "FreeList_release fl t")
  case (Inl e)
  then show ?thesis by (auto simp: FreeList_release_eq split: if_splits)
next
  case (Inr fl')
  then have ok: "sorted (fl_ids fl)" "sorted (released_pages fl t)" and fl': "fl' = released fl t"
    by (simp_all add: FreeList_release_Inr)
  have "sorted (fl_ids fl')" using ok by (simp add: fl' released_def sorted_merge_iff)
  moreover have "\<forall>v fl1 fl2. FreeList_release fl' v = Inr fl1 \<and> FreeList_release fl (max t v) = Inr fl2 \<longrightarrow>
      set (fl_ids fl1) = set (fl_ids fl2) \<and> pending_of fl1 u = pending_of fl2 u"
    using freelist.release_twice_available [of fl t] freelist.release_twice_pending [of fl t _ u]
    by (intro allI impI) (simp add: FreeList_release_Inr fl')
  moreover have "set (fl_ids fl') = set (fl_ids fl) \<union> \<Union> (pending_of fl ` {u. u \<le> t})"
    "pending_of fl' u = (if u \<le> t then {} else pending_of fl u)" "all_pages fl' = all_pages fl" "cache_ok fl' = cache_ok fl"
    by (simp_all add: fl' ids_release pending_release all_pages_release cache_ok_def cache_release)
  ultimately show ?thesis unfolding Inr sum.case using ok by (intro conjI) assumption+
qed

text \<open>Page 7 was freed by transaction 3 and page 8 by transaction 6; both are released one after the other.\<close>

theorem FreeList_release_correct_witness:
  "let fl = \<lparr>fl_ids = [4], fl_pending = [(3, [7]), (6, [8])], fl_cache = {4, 7, 8}\<rparr>
   in \<exists>fl1 fl2. FreeList_release fl 3 = Inr fl1 \<and> FreeList_release fl1 6 = Inr fl2 \<and> set (fl_ids fl2) = {4, 7, 8}"
proof -
  let ?fl = "\<lparr>fl_ids = [4], fl_pending = [(3, [7]), (6, [8])], fl_cache = {4, 7, 8}\<rparr> :: FreeList"
  obtain fl1 where 1: "FreeList_release ?fl 3 = Inr fl1" by (simp add: FreeList_release_eq released_pages_def)
  obtain fl2 where 2: "FreeList_release fl1 6 = Inr fl2"
    using 1 by (auto simp: FreeList_release_Inr) (simp add: FreeList_release_eq released_def released_pages_def)
  obtain fl3 where 3: "FreeList_release ?fl (max 3 6) = Inr fl3" by (simp add: FreeList_release_eq released_pages_def max_def)
  have "fl_ids fl3 = [4, 7, 8]" using 3 by (simp add: FreeList_release_Inr released_def released_pages_def max_def)
  then have "set (fl_ids fl2) = {4, 7, 8}"
    using FreeList_release_correct [of ?fl 3] 1 2 3 by (simp only: sum.case) auto
  then show ?thesis using 1 2 by (auto simp: Let_def)
qed

text \<open>
  The released pages are merged without being sorted first, so \<^verbatim>\<open>release\<close> can be undefined although
  every list in the free list is sorted: transaction 1 freed page 9, transaction 2 freed page 4.
\<close>

theorem FreeList_release_unsorted:
  "let fl = \<lparr>fl_ids = [3], fl_pending = [(1, [9]), (2, [4])], fl_cache = {3, 4, 9}\<rparr>
   in sorted (fl_ids fl) \<and> list_all (\<lambda>(t, ps). sorted ps) (fl_pending fl) \<and> pending_ok fl \<and> cache_ok fl
      \<and> FreeList_release fl 2 = Inl UB"
  by (auto simp: Let_def FreeList_release_eq released_pages_def pending_ok_def cache_ok_def all_pages_def)

text \<open>
  C26. \<^verbatim>\<open>read\<close> of any page. On a page with the overflow marker as its count the number \<open>n\<close> is in slot
  0 and the ids read are those in slots 1 to \<open>n - 1\<close>, so that the one in slot \<open>n\<close>, the last, is
  dropped; on any other page \<open>n\<close> is the count and the ids are in slots 0 to \<open>n - 1\<close>. These ids are
  added to the old ones, the list is sorted unless \<open>n\<close> is 0, when it stays as it was, the pending
  pages are kept and the cache is rebuilt.
\<close>

theorem FreeList_read_correct:
  "let over = (Page_count m p = 0xFFFF);
       n = (if over then page_pgid m p 0 else ucast (Page_count m p));
       fl' = FreeList_read m fl p
   in mset (fl_ids fl') = mset (fl_ids fl) + mset (map (page_pgid m p) [if over then 1 else 0..<unat n]) \<and>
      (if n = 0 then fl_ids fl' = fl_ids fl else sorted (fl_ids fl')) \<and>
      fl_pending fl' = fl_pending fl \<and> cache_ok fl'"
proof -
  define over where "over \<longleftrightarrow> Page_count m p = 0xFFFF"
  define n where "n = (if over then page_pgid m p 0 else ucast (Page_count m p))"
  have over: "(ucast (Page_count m p) :: u64) = 0xFFFF \<longleftrightarrow> over"
  proof
    assume "(ucast (Page_count m p) :: u64) = 0xFFFF"
    then have "unat (ucast (Page_count m p) :: u64) = 0xFFFF" by simp
    then show over by (simp add: over_def word_unat_eq_iff)
  qed (simp add: over_def)
  let ?ids = "if n > 0 then sort (fl_ids fl @ map (page_pgid m p) [if over then 1 else 0..<unat n]) else fl_ids fl"
  have r: "FreeList_read m fl p = FreeList_reindex (fl\<lparr>fl_ids := ?ids\<rparr>)"
    unfolding FreeList_read_def Let_def over n_def by (simp cong: if_cong)
  have "n = 0 \<longleftrightarrow> \<not> n > 0" by (simp add: word_gt_0)
  then show ?thesis unfolding Let_def over_def [symmetric] n_def [symmetric] r
    by (auto simp: cache_ok_reindex) (auto simp: FreeList_reindex_def)
qed

text \<open>
  \<^verbatim>\<open>read\<close> of an overflowing page (count 0xFFFF, the number \<open>n\<close> of ids in the first slot): the
  ids follow in slots 1 to \<open>n\<close>, but only slots 1 to \<open>n - 1\<close> are read, so the last free page is
  forgotten.
\<close>

theorem FreeList_read_overflow_drops_last:
  assumes "Page_count m p = 0xFFFF" and "page_pgid m p 0 = n" and "0 < n"
  shows "fl_ids (FreeList_read m FreeList_new p) = sort (map (page_pgid m p) [1..<unat n]) \<and>
    length (fl_ids (FreeList_read m FreeList_new p)) = unat n - 1"
proof -
  have "(ucast (Page_count m p) :: u64) = 0xFFFF" by (simp add: assms(1))
  then have "FreeList_read m FreeList_new p =
      FreeList_reindex (FreeList_new\<lparr>fl_ids := sort (map (page_pgid m p) [1..<unat n])\<rparr>)"
    using assms by (simp add: FreeList_read_def FreeList_new_def)
  then show ?thesis by (simp add: FreeList_reindex_def)
qed

text \<open>A freelist page at address 64 with data at 256, in the overflow format, holding the ids 7, 8 and 9.\<close>

definition overflow_page :: mem where
  "overflow_page =
     store_u64 (store_u64 (store_u64 (store_u64
       (store_u32 (Page_ctor (\<lambda>_. 0) 64 2 FreelistPageFlag 256) (64 + 12) 0xFFFF)
       256 3) 264 7) 272 8) 280 9"

theorem FreeList_read_overflow_witness:
  "fl_ids (FreeList_read overflow_page FreeList_new 64) = [7, 8] \<and> page_pgid overflow_page 64 3 = 9"
proof -
  have c: "Page_count overflow_page 64 = 0xFFFF" and q: "Page_ptr overflow_page 64 = 256"
    by (simp_all add: page_access Page_ctor_def overflow_page_def)
  have g: "page_pgid overflow_page 64 0 = 3" "page_pgid overflow_page 64 1 = 7"
      "page_pgid overflow_page 64 2 = 8" "page_pgid overflow_page 64 3 = 9"
    unfolding page_pgid_def q by (simp_all add: overflow_page_def load_store_same load_store_other region_disjointI)
  have "[1..<unat (3::u64)] = [1, 2]" by (simp add: upt_conv_Cons)
  then show ?thesis
    using FreeList_read_overflow_drops_last [OF c g(1)] g by simp
qed

end
