(* ===== verification/Stats.thy ===== *)
theory Stats
  imports Bolt_Prelude
begin

text \<open>
  \<^verbatim>\<open>stats.h\<close>: transaction and database statistics and their arithmetic. Counters are C++
  \<^verbatim>\<open>int\<close>s and durations are \<^verbatim>\<open>std::chrono::milliseconds\<close>; both are modelled by \<open>int\<close>. Signed
  overflow is undefined behaviour in C++, so the equations hold for counts that stay in range.
\<close>

record TxStats =
  page_count :: int
  page_alloc :: int
  cursor_count :: int
  node_count :: int
  node_deref :: int
  ts_rebalance :: int
  rebalance_time :: int
  ts_split :: int
  ts_spill :: int
  spill_time :: int
  ts_write :: int
  write_time :: int

text \<open>\<^verbatim>\<open>operator+=\<close>; \<^verbatim>\<open>operator+\<close> is the same on a copy.\<close>

definition TxStats_add :: "TxStats \<Rightarrow> TxStats \<Rightarrow> TxStats" where
  "TxStats_add this rhs = this\<lparr>
     page_count := page_count this + page_count rhs,
     page_alloc := page_alloc this + page_alloc rhs,
     cursor_count := cursor_count this + cursor_count rhs,
     node_count := node_count this + node_count rhs,
     node_deref := node_deref this + node_deref rhs,
     ts_rebalance := ts_rebalance this + ts_rebalance rhs,
     rebalance_time := rebalance_time this + rebalance_time rhs,
     ts_split := ts_split this + ts_split rhs,
     ts_spill := ts_spill this + ts_spill rhs,
     spill_time := spill_time this + spill_time rhs,
     ts_write := ts_write this + ts_write rhs,
     write_time := write_time this + write_time rhs\<rparr>"

text \<open>\<^verbatim>\<open>operator-=\<close>; \<^verbatim>\<open>operator-\<close> is the same on a copy.\<close>

definition TxStats_sub :: "TxStats \<Rightarrow> TxStats \<Rightarrow> TxStats" where
  "TxStats_sub this rhs = this\<lparr>
     page_count := page_count this - page_count rhs,
     page_alloc := page_alloc this - page_alloc rhs,
     cursor_count := cursor_count this - cursor_count rhs,
     node_count := node_count this - node_count rhs,
     node_deref := node_deref this - node_deref rhs,
     ts_rebalance := ts_rebalance this - ts_rebalance rhs,
     rebalance_time := rebalance_time this - rebalance_time rhs,
     ts_split := ts_split this - ts_split rhs,
     ts_spill := ts_spill this - ts_spill rhs,
     spill_time := spill_time this - spill_time rhs,
     ts_write := ts_write this - ts_write rhs,
     write_time := write_time this - write_time rhs\<rparr>"

record Stats =
  free_page_n :: int
  pending_page_n :: int
  free_alloc :: int
  freelist_inuse :: int
  tx_n :: int
  open_tx_n :: int
  st_tx_stats :: TxStats

definition Stats_sub :: "Stats \<Rightarrow> Stats \<Rightarrow> Stats" where
  "Stats_sub this rhs = this\<lparr>
     tx_n := tx_n this - tx_n rhs,
     st_tx_stats := TxStats_sub (st_tx_stats this) (st_tx_stats rhs)\<rparr>"

definition Stats_add :: "Stats \<Rightarrow> Stats \<Rightarrow> Stats" where
  "Stats_add this rhs = this\<lparr>
     st_tx_stats := TxStats_add (st_tx_stats this) (st_tx_stats rhs)\<rparr>"

lemma TxStats_add_commute: "TxStats_add a b = TxStats_add b a"
  by (simp add: TxStats_add_def add.commute)

lemma TxStats_add_assoc: "TxStats_add (TxStats_add a b) c = TxStats_add a (TxStats_add b c)"
  by (simp add: TxStats_add_def add.assoc)

lemma TxStats_add_sub: "TxStats_sub (TxStats_add a b) b = a"
  by (simp add: TxStats_add_def TxStats_sub_def)

lemma TxStats_sub_add: "TxStats_add (TxStats_sub a b) b = a"
  by (simp add: TxStats_add_def TxStats_sub_def)

text \<open>
  Transaction statistics form an abelian group under the operators of \<^verbatim>\<open>stats.h\<close>: the
  interval \<^verbatim>\<open>b - a\<close> added to \<^verbatim>\<open>a\<close> gives \<^verbatim>\<open>b\<close>, and the order in which transactions are merged into
  the global statistics does not matter. For \<^verbatim>\<open>Stats\<close> only the transaction part is merged, and
  subtraction takes the number of started transactions of the subtrahend off as well.
\<close>

theorem Stats_algebra:
  "TxStats_add (TxStats_sub b a) a = b \<and>
   TxStats_sub (TxStats_add a b) b = a \<and>
   Stats_add (Stats_add s t) u = Stats_add (Stats_add s u) t \<and>
   Stats_sub (Stats_add s t) t = s\<lparr>tx_n := tx_n s - tx_n t\<rparr>"
proof -
  have "Stats_add (Stats_add s t) u = Stats_add (Stats_add s u) t"
    by (simp add: Stats_add_def TxStats_add_def algebra_simps)
  moreover have "Stats_sub (Stats_add s t) t = s\<lparr>tx_n := tx_n s - tx_n t\<rparr>"
    by (simp add: Stats_sub_def Stats_add_def TxStats_add_sub)
  ultimately show ?thesis by (simp add: TxStats_sub_add TxStats_add_sub)
qed

end
