(* ===== verification/Page_Pool.thy ===== *)
theory Page_Pool
  imports Slice
begin

text \<open>
  \<^verbatim>\<open>page_pool.h\<close> and \<^verbatim>\<open>page_pool.cpp\<close>: a pool of page buffers. Both operations hold the pool's
  mutex for their whole body, so a concurrent run is a sequence of calls. The callback
  \<^verbatim>\<open>new_page_\<close> that allocates a fresh buffer is a parameter: it runs on the caller's state and
  returns a slice.
\<close>

record PagePool =
  pool_pages :: "Slice list"

text \<open>
  \<^verbatim>\<open>get\<close>: the last pooled buffer, or a new one. The source takes a reference to the last
  element, pops it and returns a copy through the reference; the copy has the popped value
  because \<^verbatim>\<open>pop_back\<close> of a trivially destructible \<^verbatim>\<open>Slice\<close> leaves its bytes in place.
\<close>

definition PagePool_get :: "('s \<Rightarrow> Slice \<times> 's) \<Rightarrow> PagePool \<Rightarrow> 's \<Rightarrow> Slice \<times> PagePool \<times> 's" where
  "PagePool_get new_page pool st =
     (if pool_pages pool = [] then (case new_page st of (s, st') \<Rightarrow> (s, pool, st'))
      else (last (pool_pages pool), pool\<lparr>pool_pages := butlast (pool_pages pool)\<rparr>, st))"

text \<open>A new pool is empty.\<close>

definition PagePool_new :: PagePool where
  "PagePool_new = \<lparr>pool_pages = []\<rparr>"

definition PagePool_put :: "PagePool \<Rightarrow> Slice \<Rightarrow> PagePool" where
  "PagePool_put pool s = pool\<lparr>pool_pages := pool_pages pool @ [s]\<rparr>"

text \<open>A client's view: buffers come back last in, first out, and none is lost or handed out twice.\<close>

locale buffer_pool =
  fixes get :: "('s \<Rightarrow> 'b \<times> 's) \<Rightarrow> 'p \<Rightarrow> 's \<Rightarrow> 'b \<times> 'p \<times> 's"
    and put :: "'p \<Rightarrow> 'b \<Rightarrow> 'p"
    and pooled :: "'p \<Rightarrow> 'b list"
  assumes pooled_put: "pooled (put p b) = pooled p @ [b]"
    and get_empty: "pooled p = [] \<Longrightarrow> new st = (b, st') \<Longrightarrow> \<exists>p'. get new p st = (b, p', st') \<and> pooled p' = []"
    and get_pooled: "pooled p \<noteq> [] \<Longrightarrow>
      \<exists>p'. get new p st = (last (pooled p), p', st) \<and> pooled p' = butlast (pooled p)"
begin

lemma get_after_put: "\<exists>p'. get new (put p b) st = (b, p', st) \<and> pooled p' = pooled p"
  using get_pooled [of "put p b" new st] by (simp add: pooled_put)

text \<open>Buffers that are distinct stay distinct, and a pooled buffer handed out leaves the pool.\<close>

lemma get_distinct:
  assumes "distinct (pooled p)" and "pooled p \<noteq> []" and "get new p st = (b, p', st')"
  shows "distinct (pooled p') \<and> b \<notin> set (pooled p') \<and> insert b (set (pooled p')) = set (pooled p)"
proof -
  obtain bs b' where bs: "pooled p = bs @ [b']"
    using assms(2) by (metis append_butlast_last_id)
  then have "b = b'" and "pooled p' = bs"
    using get_pooled [OF assms(2), of new st] assms(3) by auto
  with assms(1) bs show ?thesis by auto
qed

end

interpretation pool: buffer_pool PagePool_get PagePool_put pool_pages
  by unfold_locales (auto simp: PagePool_get_def PagePool_put_def)

text \<open>
  The pool never hands out a buffer twice: from distinct pooled buffers, \<^verbatim>\<open>get\<close> returns one
  of them and removes exactly that one; a buffer just returned by \<^verbatim>\<open>put\<close> is the next one handed
  out, without calling the allocator; from an empty pool the buffer comes from the allocator.
\<close>

theorem PagePool_get_put:
  assumes "distinct (pool_pages pool)"
  shows "(\<exists>pool'. PagePool_get new (PagePool_put pool s) st = (s, pool', st)
             \<and> pool_pages pool' = pool_pages pool) \<and>
    (pool_pages pool \<noteq> [] \<longrightarrow>
       (case PagePool_get new pool st of (b, pool', st') \<Rightarrow>
          st' = st \<and> distinct (pool_pages pool') \<and> b \<notin> set (pool_pages pool')
          \<and> insert b (set (pool_pages pool')) = set (pool_pages pool))) \<and>
    (pool_pages pool = [] \<longrightarrow>
       PagePool_get new pool st = (fst (new st), pool, snd (new st)))"
proof (intro conjI impI)
  show "\<exists>pool'. PagePool_get new (PagePool_put pool s) st = (s, pool', st)
      \<and> pool_pages pool' = pool_pages pool"
    by (rule pool.get_after_put)
next
  assume ne: "pool_pages pool \<noteq> []"
  obtain b pool' where g: "PagePool_get new pool st = (b, pool', st)"
    using pool.get_pooled [OF ne, of new st] by auto
  then show "case PagePool_get new pool st of (b, pool', st') \<Rightarrow>
      st' = st \<and> distinct (pool_pages pool') \<and> b \<notin> set (pool_pages pool')
      \<and> insert b (set (pool_pages pool')) = set (pool_pages pool)"
    using pool.get_distinct [OF assms ne g] by simp
next
  assume "pool_pages pool = []"
  then show "PagePool_get new pool st = (fst (new st), pool, snd (new st))"
    by (simp add: PagePool_get_def split_beta)
qed

theorem PagePool_get_put_witness:
  "set (pool_pages (fst (snd (PagePool_get (\<lambda>n::u64. (Slice_make n 8, n + 8))
     \<lparr>pool_pages = [Slice_make 16 8, Slice_make 32 8]\<rparr> 64)))) = {Slice_make 16 8}"
proof -
  let ?new = "\<lambda>n::u64. (Slice_make n 8, n + 8)"
  let ?p = "\<lparr>pool_pages = [Slice_make 16 8, Slice_make 32 8]\<rparr>"
  have d: "distinct (pool_pages ?p)" by (simp add: Slice_make_def)
  show ?thesis
    using PagePool_get_put [OF d, of ?new "Slice_make 48 8" 64]
    by (simp add: PagePool_get_def)
qed

end
