(* ===== verification/Objects.thy ===== *)
theory Objects
  imports Complex_Main FreeList Stats Page_Pool
begin

text \<open>
  The class declarations of \<^verbatim>\<open>node.h\<close>, \<^verbatim>\<open>bucket.h\<close>, \<^verbatim>\<open>tx.h\<close> and \<^verbatim>\<open>db.h\<close>, which refer to each
  other through pointers. Objects with C++ containers in them live in typed heaps, one per
  class; pages, meta records and slices' bytes live in byte memory. A world is all of these
  together with the addresses the allocator will hand out.
\<close>

section \<open>\<^verbatim>\<open>node.h\<close>\<close>

record INode =
  in_flags :: u32
  in_id :: pgid_t
  in_key :: Slice
  in_value :: Slice

record Node =
  n_bucket :: addr
  n_isLeaf :: bool
  n_unbalanced :: bool
  n_spilled :: bool
  n_key :: Slice
  n_id :: pgid_t
  n_parent :: addr
  n_children :: "addr list"
  n_inodes :: "INode list"

section \<open>\<^verbatim>\<open>bucket.h\<close>\<close>

text \<open>\<^verbatim>\<open>struct bucket\<close>, the on-file representation, and \<^verbatim>\<open>class Bucket\<close>.\<close>

record bucket =
  bk_root :: pgid_t
  bk_sequence :: u64

definition DefaultFillPercent :: rat where
  "DefaultFillPercent = 1 / 2"

record Bucket =
  b_bucket :: bucket
  b_tx :: addr
  b_buckets :: "u8 list \<rightharpoonup> addr"
  b_page :: addr
  b_rootNode :: addr
  b_nodes :: "pgid_t \<rightharpoonup> addr"
  b_fillPercent :: rat

section \<open>\<^verbatim>\<open>tx.h\<close>\<close>

text \<open>Commit handlers are function objects; they are identified by numbers.\<close>

record Tx =
  tx_writeFlag :: int
  tx_writable :: bool
  tx_managed :: bool
  tx_db :: addr
  tx_meta :: addr
  tx_root :: addr
  tx_pages :: "pgid_t \<rightharpoonup> addr"
  tx_stats :: TxStats
  tx_commit_handlers :: "nat list"

section \<open>\<^verbatim>\<open>db.h\<close>\<close>

record Option =
  o_Timeout :: int
  o_NoGrowSync :: bool
  o_ReadOnly :: bool
  o_MmapFlags :: int
  o_InitialMmapSize :: int

text \<open>
  A \<^verbatim>\<open>std::mutex\<close> is whether it is held, a \<^verbatim>\<open>std::shared_mutex\<close> its number of readers and
  whether a writer holds it.
\<close>

record shared_mutex =
  sm_readers :: nat
  sm_writer :: bool

record DB =
  db_pageSize :: int
  db_opened :: bool
  db_strict_mode :: bool
  db_no_sync :: bool
  db_no_grow_sync :: bool
  db_mmap_flags :: int
  db_max_batch_size :: int
  db_max_batch_delay :: int
  db_alloc_size :: int
  db_path :: string
  db_file :: addr
  db_lock_file :: addr
  db_dataref :: addr
  db_data :: addr
  db_data_sz :: int
  db_file_sz :: int
  db_meta0 :: addr
  db_meta1 :: addr
  db_page_size :: int
  db_rwtx :: addr
  db_txs :: "addr list"
  db_freelist :: addr
  db_stats :: Stats
  db_page_pool :: addr
  db_rwlock :: bool
  db_metalock :: bool
  db_mmaplock :: shared_mutex
  db_statlock :: shared_mutex
  db_read_only :: bool

section \<open>The world\<close>

text \<open>
  \<^verbatim>\<open>molly::os::File\<close> is code of another library. Of an open file the program uses the
  descriptor and the name it answers, so these are what a live file object is here.
\<close>

record File =
  f_fd :: int
  f_name :: string

text \<open>
  A page pool is kept with the page size its allocation callback has captured.
\<close>

record world =
  w_mem :: mem
  w_nodes :: "addr \<rightharpoonup> Node"
  w_buckets :: "addr \<rightharpoonup> Bucket"
  w_txs :: "addr \<rightharpoonup> Tx"
  w_dbs :: "addr \<rightharpoonup> DB"
  w_freelists :: "addr \<rightharpoonup> FreeList"
  w_files :: "addr \<rightharpoonup> File"
  w_pools :: "addr \<rightharpoonup> PagePool \<times> int"
  w_fresh :: "addr list"

text \<open>Member access through a pointer.\<close>

definition get_node :: "world \<Rightarrow> addr \<Rightarrow> Node res" where
  "get_node w p = deref (w_nodes w) p"

definition get_bucket :: "world \<Rightarrow> addr \<Rightarrow> Bucket res" where
  "get_bucket w p = deref (w_buckets w) p"

definition get_tx :: "world \<Rightarrow> addr \<Rightarrow> Tx res" where
  "get_tx w p = deref (w_txs w) p"

definition get_db :: "world \<Rightarrow> addr \<Rightarrow> DB res" where
  "get_db w p = deref (w_dbs w) p"

definition get_freelist :: "world \<Rightarrow> addr \<Rightarrow> FreeList res" where
  "get_freelist w p = deref (w_freelists w) p"

definition get_file :: "world \<Rightarrow> addr \<Rightarrow> File res" where
  "get_file w p = deref (w_files w) p"

lemmas get_defs = get_node_def get_bucket_def get_tx_def get_db_def get_freelist_def get_file_def

definition set_node :: "world \<Rightarrow> addr \<Rightarrow> Node \<Rightarrow> world" where
  "set_node w p n = w\<lparr>w_nodes := (w_nodes w)(p \<mapsto> n)\<rparr>"

definition set_tx :: "world \<Rightarrow> addr \<Rightarrow> Tx \<Rightarrow> world" where
  "set_tx w p t = w\<lparr>w_txs := (w_txs w)(p \<mapsto> t)\<rparr>"

definition set_db :: "world \<Rightarrow> addr \<Rightarrow> DB \<Rightarrow> world" where
  "set_db w p d = w\<lparr>w_dbs := (w_dbs w)(p \<mapsto> d)\<rparr>"

definition set_bucket :: "world \<Rightarrow> addr \<Rightarrow> Bucket \<Rightarrow> world" where
  "set_bucket w p b = w\<lparr>w_buckets := (w_buckets w)(p \<mapsto> b)\<rparr>"

definition set_freelist :: "world \<Rightarrow> addr \<Rightarrow> FreeList \<Rightarrow> world" where
  "set_freelist w p f = w\<lparr>w_freelists := (w_freelists w)(p \<mapsto> f)\<rparr>"

end
