(* ===== verification/Meta.thy ===== *)
theory Meta
  imports Objects
begin

text \<open>
  \<^verbatim>\<open>meta.h\<close> and \<^verbatim>\<open>meta.cpp\<close>: the meta record of the database file, an object in byte memory
  (\<^verbatim>\<open>magic\<close> at offset 0, \<^verbatim>\<open>version\<close> 4, \<^verbatim>\<open>page_size\<close> 8, \<^verbatim>\<open>flags\<close> 12, \<^verbatim>\<open>root\<close> 16, \<^verbatim>\<open>freelist\<close> 24,
  \<^verbatim>\<open>pgid\<close> 32, \<^verbatim>\<open>txid\<close> 40, \<^verbatim>\<open>checksum\<close> 48; 56 bytes). The hash \<^verbatim>\<open>molly::hash::fnva64_buf\<close> is code
  of another library; it is the parameter \<open>hash\<close>, a function of the bytes of its buffer.
\<close>

unbundle bit_operations_syntax

section \<open>Layout\<close>

definition Magic :: u32 where "Magic = 0xED0CDAED"
definition Version :: u32 where "Version = 2"

definition Meta_magic :: "mem \<Rightarrow> addr \<Rightarrow> u32" where "Meta_magic m a = load_u32 m a"
definition Meta_version :: "mem \<Rightarrow> addr \<Rightarrow> u32" where "Meta_version m a = load_u32 m (a + 4)"
definition Meta_page_size :: "mem \<Rightarrow> addr \<Rightarrow> u32" where "Meta_page_size m a = load_u32 m (a + 8)"
definition Meta_flags :: "mem \<Rightarrow> addr \<Rightarrow> u32" where "Meta_flags m a = load_u32 m (a + 12)"
definition Meta_root :: "mem \<Rightarrow> addr \<Rightarrow> addr" where "Meta_root m a = load_u64 m (a + 16)"
definition Meta_freelist :: "mem \<Rightarrow> addr \<Rightarrow> pgid_t" where "Meta_freelist m a = load_u64 m (a + 24)"
definition Meta_pgid :: "mem \<Rightarrow> addr \<Rightarrow> pgid_t" where "Meta_pgid m a = load_u64 m (a + 32)"
definition Meta_txid :: "mem \<Rightarrow> addr \<Rightarrow> txid_t" where "Meta_txid m a = load_u64 m (a + 40)"
definition Meta_checksum :: "mem \<Rightarrow> addr \<Rightarrow> u64" where "Meta_checksum m a = load_u64 m (a + 48)"

lemmas meta_getter_defs =
  Meta_magic_def Meta_version_def Meta_page_size_def Meta_flags_def Meta_root_def
  Meta_freelist_def Meta_pgid_def Meta_txid_def Meta_checksum_def

text \<open>\<^verbatim>\<open>sizeof(Meta)\<close> and the offset of \<^verbatim>\<open>checksum\<close>, the end of the hashed prefix.\<close>

definition Meta_sizeof :: nat where "Meta_sizeof = 56"
definition Meta_hashed :: nat where "Meta_hashed = 48"

text \<open>\<^verbatim>\<open>struct bucket\<close> in memory.\<close>

definition bucket_at :: "mem \<Rightarrow> addr \<Rightarrow> bucket" where
  "bucket_at m a = \<lparr>bk_root = load_u64 m a, bk_sequence = load_u64 m (a + 8)\<rparr>"

section \<open>Operations\<close>

definition Meta_sum64 :: "(u8 list \<Rightarrow> u64) \<Rightarrow> mem \<Rightarrow> addr \<Rightarrow> u64" where
  "Meta_sum64 hash m this = hash (read_bytes m this Meta_hashed)"

definition Meta_incrementTxID :: "mem \<Rightarrow> addr \<Rightarrow> mem" where
  "Meta_incrementTxID m this = store_u64 m (this + 40) (Meta_txid m this + 1)"

definition Meta_validate :: "(u8 list \<Rightarrow> u64) \<Rightarrow> mem \<Rightarrow> addr \<Rightarrow> unit res" where
  "Meta_validate hash m this =
     (if Meta_magic m this \<noteq> Magic then Inl (Throw DatabaseInvalidException)
      else if Meta_version m this \<noteq> Version then Inl (Throw DatabaseVersionMismatchException)
      else if Meta_checksum m this \<noteq> 0 \<and> Meta_checksum m this \<noteq> Meta_sum64 hash m this
      then Inl (Throw DatabaseChecksumException)
      else Inr ())"

definition Meta_write :: "(u8 list \<Rightarrow> u64) \<Rightarrow> mem \<Rightarrow> addr \<Rightarrow> addr \<Rightarrow> mem res" where
  "Meta_write hash m this p =
     (if Meta_root m this = nullptr then Inl UB
      else if bk_root (bucket_at m (Meta_root m this)) \<ge> Meta_pgid m this then Inl Abort
      else if Meta_freelist m this \<ge> Meta_pgid m this then Inl Abort
      else
        let m1 = Page_setID m p (Meta_txid m this mod 2);
            m2 = Page_setFlags m1 p (Page_flags m1 p OR MetaPageFlag);
            m3 = store_u64 m2 (this + 48) (Meta_sum64 hash m2 this)
        in Inr (write_bytes m3 (Page_meta m3 p) (read_bytes m3 this Meta_sizeof)))"

section \<open>Lemmas\<close>

lemma meta_getter_congs:
  assumes "\<And>x. x \<in> region a 56 \<Longrightarrow> m x = m' x"
  shows "Meta_magic m a = Meta_magic m' a" "Meta_version m a = Meta_version m' a"
    "Meta_page_size m a = Meta_page_size m' a" "Meta_flags m a = Meta_flags m' a"
    "Meta_root m a = Meta_root m' a" "Meta_freelist m a = Meta_freelist m' a"
    "Meta_pgid m a = Meta_pgid m' a" "Meta_txid m a = Meta_txid m' a"
    "Meta_checksum m a = Meta_checksum m' a"
  unfolding meta_getter_defs
  by (rule load_congs; rule assms; erule rev_subsetD; simp add: region_sub_field region_mono)+

lemma meta_getter_store_checksum:
  "Meta_magic (store_u64 m (a + 48) v) a = Meta_magic m a"
  "Meta_version (store_u64 m (a + 48) v) a = Meta_version m a"
  "Meta_page_size (store_u64 m (a + 48) v) a = Meta_page_size m a"
  "Meta_flags (store_u64 m (a + 48) v) a = Meta_flags m a"
  "Meta_root (store_u64 m (a + 48) v) a = Meta_root m a"
  "Meta_freelist (store_u64 m (a + 48) v) a = Meta_freelist m a"
  "Meta_pgid (store_u64 m (a + 48) v) a = Meta_pgid m a"
  "Meta_txid (store_u64 m (a + 48) v) a = Meta_txid m a"
  "Meta_checksum (store_u64 m (a + 48) v) a = v"
  "Meta_sum64 hash (store_u64 m (a + 48) v) a = Meta_sum64 hash m a"
  unfolding meta_getter_defs Meta_sum64_def Meta_hashed_def
  by (simp_all add: load_store_same load_store_other read_store_other region_disjointI)

text \<open>
  A load depends on the bytes at its address only, so two addresses with equal bytes hold equal
  meta records.
\<close>

lemma load_bytes_eq:
  assumes "\<And>i. i < n \<Longrightarrow> m (a + of_nat i) = m' (b + of_nat i)"
  shows "k + 4 \<le> n \<Longrightarrow> load_u32 m (a + of_nat k) = load_u32 m' (b + of_nat k)"
    and "k + 8 \<le> n \<Longrightarrow> load_u64 m (a + of_nat k) = load_u64 m' (b + of_nat k)"
    and "k \<le> n \<Longrightarrow> read_bytes m a k = read_bytes m' b k"
proof -
  have rb: "read_bytes m (a + of_nat i) j = read_bytes m' (b + of_nat i) j" if "i + j \<le> n" for i j
    using that assms by (intro nth_equalityI) (auto simp: add.assoc simp flip: of_nat_add)
  show "k + 4 \<le> n \<Longrightarrow> load_u32 m (a + of_nat k) = load_u32 m' (b + of_nat k)"
    by (simp add: load_u32_def rb)
  show "k + 8 \<le> n \<Longrightarrow> load_u64 m (a + of_nat k) = load_u64 m' (b + of_nat k)"
    by (simp add: load_u64_def rb)
  show "k \<le> n \<Longrightarrow> read_bytes m a k = read_bytes m' b k"
    using rb [of 0 k] by simp
qed

lemma meta_copy_eq:
  assumes "read_bytes m a 56 = read_bytes m' b 56"
  shows "Meta_magic m a = Meta_magic m' b" "Meta_version m a = Meta_version m' b"
    "Meta_page_size m a = Meta_page_size m' b" "Meta_flags m a = Meta_flags m' b"
    "Meta_root m a = Meta_root m' b" "Meta_freelist m a = Meta_freelist m' b"
    "Meta_pgid m a = Meta_pgid m' b" "Meta_txid m a = Meta_txid m' b"
    "Meta_checksum m a = Meta_checksum m' b" "Meta_sum64 hash m a = Meta_sum64 hash m' b"
proof -
  have *: "m (a + of_nat i) = m' (b + of_nat i)" if "i < 56" for i
    using arg_cong [OF assms, of "\<lambda>xs. xs ! i"] that by simp
  note L = load_bytes_eq [of 56 m a m' b, OF *]
  show "Meta_magic m a = Meta_magic m' b" "Meta_version m a = Meta_version m' b"
    "Meta_page_size m a = Meta_page_size m' b" "Meta_flags m a = Meta_flags m' b"
    "Meta_root m a = Meta_root m' b" "Meta_freelist m a = Meta_freelist m' b"
    "Meta_pgid m a = Meta_pgid m' b" "Meta_txid m a = Meta_txid m' b"
    "Meta_checksum m a = Meta_checksum m' b"
    unfolding meta_getter_defs
    using L(1) [of 0] L(1) [of 4] L(1) [of 8] L(1) [of 12] L(2) [of 16] L(2) [of 24]
      L(2) [of 32] L(2) [of 40] L(2) [of 48]
    by simp_all
  show "Meta_sum64 hash m a = Meta_sum64 hash m' b"
    using L(3) [of 48] by (simp add: Meta_sum64_def Meta_hashed_def)
qed

text \<open>
  A meta record, the page it is written to and the page's data area do not overlap.
\<close>

definition meta_sep :: "mem \<Rightarrow> addr \<Rightarrow> addr \<Rightarrow> bool" where
  "meta_sep m this p \<longleftrightarrow>
     region p 32 \<inter> region this 56 = {} \<and> region (Page_ptr m p) 56 \<inter> region p 32 = {} \<and>
     region (Page_ptr m p) 56 \<inter> region this 56 = {}"

lemma Meta_write_steps:
  assumes sep: "meta_sep m this p" and w: "Meta_write hash m this p = Inr m'"
  obtains m3 where
    "m' = write_bytes m3 (Page_ptr m p) (read_bytes m3 this 56)"
    "Page_ptr m3 p = Page_ptr m p" "Page_id m3 p = Meta_txid m this mod 2"
    "Page_flags m3 p = Page_flags m p OR MetaPageFlag"
    "\<And>x. x \<in> region this 48 \<Longrightarrow> m3 x = m x" "Meta_checksum m3 this = Meta_sum64 hash m this"
proof -
  let ?m1 = "Page_setID m p (Meta_txid m this mod 2)"
  let ?m2 = "Page_setFlags ?m1 p (Page_flags ?m1 p OR MetaPageFlag)"
  let ?m3 = "store_u64 ?m2 (this + 48) (Meta_sum64 hash ?m2 this)"
  have sub: "region (this + 48) 8 \<subseteq> region this 56" and sub48: "region this 48 \<subseteq> region this 56"
    by (simp_all add: region_sub_field region_mono)
  have m2: "?m2 x = m x" if "x \<notin> region p 32" for x
    using that by (simp add: page_setter_frames)
  have m2t: "?m2 x = m x" if "x \<in> region this 56" for x
    using that sep by (intro m2) (auto simp: meta_sep_def)
  have hdr: "?m3 x = ?m2 x" if "x \<in> region p 32" for x
    using that sep sub by (intro store_frames) (auto simp: meta_sep_def)
  have or: "f OR (f OR g) = f OR g" for f g :: u16
    by (simp flip: or.assoc)
  have "Meta_sum64 hash ?m2 this = Meta_sum64 hash m this"
    using sub48 m2t by (auto simp: Meta_sum64_def Meta_hashed_def intro!: arg_cong [of _ _ hash] read_bytes_cong)
  then have ck: "Meta_checksum ?m3 this = Meta_sum64 hash m this"
    by (simp add: meta_getter_store_checksum)
  have "?m3 x = m x" if "x \<in> region this 48" for x
  proof -
    have "region this 48 \<inter> region (this + 48) 8 = {}" by (rule region_disjointI) simp_all
    with that have "?m3 x = ?m2 x" by (intro store_frames) auto
    with that sub48 m2t show ?thesis by auto
  qed
  moreover have "m' = write_bytes ?m3 (Page_ptr ?m3 p) (read_bytes ?m3 this 56)"
    using w by (auto simp: Meta_write_def Let_def Page_meta_def Meta_sizeof_def split: if_splits)
  moreover have "Page_ptr ?m3 p = Page_ptr m p" "Page_id ?m3 p = Meta_txid m this mod 2"
      "Page_flags ?m3 p = Page_flags m p OR MetaPageFlag"
    using page_getter_congs [of p ?m3 ?m2, OF hdr] by (simp_all add: or)
  ultimately show thesis using that [of ?m3] ck by simp
qed

lemma Meta_fields_48:
  assumes "\<And>x. x \<in> region a 48 \<Longrightarrow> m x = m' x"
  shows "Meta_magic m a = Meta_magic m' a" "Meta_version m a = Meta_version m' a"
    "Meta_page_size m a = Meta_page_size m' a" "Meta_flags m a = Meta_flags m' a"
    "Meta_root m a = Meta_root m' a" "Meta_freelist m a = Meta_freelist m' a"
    "Meta_pgid m a = Meta_pgid m' a" "Meta_txid m a = Meta_txid m' a"
    "Meta_sum64 hash m a = Meta_sum64 hash m' a"
proof -
  show "Meta_magic m a = Meta_magic m' a" "Meta_version m a = Meta_version m' a"
    "Meta_page_size m a = Meta_page_size m' a" "Meta_flags m a = Meta_flags m' a"
    "Meta_root m a = Meta_root m' a" "Meta_freelist m a = Meta_freelist m' a"
    "Meta_pgid m a = Meta_pgid m' a" "Meta_txid m a = Meta_txid m' a"
    unfolding meta_getter_defs
    by (rule load_congs; rule assms; erule rev_subsetD; simp add: region_sub_field region_mono)+
  show "Meta_sum64 hash m a = Meta_sum64 hash m' a"
    unfolding Meta_sum64_def Meta_hashed_def using assms
    by (intro arg_cong [of _ _ hash] read_bytes_cong) auto
qed

lemma Meta_write_page_id:
  assumes "meta_sep m this p" and "Meta_write hash m this p = Inr m'"
  shows "Page_id m' p = Meta_txid m this mod 2"
proof -
  obtain m3 where m3: "m' = write_bytes m3 (Page_ptr m p) (read_bytes m3 this 56)"
    "Page_id m3 p = Meta_txid m this mod 2"
    using Meta_write_steps [OF assms] by blast
  have "m' x = m3 x" if "x \<in> region p 32" for x
    unfolding m3(1) using that assms(1) by (intro write_bytes_outside) (auto simp: meta_sep_def)
  from page_getter_congs(1) [of p m' m3, OF this] show ?thesis by (simp add: m3(2))
qed

section \<open>Properties\<close>

text \<open>
  C7. Writing a meta record and reading it back: when \<^verbatim>\<open>Meta::write\<close> returns, the page carries the
  id \<^verbatim>\<open>txid % 2\<close> and the meta flag, the record in the page's data area has every field of the
  written one with the checksum computed over its own bytes, and it passes \<^verbatim>\<open>validate\<close> if the
  written record had the right magic and version.
\<close>

theorem Meta_write_read_back:
  assumes "meta_sep m this p" and "Meta_write hash m this p = Inr m'"
  shows "Page_id m' p = Meta_txid m this mod 2 \<and>
    Page_flags m' p = Page_flags m p OR MetaPageFlag \<and>
    Page_meta m' p = Page_meta m p \<and>
    Meta_magic m' (Page_meta m' p) = Meta_magic m this \<and>
    Meta_version m' (Page_meta m' p) = Meta_version m this \<and>
    Meta_page_size m' (Page_meta m' p) = Meta_page_size m this \<and>
    Meta_flags m' (Page_meta m' p) = Meta_flags m this \<and>
    Meta_root m' (Page_meta m' p) = Meta_root m this \<and>
    Meta_freelist m' (Page_meta m' p) = Meta_freelist m this \<and>
    Meta_pgid m' (Page_meta m' p) = Meta_pgid m this \<and>
    Meta_txid m' (Page_meta m' p) = Meta_txid m this \<and>
    Meta_checksum m' (Page_meta m' p) = Meta_sum64 hash m' (Page_meta m' p) \<and>
    (Meta_validate hash m' (Page_meta m' p) = Inr ()
       \<longleftrightarrow> Meta_magic m this = Magic \<and> Meta_version m this = Version)"
proof -
  obtain m3 where m3:
    "m' = write_bytes m3 (Page_ptr m p) (read_bytes m3 this 56)"
    "Page_ptr m3 p = Page_ptr m p" "Page_id m3 p = Meta_txid m this mod 2"
    "Page_flags m3 p = Page_flags m p OR MetaPageFlag"
    "\<And>x. x \<in> region this 48 \<Longrightarrow> m3 x = m x" "Meta_checksum m3 this = Meta_sum64 hash m this"
    using Meta_write_steps [OF assms] by blast
  have "m' x = m3 x" if "x \<in> region p 32" for x
    unfolding m3(1) using that assms(1) by (intro write_bytes_outside) (auto simp: meta_sep_def)
  note hdr = page_getter_congs [of p m' m3, OF this]
  have "read_bytes m' (Page_ptr m p) 56 = read_bytes m3 this 56"
    unfolding m3(1) by (rule read_write_same) simp_all
  note cp = meta_copy_eq [OF this]
  note f48 = Meta_fields_48 [of this m3 m, OF m3(5)]
  have d: "Page_meta m' p = Page_ptr m p" and d0: "Page_meta m p = Page_ptr m p"
    using hdr(5) m3(2) by (simp_all add: Page_meta_def)
  show ?thesis
    unfolding d d0 by (simp add: hdr(1,2) m3(3,4,6) cp f48 Meta_validate_def)
qed

text \<open>A concrete meta record at 512 and page at 1024 with its data area at 2048.\<close>

definition meta_mem :: mem where
  "meta_mem =
     store_u64 (store_u64 (store_u64 (store_u64 (store_u32 (store_u32
       (Page_ctor (\<lambda>_. 0) 1024 0 0 2048)
       512 Magic) 516 Version) 528 768) 536 2) 544 4) 552 5"

lemma meta_mem_layout:
  "Page_ptr meta_mem 1024 = 2048" "Meta_magic meta_mem 512 = Magic"
  "Meta_version meta_mem 512 = Version" "Meta_root meta_mem 512 = 768"
  "Meta_freelist meta_mem 512 = 2" "Meta_pgid meta_mem 512 = 4" "Meta_txid meta_mem 512 = 5"
  "load_u64 meta_mem 768 = 0"
  by (simp_all add: meta_mem_def meta_getter_defs page_access Page_ctor_def mem_eval)

theorem Meta_write_read_back_witness:
  "\<exists>m'. Meta_write (\<lambda>bs. of_nat (length bs)) meta_mem 512 1024 = Inr m' \<and>
     Page_id m' 1024 = 1 \<and> Meta_txid m' 2048 = 5 \<and> Meta_checksum m' 2048 = 48 \<and>
     Meta_validate (\<lambda>bs. of_nat (length bs)) m' 2048 = Inr ()"
proof -
  let ?h = "\<lambda>bs :: u8 list. of_nat (length bs) :: u64"
  have sep: "meta_sep meta_mem 512 1024"
    by (simp add: meta_sep_def meta_mem_layout region_disjointI)
  obtain m' where w: "Meta_write ?h meta_mem 512 1024 = Inr m'"
    by (simp add: Meta_write_def meta_mem_layout bucket_at_def Let_def)
  have d: "Page_meta m' 1024 = 2048"
    using Meta_write_read_back [OF sep w] by (simp add: Page_meta_def meta_mem_layout)
  show ?thesis
    using Meta_write_read_back [OF sep w, unfolded d] w
    by (auto simp: meta_mem_layout Meta_sum64_def Meta_hashed_def)
qed

text \<open>
  C25. \<^verbatim>\<open>validate\<close> detects corruption up to the strength of the hash: once a record with a nonzero
  checksum is valid, a record with the same checksum but hashed bytes of another hash value is
  rejected. The protection can be switched off: with the checksum field zeroed every record with
  the right magic and version is accepted.
\<close>

theorem Meta_validate_detects:
  assumes "Meta_validate hash m a = Inr ()" and "Meta_checksum m a \<noteq> 0"
    and "Meta_checksum m' a = Meta_checksum m a"
    and "hash (read_bytes m' a 48) \<noteq> hash (read_bytes m a 48)"
  shows "(\<exists>e. Meta_validate hash m' a = Inl (Throw e)) \<and>
    (Meta_magic m' a = Magic \<and> Meta_version m' a = Version \<longrightarrow>
       Meta_validate hash m' a = Inl (Throw DatabaseChecksumException) \<and>
       Meta_validate hash (store_u64 m' (a + 48) 0) a = Inr ())"
proof -
  have "Meta_checksum m' a = hash (read_bytes m a 48)"
    using assms(1-3) by (auto simp: Meta_validate_def Meta_sum64_def Meta_hashed_def split: if_splits)
  moreover have "Meta_checksum m' a \<noteq> Meta_sum64 hash m' a" "Meta_checksum m' a \<noteq> 0"
    using calculation assms by (auto simp: Meta_sum64_def Meta_hashed_def)
  ultimately show ?thesis
    by (auto simp: Meta_validate_def meta_getter_store_checksum)
qed

theorem Meta_validate_detects_witness:
  "let m = store_u64 (store_u32 (store_u32 (\<lambda>_. 0) 512 Magic) 516 Version) 560 5;
       m' = store_u32 m 520 4096;
       hash = (\<lambda>bs. if bs ! 9 = 0 then 5 else 9)
   in Meta_validate hash m' 512 = Inl (Throw DatabaseChecksumException)"
proof -
  let ?m = "store_u64 (store_u32 (store_u32 (\<lambda>_. 0) 512 Magic) 516 Version) 560 5"
  let ?m' = "store_u32 ?m 520 4096" and ?hash = "\<lambda>bs :: u8 list. if bs ! 9 = 0 then 5 else 9 :: u64"
  have f: "Meta_magic ?m 512 = Magic" "Meta_version ?m 512 = Version" "Meta_checksum ?m 512 = 5"
    "Meta_magic ?m' 512 = Magic" "Meta_version ?m' 512 = Version" "Meta_checksum ?m' 512 = 5"
    by (simp_all add: meta_getter_defs load_store_same load_store_other region_disjointI)
  have b: "?m 521 = 0" "?m' 521 = 16"
    by (simp_all add: store_u32_def store_u64_def write_bytes_nth enc_def Magic_def Version_def)
  have v: "Meta_validate ?hash ?m 512 = Inr ()"
    by (simp add: Meta_validate_def f Meta_sum64_def Meta_hashed_def b)
  show ?thesis unfolding Let_def
    using Meta_validate_detects [OF v, of ?m'] by (simp add: f b)
qed

text \<open>
  Consecutive transactions never write the same meta page: after \<^verbatim>\<open>incrementTxID\<close>, also when the
  id wraps around at \<open>2^64\<close>, the page id \<^verbatim>\<open>txid % 2\<close> is the other one of 0 and 1, so the
  previous meta record stays intact if the write fails.
\<close>

lemma parity_flip: "(x + 1) mod 2 \<noteq> x mod 2" for x :: u64
proof
  assume "(x + 1) mod 2 = x mod 2"
  then have "(x + 1) AND 1 = x AND 1"
    using take_bit_eq_mod [of 1 "x + 1"] take_bit_eq_mod [of 1 x]
      take_bit_eq_mask [of 1 "x + 1"] take_bit_eq_mask [of 1 x]
    by (simp add: mask_eq_exp_minus_1)
  then have "bit (x + 1) 0 = bit x 0"
    by (metis bit_and_iff bit_1_0)
  then show False by (simp add: bit_0)
qed

theorem Meta_alternates:
  assumes "meta_sep m this p" and "Meta_write hash m this p = Inr m1"
    and "m2 = Meta_incrementTxID m this"
    and "meta_sep m2 this q" and "Meta_write hash m2 this q = Inr m3"
  shows "Page_id m1 p \<noteq> Page_id m3 q"
proof -
  have "Meta_txid m2 this = Meta_txid m this + 1"
    by (simp add: assms(3) Meta_incrementTxID_def Meta_txid_def load_store_same)
  then show ?thesis
    using Meta_write_page_id [OF assms(1,2)] Meta_write_page_id [OF assms(4,5)]
    by (metis parity_flip)
qed

theorem Meta_alternates_witness:
  "\<exists>m1 m3. Meta_write (\<lambda>_. 7) meta_mem 512 1024 = Inr m1 \<and>
     Meta_write (\<lambda>_. 7) (Meta_incrementTxID meta_mem 512) 512 1024 = Inr m3 \<and>
     Page_id m1 1024 \<noteq> Page_id m3 1024"
proof -
  let ?h = "\<lambda>_ :: u8 list. 7 :: u64" and ?m2 = "Meta_incrementTxID meta_mem 512"
  have q: "Page_ptr ?m2 1024 = 2048" and f: "Meta_root ?m2 512 = 768" "Meta_freelist ?m2 512 = 2"
    "Meta_pgid ?m2 512 = 4" "load_u64 ?m2 768 = 0"
    by (simp_all add: Meta_incrementTxID_def meta_mem_def meta_getter_defs page_access Page_ctor_def mem_eval)
  have sep: "meta_sep meta_mem 512 1024" "meta_sep ?m2 512 1024"
    by (simp_all add: meta_sep_def q meta_mem_layout region_disjointI)
  obtain m1 where m1: "Meta_write ?h meta_mem 512 1024 = Inr m1"
    by (simp add: Meta_write_def meta_mem_layout bucket_at_def Let_def)
  obtain m3 where m3: "Meta_write ?h ?m2 512 1024 = Inr m3"
    by (simp add: Meta_write_def f bucket_at_def Let_def)
  show ?thesis using m1 m3 Meta_alternates [OF sep(1) m1 refl sep(2) m3] by blast
qed

end
