(* ===== verification/Bucket.thy ===== *)
theory Bucket
  imports Meta
begin

text \<open>
  How a page id becomes a page or a node: \<^verbatim>\<open>DB::page\<close>, \<^verbatim>\<open>Tx::page\<close>, and \<^verbatim>\<open>bucket.h\<close> with
  \<^verbatim>\<open>bucket.cpp\<close>. A bucket serves an id from its node cache if the node is materialised, and
  from the transaction's dirty pages or the memory map otherwise; an inline bucket has one page,
  with id 0. The operations that are stubs in the source are modelled as such.
\<close>

unbundle bit_operations_syntax

section \<open>\<^verbatim>\<open>DB::page\<close> and \<^verbatim>\<open>Tx::page\<close>\<close>

text \<open>
  \<^verbatim>\<open>int pos = id * pageSize_\<close>: the product is computed in 64 bits, converted to a 32-bit \<^verbatim>\<open>int\<close> and
  added to the base with its sign.
\<close>

definition DB_page :: "DB \<Rightarrow> pgid_t \<Rightarrow> addr" where
  "DB_page d pid =
     (let pos = (ucast (pid * of_int (db_pageSize d)) :: u32)
      in db_data d + scast pos)"

definition Tx_page :: "world \<Rightarrow> Tx \<Rightarrow> pgid_t \<Rightarrow> addr res" where
  "Tx_page w t pid =
     (case tx_pages t pid of
        Some p \<Rightarrow> Inr p
      | None \<Rightarrow> bindE (get_db w (tx_db t)) (\<lambda>d. Inr (DB_page d pid)))"

section \<open>\<^verbatim>\<open>class Bucket\<close>\<close>

text \<open>\<^verbatim>\<open>Bucket(Tx *)\<close>: members the constructor does not initialise keep what the memory held (\<open>raw\<close>).\<close>

definition Bucket_ctor :: "Bucket \<Rightarrow> addr \<Rightarrow> Bucket" where
  "Bucket_ctor raw tx =
     raw\<lparr>b_fillPercent := DefaultFillPercent, b_tx := tx, b_buckets := Map.empty, b_nodes := Map.empty\<rparr>"

definition Bucket_set_bucket :: "Bucket \<Rightarrow> bucket \<Rightarrow> Bucket" where
  "Bucket_set_bucket this b =
     this\<lparr>b_bucket := (b_bucket this)\<lparr>bk_root := bk_root b, bk_sequence := bk_sequence b\<rparr>\<rparr>"

definition Bucket_writable :: "world \<Rightarrow> Bucket \<Rightarrow> bool res" where
  "Bucket_writable w this = bindE (get_tx w (b_tx this)) (\<lambda>t. Inr (tx_writable t))"

text \<open>\<^verbatim>\<open>gsl::not_null\<close> never holds a null pointer.\<close>

definition Bucket_tx :: "Bucket \<Rightarrow> addr" where
  "Bucket_tx this = b_tx this"

definition Bucket_root :: "Bucket \<Rightarrow> pgid_t" where
  "Bucket_root this = bk_root (b_bucket this)"

text \<open>\<^verbatim>\<open>node\<close> is a stub that returns a null pointer.\<close>

definition Bucket_node :: "Bucket \<Rightarrow> pgid_t \<Rightarrow> addr \<Rightarrow> addr" where
  "Bucket_node this pid parent = nullptr"

definition Bucket_inline :: "Bucket \<Rightarrow> bool" where
  "Bucket_inline this \<longleftrightarrow> bk_root (b_bucket this) = 0"

definition Bucket_page_node :: "world \<Rightarrow> Bucket \<Rightarrow> pgid_t \<Rightarrow> (addr \<times> addr) res" where
  "Bucket_page_node w this pid =
     (if Bucket_inline this
      then if pid \<noteq> 0 then Inl (Exit 1)
           else if b_rootNode this \<noteq> nullptr then Inr (nullptr, b_rootNode this)
           else Inr (b_page this, nullptr)
      else case b_nodes this pid of
             Some n \<Rightarrow> Inr (nullptr, n)
           | None \<Rightarrow>
               bindE (get_tx w (b_tx this)) (\<lambda>t.
               bindE (Tx_page w t pid) (\<lambda>p. Inr (p, nullptr))))"

text \<open>The remaining operations of \<^verbatim>\<open>bucket.cpp\<close> are stubs.\<close>

definition Bucket_create_bucket :: "Bucket \<Rightarrow> Slice \<Rightarrow> addr" where
  "Bucket_create_bucket this name = nullptr"

definition Bucket_cursor :: "Bucket \<Rightarrow> addr" where
  "Bucket_cursor this = nullptr"

definition Bucket_subbucket :: "Bucket \<Rightarrow> Slice \<Rightarrow> addr" where
  "Bucket_subbucket this name = nullptr"

definition Bucket_create_bucket_if_not_exists :: "Bucket \<Rightarrow> Slice \<Rightarrow> addr" where
  "Bucket_create_bucket_if_not_exists this key = nullptr"

definition Bucket_delete_bucket :: "Bucket \<Rightarrow> Slice \<Rightarrow> Bucket" where
  "Bucket_delete_bucket this key = this"

definition Bucket_delete_by_key :: "Bucket \<Rightarrow> Slice \<Rightarrow> Bucket" where
  "Bucket_delete_by_key this key = this"

text \<open>\<^verbatim>\<open>for_each\<close> never calls the function it is given; \<open>st\<close> is the state the function would act on.\<close>

definition Bucket_for_each :: "Bucket \<Rightarrow> (Slice \<Rightarrow> Slice \<Rightarrow> 's \<Rightarrow> 's) \<Rightarrow> 's \<Rightarrow> 's" where
  "Bucket_for_each this fn st = st"

section \<open>Properties\<close>

lemma scast_small:
  fixes x :: u32
  assumes "unat x < 2 ^ 31"
  shows "(scast x :: u64) = of_nat (unat x)"
proof -
  have "uint x < 2147483648" using assms by (simp flip: uint_nat nat_uint_eq)
  moreover have "- 2147483648 \<le> uint x" by (rule order_trans [of _ 0]) simp_all
  ultimately have "sint x = uint x"
    unfolding sint_uint by (intro signed_take_bit_int_eq_self) auto
  then have "(scast x :: u64) = word_of_int (uint x)" by (metis of_int_sint)
  then show ?thesis by simp
qed

lemma DB_page_product:
  fixes pid :: pgid_t
  assumes "0 \<le> db_pageSize d" and "unat pid * nat (db_pageSize d) < 2 ^ 64"
  shows "unat (pid * of_int (db_pageSize d)) = unat pid * nat (db_pageSize d)"
proof -
  have "(of_int (db_pageSize d) :: u64) = of_nat (nat (db_pageSize d))"
    using assms(1) by simp
  then have "pid * of_int (db_pageSize d) = (of_nat (unat pid * nat (db_pageSize d)) :: u64)"
    by simp
  then show ?thesis using assms(2) by (simp only: unat_of_nat64)
qed

text \<open>
  C28. The address of a page in the memory map: as long as the byte offset of the page stays below
  \<open>2^31\<close>, \<^verbatim>\<open>DB::page\<close> returns the base plus \<^verbatim>\<open>id * pageSize_\<close>, and distinct pages of a positive
  page size get distinct, page-sized, disjoint address ranges.
\<close>

theorem DB_page_layout:
  assumes "0 < db_pageSize d"
    and "unat i * nat (db_pageSize d) < 2 ^ 31" and "unat j * nat (db_pageSize d) < 2 ^ 31"
  shows "DB_page d i = db_data d + of_nat (unat i * nat (db_pageSize d)) \<and>
    (i \<noteq> j \<longrightarrow> region (DB_page d i) (nat (db_pageSize d)) \<inter> region (DB_page d j) (nat (db_pageSize d)) = {})"
proof -
  let ?s = "nat (db_pageSize d)"
  have addr: "DB_page d k = db_data d + of_nat (unat k * ?s)" if k: "unat k * ?s < 2 ^ 31" for k
  proof -
    have "unat (k * of_int (db_pageSize d)) = unat k * ?s"
      using assms(1) k by (intro DB_page_product) auto
    then have "unat (ucast (k * of_int (db_pageSize d)) :: u32) = unat k * ?s"
      using k by (simp add: unsigned_ucast_eq take_bit_nat_eq_self)
    then show ?thesis using k by (simp add: DB_page_def scast_small)
  qed
  have disj: "region (DB_page d k) ?s \<inter> region (DB_page d l) ?s = {}"
    if kl: "unat k < unat l" and l: "unat l * ?s < 2 ^ 31" for k l
  proof -
    have "Suc (unat k) * ?s \<le> unat l * ?s" using kl by (intro mult_le_mono1) simp
    then have le: "unat k * ?s + ?s \<le> unat l * ?s" by simp
    then have k: "unat k * ?s < 2 ^ 31" using l by linarith
    have "?s \<le> unat l * ?s" using le by linarith
    then show ?thesis
      unfolding addr [OF k] addr [OF l] using le l by (intro region_disjoint_offsets) auto
  qed
  have "region (DB_page d i) ?s \<inter> region (DB_page d j) ?s = {}" if "i \<noteq> j"
  proof (cases "unat i < unat j")
    case True
    then show ?thesis using disj assms(3) by blast
  next
    case False
    with that have "unat j < unat i" by (simp add: word_unat_eq_iff)
    then show ?thesis using disj assms(2) by (metis Int_commute)
  qed
  with addr assms(2) show ?thesis by blast
qed

theorem DB_page_layout_witness:
  "\<exists>d :: DB. db_pageSize d = 4096 \<and> DB_page d 3 = db_data d + 12288 \<and>
     region (DB_page d 3) 4096 \<inter> region (DB_page d 2) 4096 = {}"
proof -
  define d :: DB where "d = undefined\<lparr>db_pageSize := 4096\<rparr>"
  have s: "db_pageSize d = 4096" by (simp add: d_def)
  have "DB_page d 3 = db_data d + 12288 \<and> region (DB_page d 3) 4096 \<inter> region (DB_page d 2) 4096 = {}"
    using DB_page_layout [of d 3 2] s by auto
  with s show ?thesis by blast
qed

lemma ucast_add_wrap: "(ucast (x + 0x100000000 :: u64) :: u32) = ucast x"
  by (simp add: word_unat_eq_iff unsigned_ucast_eq take_bit_eq_mod unat_word_ariths mod_mod_cancel)

text \<open>
  Beyond \<open>2^31\<close> bytes the 32-bit \<^verbatim>\<open>pos\<close> of \<^verbatim>\<open>DB::page\<close> wraps: with 4096-byte pages, page
  \<open>i + 2^20\<close> has the address of page \<open>i\<close>, and page \<open>2^19\<close> lies below the start of the map.
\<close>

theorem DB_page_wraps:
  "DB_page (d\<lparr>db_pageSize := 4096\<rparr>) (i + 0x100000) = DB_page (d\<lparr>db_pageSize := 4096\<rparr>) i \<and>
   DB_page (d\<lparr>db_pageSize := 4096\<rparr>) 0x80000 = db_data d - 0x80000000"
proof -
  have "(i + 0x100000) * 4096 = i * 4096 + (0x100000000 :: u64)" by (simp add: distrib_right)
  then show ?thesis by (simp add: DB_page_def ucast_add_wrap)
qed

end
