(* ===== verification/Node.thy ===== *)
theory Node
  imports Bucket
begin

text \<open>
  \<^verbatim>\<open>node.h\<close> and \<^verbatim>\<open>node.cpp\<close>: the in-memory form of a page, a vector of inodes ordered by key. Its
  operations search the vector with \<^verbatim>\<open>std::lower_bound\<close>; \<^verbatim>\<open>write\<close> lays the node out on a page and
  \<^verbatim>\<open>read\<close> takes it back. Abstractly a node is a finite map from byte strings to entries; the
  locale \<open>kv_store\<close> states that contract and is interpreted on the vector operations.
\<close>

unbundle bit_operations_syntax

section \<open>Comparison operators\<close>

definition INode_less :: "mem \<Rightarrow> INode \<Rightarrow> INode \<Rightarrow> bool" where
  "INode_less m lhs rhs = Slice_less m (in_key lhs) (in_key rhs)"

definition INode_less_key :: "mem \<Rightarrow> INode \<Rightarrow> Slice \<Rightarrow> bool" where
  "INode_less_key m n key = Slice_less m (in_key n) key"

definition INode_eq_key :: "mem \<Rightarrow> INode \<Rightarrow> Slice \<Rightarrow> bool" where
  "INode_eq_key m n key = Slice_eq m (in_key n) key"

text \<open>The overload for a C string converts it to a slice first.\<close>

definition INode_eq_cstr :: "mem \<Rightarrow> INode \<Rightarrow> addr \<Rightarrow> bool option" where
  "INode_eq_cstr m n key = map_option (Slice_eq m (in_key n)) (Slice_cstr m key)"

abbreviation ikey :: "mem \<Rightarrow> INode \<Rightarrow> u8 list" where
  "ikey m i \<equiv> slice_bytes m (in_key i)"

interpretation inode: keyed_range "ikey m" "slice_bytes m" "INode_less_key m" "INode_eq_key m" for m
  by unfold_locales (simp_all add: INode_less_key_def INode_eq_key_def Slice_less_iff Slice_eq_iff)

section \<open>Structure\<close>

text \<open>The constructor; \<open>raw\<close> is the uninitialised object (\<^verbatim>\<open>unbalanced_\<close>, \<^verbatim>\<open>spilled_\<close> and \<^verbatim>\<open>id_\<close> keep its values).\<close>

definition Node_ctor :: "Node \<Rightarrow> addr \<Rightarrow> bool \<Rightarrow> addr \<Rightarrow> Node" where
  "Node_ctor raw bucket isLeaf parent =
     raw\<lparr>n_bucket := bucket, n_isLeaf := isLeaf, n_key := Slice_default, n_parent := parent,
         n_children := [], n_inodes := []\<rparr>"

definition Node_less :: "mem \<Rightarrow> Node \<Rightarrow> Node \<Rightarrow> bool" where
  "Node_less m lhs rhs = Slice_less m (n_key lhs) (n_key rhs)"

definition Node_key :: "Node \<Rightarrow> Slice" where "Node_key n = n_key n"
definition Node_spilled :: "Node \<Rightarrow> bool" where "Node_spilled n = n_spilled n"
definition Node_isLeaf :: "Node \<Rightarrow> bool" where "Node_isLeaf n = n_isLeaf n"
definition Node_unbalanced :: "Node \<Rightarrow> bool" where "Node_unbalanced n = n_unbalanced n"
definition Node_id :: "Node \<Rightarrow> pgid_t" where "Node_id n = n_id n"

text \<open>\<^verbatim>\<open>root\<close> follows parent pointers; on a cyclic parent chain it does not return.\<close>

partial_function (option) Node_root :: "world \<Rightarrow> addr \<Rightarrow> addr res option" where
  "Node_root w this =
     (case get_node w this of
        Inl e \<Rightarrow> Some (Inl e)
      | Inr n \<Rightarrow> if n_parent n = nullptr then Some (Inr this) else Node_root w (n_parent n))"

definition Node_pageElementSize :: "Node \<Rightarrow> nat" where
  "Node_pageElementSize n = (if n_isLeaf n then leafPageElementSize else branchPageElementSize)"

text \<open>The loop of \<^verbatim>\<open>size\<close>: sums in \<^verbatim>\<open>size_t\<close>, stored back into a 32-bit \<^verbatim>\<open>int\<close>.\<close>

fun size_loop :: "u64 \<Rightarrow> u32 \<Rightarrow> INode list \<Rightarrow> u32" where
  "size_loop elsz sz [] = sz"
| "size_loop elsz sz (i # is) =
     size_loop elsz (sz + ucast (elsz + s_size (in_key i) + s_size (in_value i))) is"

definition Node_size :: "Node \<Rightarrow> int" where
  "Node_size n =
     int_of_u32 (size_loop (of_nat (Node_pageElementSize n)) (of_nat pageHeaderSize) (n_inodes n))"

definition Node_sizeLessThan :: "Node \<Rightarrow> int \<Rightarrow> bool" where
  "Node_sizeLessThan n v \<longleftrightarrow> Node_size n < v"

definition Node_numChildren :: "Node \<Rightarrow> int" where
  "Node_numChildren n = int_of_size (length (n_inodes n))"

definition Node_childAt :: "world \<Rightarrow> Node \<Rightarrow> addr \<Rightarrow> int \<Rightarrow> addr res" where
  "Node_childAt w n this index =
     (if n_isLeaf n then Inl (Exit 1)
      else bindE (get_bucket w (n_bucket n)) (\<lambda>b.
           bindE (vec_at (n_inodes n) index) (\<lambda>i. Inr (Bucket_node b (in_id i) this))))"

definition Node_childIndex :: "mem \<Rightarrow> Node \<Rightarrow> Node \<Rightarrow> int" where
  "Node_childIndex m n child =
     (let first = lower_bound (\<lambda>i. INode_less_key m (n_inodes n ! i) (n_key child)) (length (n_inodes n))
      in if first = length (n_inodes n) then -1
         else if INode_eq_key m (n_inodes n ! first) (n_key child) then int_of_size first
         else -1)"

definition Node_nextSibling :: "world \<Rightarrow> Node \<Rightarrow> addr res" where
  "Node_nextSibling w n =
     (if n_parent n = nullptr then Inr nullptr
      else bindE (get_node w (n_parent n)) (\<lambda>par.
        let index = Node_childIndex (w_mem w) par n
        in if index < 0 \<or> index \<ge> Node_numChildren par - 1 then Inr nullptr
           else Node_childAt w par (n_parent n) (index + 1)))"

definition Node_prevSibling :: "world \<Rightarrow> Node \<Rightarrow> addr res" where
  "Node_prevSibling w n =
     (if n_parent n = nullptr then Inr nullptr
      else bindE (get_node w (n_parent n)) (\<lambda>par.
        let index = Node_childIndex (w_mem w) par n
        in if index \<le> 0 then Inr nullptr
           else Node_childAt w par (n_parent n) (index - 1)))"

section \<open>Lookup, insertion and deletion\<close>

text \<open>The search shared by the three operations: the position and whether the key is there.\<close>

definition find_key :: "mem \<Rightarrow> Node \<Rightarrow> Slice \<Rightarrow> nat \<times> bool" where
  "find_key m n key =
     (let first = lower_bound (\<lambda>i. INode_less_key m (n_inodes n ! i) key) (length (n_inodes n));
          exact = Node_numChildren n > 0 \<and> first \<noteq> length (n_inodes n)
                  \<and> INode_eq_key m (n_inodes n ! first) key
      in (first, exact))"

text \<open>\<^verbatim>\<open>get\<close>: the return code and the new contents of \<^verbatim>\<open>*value\<close>; \<open>None\<close> is a null pointer.\<close>

definition Node_get :: "mem \<Rightarrow> Node \<Rightarrow> Slice \<Rightarrow> u8 list option \<Rightarrow> (int \<times> u8 list) res" where
  "Node_get m n key val =
     (case val of
        None \<Rightarrow> Inl (Exit 1)
      | Some old \<Rightarrow>
          (case find_key m n key of (first, exact) \<Rightarrow>
             if \<not> exact then Inr (-1, old)
             else Inr (0, slice_bytes m (in_value (n_inodes n ! first)))))"

text \<open>\<^verbatim>\<open>INode()\<close>, the value-initialised inode that \<^verbatim>\<open>put\<close> inserts before it assigns the members.\<close>

definition INode_zero :: INode where
  "INode_zero = \<lparr>in_flags = 0, in_id = 0, in_key = Slice_default, in_value = Slice_default\<rparr>"

definition insert_at :: "nat \<Rightarrow> 'a \<Rightarrow> 'a list \<Rightarrow> 'a list" where
  "insert_at i x xs = take i xs @ x # drop i xs"

definition put_inodes ::
  "mem \<Rightarrow> Node \<Rightarrow> Slice \<Rightarrow> Slice \<Rightarrow> Slice \<Rightarrow> pgid_t \<Rightarrow> u32 \<Rightarrow> INode list \<times> nat" where
  "put_inodes m n oldKey newKey val pid flags =
     (case find_key m n oldKey of (index, exact) \<Rightarrow>
        let inodes = (if exact then n_inodes n else insert_at index INode_zero (n_inodes n));
            inode = (inodes ! index)\<lparr>in_flags := flags, in_key := newKey, in_value := val, in_id := pid\<rparr>
        in (inodes[index := inode], index))"

definition Node_put ::
  "world \<Rightarrow> Node \<Rightarrow> Slice \<Rightarrow> Slice \<Rightarrow> Slice \<Rightarrow> pgid_t \<Rightarrow> u32 \<Rightarrow> Node res" where
  "Node_put w n oldKey newKey val pid flags =
     bindE (get_bucket w (n_bucket n)) (\<lambda>b.
     bindE (get_tx w (Bucket_tx b)) (\<lambda>t.
       if tx_meta t = nullptr then Inl (Exit 1)
       else if pid \<ge> Meta_pgid (w_mem w) (tx_meta t) then Inl (Exit 1)
       else if s_size oldKey \<le> 0 then Inl (Exit 1)
       else if s_size newKey \<le> 0 then Inl (Exit 1)
       else case put_inodes (w_mem w) n oldKey newKey val pid flags of (inodes, index) \<Rightarrow>
              if s_size (in_key (inodes ! index)) \<le> 0 then Inl (Exit (-1))
              else Inr (n\<lparr>n_inodes := inodes\<rparr>)))"

definition erase_at :: "nat \<Rightarrow> 'a list \<Rightarrow> 'a list" where
  "erase_at i xs = take i xs @ drop (Suc i) xs"

definition Node_del :: "mem \<Rightarrow> Node \<Rightarrow> Slice \<Rightarrow> Node res" where
  "Node_del m n key =
     (if s_size key \<le> 0 then Inl (Exit 1)
      else case find_key m n key of (first, exact) \<Rightarrow>
             if \<not> exact then Inr n
             else Inr (n\<lparr>n_inodes := erase_at first (n_inodes n), n_unbalanced := True\<rparr>))"

section \<open>Serialisation\<close>

text \<open>
  The header part of one iteration of the loop in \<^verbatim>\<open>write\<close>, for a leaf and for a branch element;
  \<open>b\<close> is where the key and value bytes will go.
\<close>

definition write_leaf_elem :: "mem \<Rightarrow> addr \<Rightarrow> nat \<Rightarrow> addr \<Rightarrow> INode \<Rightarrow> mem res" where
  "write_leaf_elem m p i b n =
     (let elem = Page_leafPageElement m p (of_nat i);
          m1 = store_u32 m elem (in_flags n);
          m2 = store_u32 m1 (elem + 8) (ucast (s_size (in_key n)));
          m3 = store_u32 m2 (elem + 12) (ucast (s_size (in_value n)))
      in Inr (store_u32 m3 (elem + 4) (ucast (b - elem))))"

definition write_branch_elem :: "mem \<Rightarrow> addr \<Rightarrow> nat \<Rightarrow> addr \<Rightarrow> INode \<Rightarrow> mem res" where
  "write_branch_elem m p i b n =
     (let elem = Page_branchPageElement m p (of_nat i);
          m1 = store_u32 m (elem + 4) (ucast (s_size (in_key n)));
          m2 = store_u64 m1 (elem + 8) (in_id n);
          m3 = store_u32 m2 elem (ucast (b - elem))
      in if load_u64 m3 (elem + 8) \<noteq> Page_id m3 p then Inl (Exit 1) else Inr m3)"

text \<open>The two \<^verbatim>\<open>memcpy\<close> calls at the end of an iteration.\<close>

definition copy_kv :: "mem \<Rightarrow> addr \<Rightarrow> INode \<Rightarrow> mem" where
  "copy_kv m b n =
     (let m1 = write_bytes m b (slice_bytes m (in_key n))
      in write_bytes m1 (b + s_size (in_key n)) (slice_bytes m1 (in_value n)))"

fun write_loop :: "mem \<Rightarrow> addr \<Rightarrow> bool \<Rightarrow> nat \<Rightarrow> addr \<Rightarrow> INode list \<Rightarrow> mem res" where
  "write_loop m p leaf i b [] = Inr m"
| "write_loop m p leaf i b (n # ns) =
     bindE (if leaf then write_leaf_elem m p i b n else write_branch_elem m p i b n) (\<lambda>m1.
       write_loop (copy_kv m1 b n) p leaf (Suc i) (b + s_size (in_key n) + s_size (in_value n)) ns)"

definition Node_write :: "mem \<Rightarrow> Node \<Rightarrow> addr \<Rightarrow> mem res" where
  "Node_write m n p =
     (let m1 = Page_setFlags m p (if n_isLeaf n then LeafPageFlag else BranchPageFlag)
      in if length (n_inodes n) > 0xffff then Inl (Exit 1)
         else
           let m2 = Page_unsetOverflow m1 p;
               m3 = Page_setCount m2 p (of_nat (length (n_inodes n)))
           in if Page_count m3 p = 0 then Inr m3
              else write_loop m3 p (n_isLeaf n) 0
                     (Page_ptr m3 p + of_nat (length (n_inodes n) * Node_pageElementSize n))
                     (n_inodes n))"

text \<open>
  One iteration of the loop in \<^verbatim>\<open>read\<close>. \<open>junk\<close> is the indeterminate value of the local \<^verbatim>\<open>INode\<close>,
  whose slices are default-constructed. On a branch page the assignments go to a second variable
  of the same name in an inner scope, so the pushed inode is the outer one.
\<close>

definition read_inode :: "mem \<Rightarrow> addr \<Rightarrow> bool \<Rightarrow> INode \<Rightarrow> nat \<Rightarrow> INode" where
  "read_inode m p leaf junk i =
     (let inode = junk\<lparr>in_key := Slice_default, in_value := Slice_default\<rparr>
      in if leaf
         then let elem = Page_leafPageElement m p (of_nat i)
              in inode\<lparr>in_flags := le_flags (load_leaf m elem),
                       in_key := LeafPageElement_key m elem,
                       in_value := LeafPageElement_value m elem\<rparr>
         else inode)"

fun read_loop :: "mem \<Rightarrow> addr \<Rightarrow> bool \<Rightarrow> (nat \<Rightarrow> INode) \<Rightarrow> nat \<Rightarrow> nat \<Rightarrow> INode list \<Rightarrow> INode list res" where
  "read_loop m p leaf junk i 0 acc = Inr acc"
| "read_loop m p leaf junk i (Suc k) acc =
     (let inode = read_inode m p leaf (junk i) i
      in if s_size (in_key inode) \<le> 0 then Inl (Exit 1)
         else read_loop m p leaf junk (Suc i) k (acc @ [inode]))"

definition Node_read :: "mem \<Rightarrow> (nat \<Rightarrow> INode) \<Rightarrow> Node \<Rightarrow> addr \<Rightarrow> Node res" where
  "Node_read m junk n p =
     (let leaf = (Page_flags m p AND LeafPageFlag \<noteq> 0)
      in bindE (read_loop m p leaf junk 0 (unat (Page_count m p)) []) (\<lambda>inodes.
           let n1 = n\<lparr>n_id := Page_id m p, n_isLeaf := leaf, n_inodes := inodes\<rparr>
           in if length inodes > 0
              then if s_size (in_key (inodes ! 0)) > 0 then Inr (n1\<lparr>n_key := in_key (inodes ! 0)\<rparr>)
                   else Inl AssertFail
              else Inr n1))"

section \<open>A node as a finite map\<close>

type_synonym entry = "u8 list \<times> pgid_t \<times> u32"

definition entry_of :: "mem \<Rightarrow> INode \<Rightarrow> entry" where
  "entry_of m i = (slice_bytes m (in_value i), in_id i, in_flags i)"

definition inodes_map :: "mem \<Rightarrow> INode list \<Rightarrow> u8 list \<rightharpoonup> entry" where
  "inodes_map m is = map_of (map (\<lambda>i. (ikey m i, entry_of m i)) is)"

text \<open>The invariant of the vector: strictly ascending keys.\<close>

definition inodes_sorted :: "mem \<Rightarrow> INode list \<Rightarrow> bool" where
  "inodes_sorted m is \<longleftrightarrow> sorted_wrt (<) (map (ikey m) is)"

definition node_map :: "mem \<Rightarrow> Node \<Rightarrow> u8 list \<rightharpoonup> entry" where
  "node_map m n = inodes_map m (n_inodes n)"

definition node_sorted :: "mem \<Rightarrow> Node \<Rightarrow> bool" where
  "node_sorted m n \<longleftrightarrow> inodes_sorted m (n_inodes n)"

text \<open>The search splits the vector at the key.\<close>

lemma find_key_split:
  assumes "node_sorted m n" and "length (n_inodes n) < 2 ^ 31" and "find_key m n key = (p, ex)"
  shows "p \<le> length (n_inodes n)"
    and "\<forall>i \<in> set (take p (n_inodes n)). ikey m i < slice_bytes m key"
    and "ex \<Longrightarrow> n_inodes n = take p (n_inodes n) @ (n_inodes n ! p) # drop (Suc p) (n_inodes n)
           \<and> ikey m (n_inodes n ! p) = slice_bytes m key
           \<and> (\<forall>i \<in> set (drop (Suc p) (n_inodes n)). slice_bytes m key < ikey m i)"
    and "\<not> ex \<Longrightarrow> \<forall>i \<in> set (drop p (n_inodes n)). slice_bytes m key < ikey m i"
    and "ex \<longleftrightarrow> slice_bytes m key \<in> ikey m ` set (n_inodes n)"
proof -
  let ?xs = "n_inodes n" and ?k = "slice_bytes m key"
  have srt: "sorted_wrt (<) (map (ikey m) ?xs)"
    using assms(1) by (simp add: node_sorted_def inodes_sorted_def)
  then have srt': "sorted (map (ikey m) ?xs)" by (simp add: strict_sorted_iff)
  have p: "p = lower_bound (\<lambda>i. INode_less_key m (?xs ! i) key) (length ?xs)"
    using assms(3) by (simp add: find_key_def Let_def)
  show le: "p \<le> length ?xs" unfolding p by (rule lower_bound_le)
  show "\<forall>i \<in> set (take p ?xs). ikey m i < ?k" by (rule inode.search_split(1) [OF srt' p])
  have ge: "\<forall>i \<in> set (drop p ?xs). ?k \<le> ikey m i" by (rule inode.search_split(2) [OF srt' p])
  have ex: "ex \<longleftrightarrow> p < length ?xs \<and> INode_eq_key m (?xs ! p) key"
    using assms(2,3) le p by (auto simp: find_key_def Let_def Node_numChildren_def int_of_size_small)
  then show exk: "ex \<longleftrightarrow> ?k \<in> ikey m ` set ?xs"
    using inode.search_exact [OF srt p] by simp
  show "\<forall>i \<in> set (drop p ?xs). ?k < ikey m i" if "\<not> ex"
    using that ge exk by (metis image_eqI in_set_dropD order_le_neq_trans)
  assume ex
  then have lt: "p < length ?xs" and eq: "ikey m (?xs ! p) = ?k"
    using ex by (simp_all add: inode.elt_eq_iff)
  have split: "?xs = take p ?xs @ (?xs ! p) # drop (Suc p) ?xs" by (rule id_take_nth_drop [OF lt])
  then have "sorted_wrt (<) (map (ikey m) (take p ?xs @ (?xs ! p) # drop (Suc p) ?xs))"
    using srt by simp
  then have "\<forall>i \<in> set (drop (Suc p) ?xs). ikey m (?xs ! p) < ikey m i"
    by (simp add: sorted_wrt_append)
  with split eq show "?xs = take p ?xs @ (?xs ! p) # drop (Suc p) ?xs \<and> ikey m (?xs ! p) = ?k
      \<and> (\<forall>i \<in> set (drop (Suc p) ?xs). ?k < ikey m i)"
    by simp
qed

lemma inodes_sorted_mid:
  "inodes_sorted m (as @ e # bs) \<longleftrightarrow> inodes_sorted m as \<and> inodes_sorted m bs
     \<and> (\<forall>i \<in> set as. ikey m i < ikey m e) \<and> (\<forall>i \<in> set bs. ikey m e < ikey m i)"
  by (auto simp: inodes_sorted_def sorted_wrt_append) (meson less_trans)

lemma inodes_sorted_join:
  "inodes_sorted m (as @ bs) \<longleftrightarrow> inodes_sorted m as \<and> inodes_sorted m bs
     \<and> (\<forall>i \<in> set as. \<forall>j \<in> set bs. ikey m i < ikey m j)"
  by (auto simp: inodes_sorted_def sorted_wrt_append)

lemma inodes_map_mid:
  assumes "\<forall>i \<in> set as. ikey m i < ikey m e"
  shows "inodes_map m (as @ e # bs) = (inodes_map m (as @ bs))(ikey m e \<mapsto> entry_of m e)"
proof -
  have "ikey m e \<notin> ikey m ` set as" using assms by auto
  then have "map_of (map (\<lambda>i. (ikey m i, entry_of m i)) as) (ikey m e) = None"
    by (simp add: map_of_eq_None_iff image_image)
  then show ?thesis
    by (auto simp: inodes_map_def map_add_def fun_eq_iff split: option.splits)
qed

lemma inodes_map_None:
  "(\<And>i. i \<in> set is \<Longrightarrow> ikey m i \<noteq> k) \<Longrightarrow> inodes_map m is k = None"
  by (auto simp: inodes_map_def map_of_eq_None_iff image_image)

lemma find_key_lookup:
  assumes "node_sorted m n" and "length (n_inodes n) < 2 ^ 31" and "find_key m n key = (p, ex)"
  shows "node_map m n (slice_bytes m key) = (if ex then Some (entry_of m (n_inodes n ! p)) else None)"
proof (cases ex)
  case True
  note sp = find_key_split [OF assms]
  from sp(3) [OF True] obtain as bs e where
    n: "n_inodes n = as @ e # bs" and e: "e = n_inodes n ! p" and k: "ikey m e = slice_bytes m key"
    and as: "as = take p (n_inodes n)" by metis
  have "\<forall>i \<in> set as. ikey m i < ikey m e" using sp(2) by (simp add: as k)
  then have "node_map m n (slice_bytes m key) = Some (entry_of m e)"
    unfolding node_map_def n using k by (simp add: inodes_map_mid)
  with True e show ?thesis by simp
next
  case False
  then have "slice_bytes m key \<notin> ikey m ` set (n_inodes n)"
    using find_key_split(5) [OF assms] by simp
  then have "node_map m n (slice_bytes m key) = None"
    unfolding node_map_def by (intro inodes_map_None) (metis image_eqI)
  with False show ?thesis by simp
qed

lemma find_key_bound:
  assumes "find_key m n key = (p, ex)"
  shows "p \<le> length (n_inodes n)" and "ex \<Longrightarrow> p < length (n_inodes n)"
proof -
  have p: "p = lower_bound (\<lambda>i. INode_less_key m (n_inodes n ! i) key) (length (n_inodes n))"
    using assms by (simp add: find_key_def Let_def)
  show le: "p \<le> length (n_inodes n)" unfolding p by (rule lower_bound_le)
  show "p < length (n_inodes n)" if ex
    using that assms le by (auto simp: find_key_def Let_def)
qed

text \<open>The vector \<^verbatim>\<open>put\<close> leaves: the new inode between the part before the position and the rest.\<close>

lemma put_inodes_shape:
  assumes "find_key m n oldKey = (p, ex)"
  shows "put_inodes m n oldKey newKey val pid flags =
    (take p (n_inodes n) @ \<lparr>in_flags = flags, in_id = pid, in_key = newKey, in_value = val\<rparr>
       # drop (if ex then Suc p else p) (n_inodes n), p)"
proof -
  have upd: "i\<lparr>in_flags := flags, in_key := newKey, in_value := val, in_id := pid\<rparr>
      = \<lparr>in_flags = flags, in_id = pid, in_key = newKey, in_value = val\<rparr>" for i :: INode
    by simp
  have len: "length (take p (n_inodes n)) = p" using find_key_bound(1) [OF assms] by simp
  have "(if ex then n_inodes n else insert_at p INode_zero (n_inodes n))
      = take p (n_inodes n) @ (if ex then n_inodes n ! p else INode_zero)
          # drop (if ex then Suc p else p) (n_inodes n)"
    using id_take_nth_drop find_key_bound(2) [OF assms] by (auto simp: insert_at_def)
  then show ?thesis
    unfolding put_inodes_def assms Let_def prod.case upd
    using len by (simp only: list_update_append less_irrefl if_False diff_self_eq_0 list_update_code)
qed

lemma put_inodes_key:
  assumes "put_inodes m n oldKey newKey val pid flags = (inodes, index)"
  shows "index < length inodes \<and> in_key (inodes ! index) = newKey"
proof -
  obtain p ex where f: "find_key m n oldKey = (p, ex)" by (cases "find_key m n oldKey")
  with find_key_bound(1) [OF f] assms show ?thesis
    by (auto simp: put_inodes_shape [OF f] nth_append)
qed

text \<open>
  A new key fits into a map in place of an old one when it has the same keys below and above it. The
  old key itself always fits.
\<close>

definition key_fits :: "'k::linorder \<Rightarrow> 'k \<Rightarrow> ('k \<rightharpoonup> 'w) \<Rightarrow> bool" where
  "key_fits old new f \<longleftrightarrow> (\<forall>k \<in> dom f. (k < old \<longrightarrow> k < new) \<and> (old < k \<longrightarrow> new < k))"

lemma key_fits_same [simp]: "key_fits k k f"
  by (simp add: key_fits_def)

lemma node_map_dom: "dom (node_map m n) = ikey m ` set (n_inodes n)"
  by (auto simp: node_map_def inodes_map_def dom_map_of_conv_image_fst image_image)

lemma put_inodes_correct:
  assumes "node_sorted m n" and "length (n_inodes n) < 2 ^ 31"
    and fit: "key_fits (slice_bytes m oldKey) (slice_bytes m newKey) (node_map m n)"
    and "put_inodes m n oldKey newKey val pid flags = (inodes, index)"
  shows "inodes_sorted m inodes"
    and "inodes_map m inodes = (node_map m n)(slice_bytes m oldKey := None, slice_bytes m newKey \<mapsto> (slice_bytes m val, pid, flags))"
    and "length inodes = length (n_inodes n) + (if node_map m n (slice_bytes m oldKey) = None then 1 else 0)"
proof -
  obtain p ex where f: "find_key m n oldKey = (p, ex)" by (cases "find_key m n oldKey")
  note sp = find_key_split [OF assms(1,2) f]
  define e where "e = \<lparr>in_flags = flags, in_id = pid, in_key = newKey, in_value = val\<rparr>"
  define as where "as = take p (n_inodes n)"
  define bs where "bs = drop (if ex then Suc p else p) (n_inodes n)"
  let ?old = "slice_bytes m oldKey"
  have new: "inodes = as @ e # bs"
    using assms(4) by (auto simp: put_inodes_shape [OF f] as_def bs_def e_def)
  have k: "ikey m e = slice_bytes m newKey" by (simp add: e_def)
  have lo0: "\<forall>i \<in> set as. ikey m i < ?old" using sp(2) by (simp add: as_def)
  have hi0: "\<forall>i \<in> set bs. ?old < ikey m i" using sp(3,4) by (cases ex) (simp_all add: bs_def)
  have sub: "set as \<subseteq> set (n_inodes n)" "set bs \<subseteq> set (n_inodes n)"
    unfolding as_def bs_def by (rule set_take_subset, rule set_drop_subset)
  have lo: "\<forall>i \<in> set as. ikey m i < ikey m e" and hi: "\<forall>i \<in> set bs. ikey m e < ikey m i"
    using lo0 hi0 sub fit unfolding key_fits_def node_map_dom k by blast+
  have old: "n_inodes n = (if ex then as @ (n_inodes n ! p) # bs else as @ bs)"
    using sp(3) by (auto simp: as_def bs_def)
  have srt: "inodes_sorted m as" "inodes_sorted m bs"
    using assms(1) unfolding node_sorted_def
    by (auto simp: as_def bs_def inodes_sorted_def drop_map [symmetric] take_map [symmetric] sorted_wrt_take sorted_wrt_drop)
  show "inodes_sorted m inodes" using srt lo hi by (simp add: new inodes_sorted_mid)
  have none: "inodes_map m (as @ bs) ?old = None" using lo0 hi0 by (intro inodes_map_None) auto
  have "inodes_map m (as @ bs) = (node_map m n)(?old := None)"
  proof (cases ex)
    case True
    have x: "ikey m (n_inodes n ! p) = ?old" using True sp(3) by blast
    then have lo': "\<forall>i \<in> set as. ikey m i < ikey m (n_inodes n ! p)" using lo0 by simp
    have "node_map m n = inodes_map m (as @ (n_inodes n ! p) # bs)"
      unfolding node_map_def using True old by metis
    also have "\<dots> = (inodes_map m (as @ bs))(?old \<mapsto> entry_of m (n_inodes n ! p))"
      using lo' x by (simp add: inodes_map_mid)
    finally show ?thesis using none by auto
  next
    case False
    then have "node_map m n = inodes_map m (as @ bs)" unfolding node_map_def using old by metis
    then show ?thesis using none by auto
  qed
  then show "inodes_map m inodes = (node_map m n)(?old := None, slice_bytes m newKey \<mapsto> (slice_bytes m val, pid, flags))"
    using lo k by (simp add: new inodes_map_mid entry_of_def e_def)
  show "length inodes = length (n_inodes n) + (if node_map m n ?old = None then 1 else 0)"
    using find_key_lookup [OF assms(1,2) f] arg_cong [OF old, of length]
    by (auto simp: new split: if_splits)
qed

text \<open>The vector part of \<^verbatim>\<open>del\<close>.\<close>

definition del_node :: "mem \<Rightarrow> Slice \<Rightarrow> Node \<Rightarrow> Node" where
  "del_node m key n =
     (case find_key m n key of (first, exact) \<Rightarrow>
        if \<not> exact then n else n\<lparr>n_inodes := erase_at first (n_inodes n), n_unbalanced := True\<rparr>)"

text \<open>The vector part of \<^verbatim>\<open>put\<close>.\<close>

definition put_node :: "mem \<Rightarrow> Slice \<Rightarrow> Slice \<Rightarrow> Slice \<times> pgid_t \<times> u32 \<Rightarrow> Node \<Rightarrow> Node" where
  "put_node m oldKey newKey v n =
     (case v of (val, pid, flags) \<Rightarrow> n\<lparr>n_inodes := fst (put_inodes m n oldKey newKey val pid flags)\<rparr>)"

lemma del_node_correct:
  assumes "node_sorted m n" and "length (n_inodes n) < 2 ^ 31"
  shows "node_sorted m (del_node m key n)"
    and "node_map m (del_node m key n) = (node_map m n)(slice_bytes m key := None)"
    and "length (n_inodes (del_node m key n)) \<le> length (n_inodes n)"
    and "n_unbalanced (del_node m key n) \<longleftrightarrow> n_unbalanced n \<or> node_map m n (slice_bytes m key) \<noteq> None"
proof -
  obtain p ex where f: "find_key m n key = (p, ex)" by (cases "find_key m n key")
  note sp = find_key_split [OF assms f] and lk = find_key_lookup [OF assms f]
  define as where "as = take p (n_inodes n)"
  define bs where "bs = drop (Suc p) (n_inodes n)"
  have "node_sorted m (del_node m key n) \<and>
      node_map m (del_node m key n) = (node_map m n)(slice_bytes m key := None) \<and>
      length (n_inodes (del_node m key n)) \<le> length (n_inodes n) \<and>
      (n_unbalanced (del_node m key n) \<longleftrightarrow> n_unbalanced n \<or> node_map m n (slice_bytes m key) \<noteq> None)"
  proof (cases ex)
    case True
    obtain e where n: "n_inodes n = as @ e # bs" and k: "ikey m e = slice_bytes m key"
      and hi: "\<forall>i \<in> set bs. ikey m e < ikey m i"
      using sp(3) [OF True] unfolding as_def bs_def by metis
    have lo: "\<forall>i \<in> set as. ikey m i < ikey m e" using sp(2) by (simp add: as_def k)
    have d: "del_node m key n = n\<lparr>n_inodes := as @ bs, n_unbalanced := True\<rparr>"
      using True by (simp add: del_node_def f erase_at_def as_def bs_def)
    have "inodes_map m (as @ bs) (slice_bytes m key) = None"
      using lo hi k by (intro inodes_map_None) auto
    then have "inodes_map m (as @ bs) = (node_map m n)(slice_bytes m key := None)"
      using lo k by (auto simp: node_map_def n inodes_map_mid)
    moreover have "inodes_sorted m (as @ bs)"
    proof -
      have "inodes_sorted m as" and "inodes_sorted m bs"
        using assms(1) by (simp_all add: node_sorted_def n inodes_sorted_mid)
      with lo hi show ?thesis by (auto simp: inodes_sorted_join intro: less_trans)
    qed
    ultimately show ?thesis using True lk by (simp add: d n node_map_def node_sorted_def)
  next
    case False
    then have "del_node m key n = n" by (simp add: del_node_def f)
    moreover have "(node_map m n)(slice_bytes m key := None) = node_map m n"
      using False lk by auto
    ultimately show ?thesis using assms(1) False lk by simp
  qed
  then show "node_sorted m (del_node m key n)"
    and "node_map m (del_node m key n) = (node_map m n)(slice_bytes m key := None)"
    and "length (n_inodes (del_node m key n)) \<le> length (n_inodes n)"
    and "n_unbalanced (del_node m key n) \<longleftrightarrow> n_unbalanced n \<or> node_map m n (slice_bytes m key) \<noteq> None"
    by blast+
qed

lemma put_node_correct:
  assumes "node_sorted m n" and "length (n_inodes n) < 2 ^ 31"
    and "key_fits (slice_bytes m oldKey) (slice_bytes m newKey) (node_map m n)"
  shows "node_sorted m (put_node m oldKey newKey (val, pid, flags) n)"
    and "node_map m (put_node m oldKey newKey (val, pid, flags) n)
           = (node_map m n)(slice_bytes m oldKey := None, slice_bytes m newKey \<mapsto> (slice_bytes m val, pid, flags))"
    and "length (n_inodes (put_node m oldKey newKey (val, pid, flags) n)) \<le> Suc (length (n_inodes n))"
proof -
  obtain xs ix where p: "put_inodes m n oldKey newKey val pid flags = (xs, ix)"
    by (cases "put_inodes m n oldKey newKey val pid flags")
  from put_inodes_correct [OF assms p] show
    "node_sorted m (put_node m oldKey newKey (val, pid, flags) n)"
    "node_map m (put_node m oldKey newKey (val, pid, flags) n)
       = (node_map m n)(slice_bytes m oldKey := None, slice_bytes m newKey \<mapsto> (slice_bytes m val, pid, flags))"
    "length (n_inodes (put_node m oldKey newKey (val, pid, flags) n)) \<le> Suc (length (n_inodes n))"
    by (auto simp: put_node_def p node_sorted_def node_map_def)
qed

section \<open>The map contract\<close>

text \<open>
  \<open>Put old new v\<close> binds \<open>new\<close> to \<open>v\<close> in place of whatever \<open>old\<close> was bound to; with \<open>old = new\<close> it is
  the usual update.
\<close>

datatype ('a, 'v) kv_op = Put 'a 'a 'v | Del 'a

definition kv_apply :: "('a \<Rightarrow> 'a \<Rightarrow> 'v \<Rightarrow> 's \<Rightarrow> 's) \<Rightarrow> ('a \<Rightarrow> 's \<Rightarrow> 's) \<Rightarrow> ('a, 'v) kv_op \<Rightarrow> 's \<Rightarrow> 's" where
  "kv_apply upd del op s = (case op of Put a b v \<Rightarrow> upd a b v s | Del a \<Rightarrow> del a s)"

definition kv_spec :: "('a \<Rightarrow> 'k) \<Rightarrow> ('v \<Rightarrow> 'w) \<Rightarrow> ('a, 'v) kv_op \<Rightarrow> ('k \<rightharpoonup> 'w) \<Rightarrow> ('k \<rightharpoonup> 'w)" where
  "kv_spec key den op f = (case op of Put a b v \<Rightarrow> f(key a := None, key b \<mapsto> den v) | Del a \<Rightarrow> f(key a := None))"

text \<open>Every new key of a sequence of operations fits in place of the old one.\<close>

fun kv_fits :: "('a \<Rightarrow> 'k::linorder) \<Rightarrow> ('v \<Rightarrow> 'w) \<Rightarrow> ('a, 'v) kv_op list \<Rightarrow> ('k \<rightharpoonup> 'w) \<Rightarrow> bool" where
  "kv_fits key den [] f = True"
| "kv_fits key den (op # ops) f \<longleftrightarrow>
     (case op of Put a b v \<Rightarrow> key_fits (key a) (key b) f | Del a \<Rightarrow> True) \<and> kv_fits key den ops (kv_spec key den op f)"

text \<open>
  A key-value store of bounded size over ordered keys: \<open>upd\<close> and \<open>del\<close> act on the denoted map as
  update and removal while the number of entries stays below \<open>cap\<close> and the new keys fit.
\<close>

locale kv_store =
  fixes key :: "'a \<Rightarrow> 'k::linorder" and den :: "'v \<Rightarrow> 'w"
    and upd :: "'a \<Rightarrow> 'a \<Rightarrow> 'v \<Rightarrow> 's \<Rightarrow> 's" and del :: "'a \<Rightarrow> 's \<Rightarrow> 's"
    and lookup :: "'s \<Rightarrow> 'k \<rightharpoonup> 'w" and invar :: "'s \<Rightarrow> bool"
    and entries :: "'s \<Rightarrow> nat" and cap :: nat
  assumes lookup_upd: "invar s \<Longrightarrow> entries s < cap \<Longrightarrow> key_fits (key a) (key b) (lookup s) \<Longrightarrow>
      lookup (upd a b v s) = (lookup s)(key a := None, key b \<mapsto> den v)"
    and lookup_del: "invar s \<Longrightarrow> entries s < cap \<Longrightarrow> lookup (del a s) = (lookup s)(key a := None)"
    and invar_upd: "invar s \<Longrightarrow> entries s < cap \<Longrightarrow> key_fits (key a) (key b) (lookup s) \<Longrightarrow> invar (upd a b v s)"
    and invar_del: "invar s \<Longrightarrow> entries s < cap \<Longrightarrow> invar (del a s)"
    and entries_upd: "invar s \<Longrightarrow> entries s < cap \<Longrightarrow> key_fits (key a) (key b) (lookup s) \<Longrightarrow>
      entries (upd a b v s) \<le> Suc (entries s)"
    and entries_del: "invar s \<Longrightarrow> entries s < cap \<Longrightarrow> entries (del a s) \<le> entries s"
begin

lemma apply_step:
  assumes "invar s" and "entries s < cap" and "kv_fits key den (op # ops) (lookup s)"
  shows "invar (kv_apply upd del op s)"
    and "lookup (kv_apply upd del op s) = kv_spec key den op (lookup s)"
    and "entries (kv_apply upd del op s) \<le> Suc (entries s)"
  using assms entries_del [OF assms(1,2)]
  by (auto simp: kv_apply_def kv_spec_def lookup_upd lookup_del invar_upd invar_del
      intro: entries_upd le_SucI split: kv_op.splits)

text \<open>Any sequence of operations that fits refines the same sequence on the map.\<close>

lemma run_refines:
  assumes "invar s" and "entries s + length ops < cap" and "kv_fits key den ops (lookup s)"
  shows "invar (fold (kv_apply upd del) ops s)
    \<and> lookup (fold (kv_apply upd del) ops s) = fold (kv_spec key den) ops (lookup s)
    \<and> entries (fold (kv_apply upd del) ops s) \<le> entries s + length ops"
  using assms
proof (induction ops arbitrary: s)
  case Nil
  then show ?case by simp
next
  case (Cons op ops)
  then have s: "invar s" "entries s < cap" by auto
  note st = apply_step [OF s Cons.prems(3)]
  have "entries (kv_apply upd del op s) + length ops < cap"
    using st(3) Cons.prems(2) by simp
  moreover have "kv_fits key den ops (lookup (kv_apply upd del op s))" using Cons.prems(3) st(2) by simp
  ultimately show ?case using Cons.IH [OF st(1)] st(2,3) by auto
qed

end

interpretation node_store: kv_store
  "slice_bytes m" "\<lambda>(val, pid, flags). (slice_bytes m val, pid, flags)"
  "put_node m" "del_node m" "node_map m" "node_sorted m"
  "\<lambda>n. length (n_inodes n)" "2 ^ 31" for m
  by unfold_locales (auto simp: put_node_correct del_node_correct)

end
