(* ===== verification/Node_Map.thy ===== *)
theory Node_Map
  imports Node
begin

text \<open>
  The operations of a node against its abstract map: \<^verbatim>\<open>put\<close>, \<^verbatim>\<open>del\<close> and \<^verbatim>\<open>get\<close> refine update,
  removal and lookup of a finite map, for any sequence of calls; \<^verbatim>\<open>put\<close> under a new key keeps the
  order exactly when the new key fits between its neighbours; and the error exits of \<^verbatim>\<open>put\<close> are
  exactly its documented ones.
\<close>

section \<open>Whole operations\<close>

text \<open>The transaction a node belongs to, with its meta record.\<close>

definition node_meta :: "world \<Rightarrow> Node \<Rightarrow> addr res" where
  "node_meta w n =
     bindE (get_bucket w (n_bucket n)) (\<lambda>b. bindE (get_tx w (Bucket_tx b)) (\<lambda>t. Inr (tx_meta t)))"

lemma Node_put_cases:
  "Node_put w n oldKey newKey val pid flags =
     bindE (node_meta w n) (\<lambda>meta.
       if meta = nullptr \<or> pid \<ge> Meta_pgid (w_mem w) meta \<or> Slice_empty oldKey \<or> Slice_empty newKey
       then Inl (Exit 1)
       else Inr (n\<lparr>n_inodes := fst (put_inodes (w_mem w) n oldKey newKey val pid flags)\<rparr>))"
proof -
  obtain inodes index where p: "put_inodes (w_mem w) n oldKey newKey val pid flags = (inodes, index)"
    by (cases "put_inodes (w_mem w) n oldKey newKey val pid flags")
  show ?thesis
    using put_inodes_key [OF p] unfolding Node_put_def node_meta_def Slice_empty_def
    by (cases "get_bucket w (n_bucket n)"; simp; cases "get_tx w (Bucket_tx (projr (get_bucket w (n_bucket n))))")
      (auto simp: p bindE_def split: sum.splits)
qed

lemma Node_del_node:
  "Node_del m n key = (if Slice_empty key then Inl (Exit 1) else Inr (del_node m key n))"
  by (auto simp: Node_del_def del_node_def Slice_empty_def split: prod.splits)

lemma Node_get_lookup:
  assumes "node_sorted m n" and "length (n_inodes n) < 2 ^ 31"
  shows "Node_get m n key (Some old) =
    Inr (case node_map m n (slice_bytes m key) of None \<Rightarrow> (-1, old) | Some (v, _) \<Rightarrow> (0, v))"
proof -
  obtain p ex where f: "find_key m n key = (p, ex)" by (cases "find_key m n key")
  show ?thesis
    using find_key_lookup [OF assms f] by (simp add: Node_get_def f entry_of_def)
qed

section \<open>Sequences of operations\<close>

type_synonym node_op = "(Slice, Slice \<times> pgid_t \<times> u32) kv_op"

fun run_op :: "world \<Rightarrow> Node \<Rightarrow> node_op \<Rightarrow> Node res" where
  "run_op w n (Put oldKey newKey (val, pid, flags)) = Node_put w n oldKey newKey val pid flags"
| "run_op w n (Del key) = Node_del (w_mem w) n key"

fun run_ops :: "world \<Rightarrow> Node \<Rightarrow> node_op list \<Rightarrow> Node res" where
  "run_ops w n [] = Inr n"
| "run_ops w n (op # ops) = bindE (run_op w n op) (\<lambda>n'. run_ops w n' ops)"

fun op_ok :: "mem \<Rightarrow> addr \<Rightarrow> node_op \<Rightarrow> bool" where
  "op_ok m meta (Put oldKey newKey (val, pid, flags)) \<longleftrightarrow>
     \<not> Slice_empty oldKey \<and> \<not> Slice_empty newKey \<and> pid < Meta_pgid m meta"
| "op_ok m meta (Del key) \<longleftrightarrow> \<not> Slice_empty key"

text \<open>The map operation a call stands for, and the sequences whose new keys fit.\<close>

abbreviation op_spec :: "mem \<Rightarrow> node_op \<Rightarrow> (u8 list \<rightharpoonup> entry) \<Rightarrow> (u8 list \<rightharpoonup> entry)" where
  "op_spec m \<equiv> kv_spec (slice_bytes m) (\<lambda>(val, pid, flags). (slice_bytes m val, pid, flags))"

abbreviation ops_fit :: "mem \<Rightarrow> node_op list \<Rightarrow> (u8 list \<rightharpoonup> entry) \<Rightarrow> bool" where
  "ops_fit m \<equiv> kv_fits (slice_bytes m) (\<lambda>(val, pid, flags). (slice_bytes m val, pid, flags))"

lemma node_meta_bucket: "n_bucket n' = n_bucket n \<Longrightarrow> node_meta w n' = node_meta w n"
  by (simp add: node_meta_def)

lemma node_apply_bucket: "n_bucket (kv_apply (put_node m) (del_node m) op n) = n_bucket n"
  by (auto simp: kv_apply_def put_node_def del_node_def split: kv_op.splits prod.splits)

lemma run_op_apply:
  assumes "node_meta w n = Inr meta" and "meta \<noteq> nullptr" and "op_ok (w_mem w) meta op"
  shows "run_op w n op = Inr (kv_apply (put_node (w_mem w)) (del_node (w_mem w)) op n)"
  using assms
  by (cases "(w, n, op)" rule: run_op.cases)
    (auto simp: Node_put_cases Node_del_node kv_apply_def put_node_def)

lemma run_ops_fold:
  assumes "node_meta w n = Inr meta" and "meta \<noteq> nullptr" and "list_all (op_ok (w_mem w) meta) ops"
  shows "run_ops w n ops = Inr (fold (kv_apply (put_node (w_mem w)) (del_node (w_mem w))) ops n)"
  using assms
proof (induction ops arbitrary: n)
  case Nil
  then show ?case by simp
next
  case (Cons op ops)
  let ?n' = "kv_apply (put_node (w_mem w)) (del_node (w_mem w)) op n"
  have "node_meta w ?n' = Inr meta"
    using Cons.prems(1) node_meta_bucket [OF node_apply_bucket] by metis
  with Cons show ?case by (simp add: run_op_apply)
qed

text \<open>
  C2. A node is a map. Take any sequence of \<^verbatim>\<open>put\<close> calls, under the same or a new key, and \<^verbatim>\<open>del\<close> calls,
  with nonempty keys and page ids below the high water mark, in which every new key fits between
  the keys of the map around the one it replaces (the same key always does; where a new key does not
  fit, C27 says what happens). On a node with ordered keys every call returns, the keys stay ordered,
  the node denotes the map obtained by the same replacements, updates and removals, and \<^verbatim>\<open>get\<close>
  returns code 0 and the stored value for a key in it and -1 with the string untouched for a key that
  is not.
\<close>

theorem Node_ops_refine_map:
  assumes "node_meta w n = Inr meta" and "meta \<noteq> nullptr" and "list_all (op_ok (w_mem w) meta) ops"
    and "node_sorted (w_mem w) n" and "length (n_inodes n) + length ops < 2 ^ 31"
    and "ops_fit (w_mem w) ops (node_map (w_mem w) n)"
  shows "\<exists>n'. run_ops w n ops = Inr n' \<and> node_sorted (w_mem w) n' \<and>
    node_map (w_mem w) n' = fold (op_spec (w_mem w)) ops (node_map (w_mem w) n) \<and>
    Node_get (w_mem w) n' key (Some old) =
      Inr (case fold (op_spec (w_mem w)) ops (node_map (w_mem w) n) (slice_bytes (w_mem w) key) of
             None \<Rightarrow> (-1, old) | Some (v, _) \<Rightarrow> (0, v))"
proof -
  let ?n' = "fold (kv_apply (put_node (w_mem w)) (del_node (w_mem w))) ops n"
  have r: "run_ops w n ops = Inr ?n'" using assms(1-3) by (rule run_ops_fold)
  have s: "node_sorted (w_mem w) ?n'"
    "node_map (w_mem w) ?n' = fold (op_spec (w_mem w)) ops (node_map (w_mem w) n)"
    "length (n_inodes ?n') < 2 ^ 31"
    using node_store.run_refines [OF assms(4,5,6)] assms(5) by auto
  show ?thesis using r s Node_get_lookup [OF s(1,3), of key old] by auto
qed

section \<open>A concrete world\<close>

text \<open>
  A leaf node at address 16 in a bucket at 32 of a transaction at 48 with its meta record at 512
  (high water mark 4), and the strings \<^verbatim>\<open>aa\<close>, \<^verbatim>\<open>ab\<close>, \<^verbatim>\<open>v\<close> and \<^verbatim>\<open>w\<close> at 100 to 105.
\<close>

definition test_mem :: mem where
  "test_mem = (store_u64 (\<lambda>_. 0) 544 4)
     (100 := 97, 101 := 97, 102 := 97, 103 := 98, 104 := 118, 105 := 119)"

definition test_node :: Node where
  "test_node = \<lparr>n_bucket = 32, n_isLeaf = True, n_unbalanced = False, n_spilled = False,
     n_key = Slice_default, n_id = 0, n_parent = 0, n_children = [], n_inodes = []\<rparr>"

definition test_bucket :: Bucket where
  "test_bucket = \<lparr>b_bucket = \<lparr>bk_root = 0, bk_sequence = 0\<rparr>, b_tx = 48, b_buckets = Map.empty,
     b_page = 0, b_rootNode = 16, b_nodes = Map.empty, b_fillPercent = DefaultFillPercent\<rparr>"

definition test_txstats :: TxStats where
  "test_txstats = \<lparr>page_count = 0, page_alloc = 0, cursor_count = 0, node_count = 0, node_deref = 0,
     ts_rebalance = 0, rebalance_time = 0, ts_split = 0, ts_spill = 0, spill_time = 0,
     ts_write = 0, write_time = 0\<rparr>"

definition test_tx :: Tx where
  "test_tx = \<lparr>tx_writeFlag = 0, tx_writable = True, tx_managed = False, tx_db = 64, tx_meta = 512,
     tx_root = 32, tx_pages = Map.empty, tx_stats = test_txstats, tx_commit_handlers = []\<rparr>"

definition test_world :: world where
  "test_world = \<lparr>w_mem = test_mem, w_nodes = [16 \<mapsto> test_node], w_buckets = [32 \<mapsto> test_bucket],
     w_txs = [48 \<mapsto> test_tx], w_dbs = Map.empty, w_freelists = Map.empty, w_files = Map.empty, w_pools = Map.empty, w_fresh = []\<rparr>"

lemma test_world_meta: "node_meta test_world test_node = Inr 512"
  by (simp add: node_meta_def get_defs test_world_def test_node_def test_bucket_def test_tx_def
      Bucket_tx_def)

lemma test_world_pgid: "Meta_pgid (w_mem test_world) 512 = 4"
proof -
  have "load_u64 test_mem 544 = load_u64 (store_u64 (\<lambda>_. 0) 544 4) 544"
    unfolding test_mem_def by (rule u64.load_cong) (auto simp: region_def)
  then show ?thesis by (simp add: Meta_pgid_def test_world_def load_store_same)
qed

text \<open>Two insertions, a removal, and the remaining key \<^verbatim>\<open>ab\<close> renamed to \<^verbatim>\<open>aa\<close>.\<close>

theorem Node_ops_refine_map_witness:
  "let ops = [Put (Slice_make 100 2) (Slice_make 100 2) (Slice_make 104 1, 1, 0),
              Put (Slice_make 102 2) (Slice_make 102 2) (Slice_make 105 1, 1, 0), Del (Slice_make 100 2),
              Put (Slice_make 102 2) (Slice_make 100 2) (Slice_make 105 1, 2, 0)]
   in \<exists>n'. run_ops test_world test_node ops = Inr n' \<and>
        Node_get (w_mem test_world) n' (Slice_make 102 2) (Some []) = Inr (-1, []) \<and>
        node_map (w_mem test_world) n' = [[97, 97] \<mapsto> ([119], 2, 0)]"
proof -
  let ?ops = "[Put (Slice_make 100 2) (Slice_make 100 2) (Slice_make 104 1, 1, 0),
    Put (Slice_make 102 2) (Slice_make 102 2) (Slice_make 105 1, 1, 0), Del (Slice_make 100 2),
    Put (Slice_make 102 2) (Slice_make 100 2) (Slice_make 105 1, 2, 0)] :: node_op list"
  let ?m = "w_mem test_world"
  have b: "slice_bytes ?m (Slice_make 100 2) = [97, 97]" "slice_bytes ?m (Slice_make 102 2) = [97, 98]"
    "slice_bytes ?m (Slice_make 104 1) = [118]" "slice_bytes ?m (Slice_make 105 1) = [119]"
    by (simp_all add: test_world_def test_mem_def slice_bytes_def Slice_make_def mem_eval)
  have e: "node_sorted ?m test_node" "node_map ?m test_node = Map.empty"
    by (simp_all add: test_node_def node_sorted_def inodes_sorted_def node_map_def inodes_map_def)
  have ok: "list_all (op_ok ?m 512) ?ops"
    by (simp add: test_world_pgid Slice_empty_def Slice_make_def)
  have fit: "ops_fit ?m ?ops (node_map ?m test_node)" by (simp add: kv_spec_def key_fits_def b e(2))
  have f: "fold (op_spec ?m) ?ops (node_map ?m test_node) = [[97, 97] \<mapsto> ([119], 2, 0)]"
    by (simp add: kv_spec_def b e(2) fun_upd_twist)
  show ?thesis unfolding Let_def
    using Node_ops_refine_map [OF test_world_meta _ ok e(1) _ fit, of "Slice_make 102 2" "[]"] f
    by (auto simp: test_node_def b)
qed

section \<open>Renaming and errors\<close>

text \<open>
  C27. \<^verbatim>\<open>put\<close> with a new key (the way a parent's separator is replaced): the inode with the old key
  is overwritten in place, or a new inode is inserted where the old key belongs; the keys stay
  ordered exactly when the new key is greater than all keys before that position and smaller
  than all keys after it.
\<close>

theorem Node_put_rename_sorted:
  assumes "node_sorted (w_mem w) n" and "length (n_inodes n) < 2 ^ 31"
    and "Node_put w n oldKey newKey val pid flags = Inr n'"
  shows "\<exists>as bs. n_inodes n' = as @ \<lparr>in_flags = flags, in_id = pid, in_key = newKey, in_value = val\<rparr> # bs \<and>
    filter (\<lambda>i. ikey (w_mem w) i < slice_bytes (w_mem w) oldKey) (n_inodes n) = as \<and>
    filter (\<lambda>i. slice_bytes (w_mem w) oldKey < ikey (w_mem w) i) (n_inodes n) = bs \<and>
    (node_sorted (w_mem w) n' \<longleftrightarrow>
       (\<forall>i \<in> set as. ikey (w_mem w) i < slice_bytes (w_mem w) newKey) \<and>
       (\<forall>i \<in> set bs. slice_bytes (w_mem w) newKey < ikey (w_mem w) i))"
proof -
  let ?m = "w_mem w"
  let ?e = "\<lparr>in_flags = flags, in_id = pid, in_key = newKey, in_value = val\<rparr>"
  obtain p ex where f: "find_key ?m n oldKey = (p, ex)" by (cases "find_key ?m n oldKey")
  note sp = find_key_split [OF assms(1,2) f]
  define as where "as = take p (n_inodes n)"
  define bs where "bs = drop (if ex then Suc p else p) (n_inodes n)"
  have lo: "\<forall>i \<in> set as. ikey ?m i < slice_bytes ?m oldKey" using sp(2) by (simp add: as_def)
  have hi: "\<forall>i \<in> set bs. slice_bytes ?m oldKey < ikey ?m i"
    using sp(3,4) by (cases ex) (simp_all add: bs_def)
  have old: "n_inodes n = (if ex then as @ (n_inodes n ! p) # bs else as @ bs)"
    using sp(3) by (auto simp: as_def bs_def)
  have "fst (put_inodes ?m n oldKey newKey val pid flags) = as @ ?e # bs"
    by (simp add: put_inodes_shape [OF f] as_def bs_def)
  then have new: "n_inodes n' = as @ ?e # bs"
    using assms(3) by (auto simp: Node_put_cases bindE_Inr_iff split: if_splits)
  have k: "ex \<Longrightarrow> ikey ?m (n_inodes n ! p) = slice_bytes ?m oldKey" using sp(3) by blast
  have F: "filter (\<lambda>i. ikey ?m i < slice_bytes ?m oldKey) (n_inodes n) = as"
    and G: "filter (\<lambda>i. slice_bytes ?m oldKey < ikey ?m i) (n_inodes n) = bs"
    using lo hi k by (subst old; force simp: filter_empty_conv filter_id_conv)+
  have "inodes_sorted ?m as" "inodes_sorted ?m bs"
    using assms(1) unfolding node_sorted_def
    by (auto simp: as_def bs_def inodes_sorted_def drop_map [symmetric] take_map [symmetric]
        sorted_wrt_take sorted_wrt_drop)
  with new F G show ?thesis
    by (intro exI [of _ as] exI [of _ bs]) (simp add: node_sorted_def inodes_sorted_mid)
qed

theorem Node_put_rename_witness:
  "let n = test_node\<lparr>n_inodes := [\<lparr>in_flags = 0, in_id = 1, in_key = Slice_make 100 2, in_value = Slice_make 104 1\<rparr>]\<rparr>
   in \<exists>n'. Node_put test_world n (Slice_make 100 2) (Slice_make 102 2) (Slice_make 105 1) 2 0 = Inr n'
        \<and> node_sorted (w_mem test_world) n' \<and> length (n_inodes n') = 1"
proof -
  let ?n = "test_node\<lparr>n_inodes := [\<lparr>in_flags = 0, in_id = 1, in_key = Slice_make 100 2, in_value = Slice_make 104 1\<rparr>]\<rparr>"
  have s: "node_sorted (w_mem test_world) ?n" by (simp add: node_sorted_def inodes_sorted_def)
  have "node_meta test_world ?n = Inr 512"
    using test_world_meta node_meta_bucket [of ?n test_node test_world] by simp
  then obtain n' where n': "Node_put test_world ?n (Slice_make 100 2) (Slice_make 102 2) (Slice_make 105 1) 2 0 = Inr n'"
    by (simp add: Node_put_cases test_world_pgid Slice_empty_def Slice_make_def)
  show ?thesis unfolding Let_def
    using Node_put_rename_sorted [OF s _ n'] n' by (auto simp: test_node_def)
qed

text \<open>
  The exits of \<^verbatim>\<open>put\<close>: with a transaction in reach it exits with status 1 exactly when the meta
  record is missing, the page id is not below the high water mark or one of the keys is empty;
  otherwise it returns. The last check, which would exit with status -1, is never reached, and no
  call changes anything but the inodes.
\<close>

theorem Node_put_exits:
  assumes "node_meta w n = Inr meta"
  shows "(Node_put w n oldKey newKey val pid flags = Inl (Exit 1) \<longleftrightarrow>
      meta = nullptr \<or> pid \<ge> Meta_pgid (w_mem w) meta \<or> Slice_empty oldKey \<or> Slice_empty newKey) \<and>
    Node_put w n oldKey newKey val pid flags \<noteq> Inl (Exit (-1)) \<and>
    (Node_put w n oldKey newKey val pid flags = Inl (Exit 1) \<or>
     (\<exists>inodes. Node_put w n oldKey newKey val pid flags = Inr (n\<lparr>n_inodes := inodes\<rparr>)))"
  using assms by (auto simp: Node_put_cases)

theorem Node_put_exits_witness:
  "Node_put test_world test_node (Slice_make 100 2) (Slice_make 100 2) (Slice_make 104 1) 4 0 = Inl (Exit 1)"
  using Node_put_exits [OF test_world_meta, of "Slice_make 100 2" "Slice_make 100 2" "Slice_make 104 1" 4 0]
  by (simp add: test_world_pgid)

end
