(* ===== verification/Node_Page.thy ===== *)
theory Node_Page
  imports Node_Map
begin

text \<open>
  \<^verbatim>\<open>Node::write\<close> and \<^verbatim>\<open>Node::read\<close>: the byte layout of a node on a page. The lemmas follow the write
  loop element by element (what an iteration stores, what it leaves alone) up to the theorems:
  a leaf node written to a page is read back unchanged, the write stays inside the page header and
  the \<^verbatim>\<open>size()\<close> bytes of the node, and what happens to branch nodes.
\<close>

unbundle bit_operations_syntax

section \<open>Sizes\<close>

definition kv_size :: "INode \<Rightarrow> nat" where
  "kv_size i = unat (s_size (in_key i)) + unat (s_size (in_value i))"

definition data_size :: "INode list \<Rightarrow> nat" where
  "data_size is = sum_list (map kv_size is)"

text \<open>The bytes a node occupies after the page header: 16 per element and the keys and values.\<close>

definition body_size :: "INode list \<Rightarrow> nat" where
  "body_size is = 16 * length is + data_size is"

lemma data_size_simps [simp]:
  "data_size [] = 0" "data_size (i # is) = kv_size i + data_size is"
  by (simp_all add: data_size_def)

lemma ucast_of_nat_u32: "(ucast (of_nat n :: u64) :: u32) = of_nat n"
  by (simp add: word_unat_eq_iff unsigned_ucast_eq unat_of_nat take_bit_eq_mod mod_mod_cancel)

lemma size_loop_eq:
  "size_loop 16 sz is = sz + of_nat (body_size is)"
proof (induction "is" arbitrary: sz)
  case Nil
  then show ?case by (simp add: body_size_def)
next
  case (Cons i "is")
  have "(ucast (16 + s_size (in_key i) + s_size (in_value i)) :: u32) = of_nat (16 + kv_size i)"
  proof -
    have "16 + s_size (in_key i) + s_size (in_value i) = (of_nat (16 + kv_size i) :: u64)"
      by (simp add: kv_size_def)
    then show ?thesis by (simp only: ucast_of_nat_u32)
  qed
  then show ?case by (simp add: Cons body_size_def algebra_simps)
qed

lemma Node_size_eq:
  assumes "24 + body_size (n_inodes n) < 2 ^ 31"
  shows "Node_size n = 24 + int (body_size (n_inodes n))"
proof -
  have "Node_size n = int_of_size (24 + body_size (n_inodes n))"
    by (simp add: Node_size_def Node_pageElementSize_def leafPageElementSize_def LeafPageElement_elementSize_def
        branchPageElementSize_def BranchPageElement_elementSize_def pageHeaderSize_def Page_pagehsz_def size_loop_eq int_of_size_def int_of_u32_def)
  with assms show ?thesis by (simp add: int_of_size_small)
qed

section \<open>One iteration of the write loop\<close>

lemma elem_addr:
  "i \<le> 0xffff \<Longrightarrow> Page_leafPageElement m p (of_nat i) = Page_ptr m p + of_nat (16 * i)"
  "i \<le> 0xffff \<Longrightarrow> Page_branchPageElement m p (of_nat i) = Page_ptr m p + of_nat (16 * i)"
proof -
  assume i: "i \<le> 0xffff"
  have "unat (ucast (of_nat i :: u16) :: u64) = unat (of_nat i :: u64)"
    using i by (simp add: unat_of_nat)
  then have "(ucast (of_nat i :: u16) :: u64) = of_nat i" by (simp only: word_unat_eq_iff)
  then show "Page_leafPageElement m p (of_nat i) = Page_ptr m p + of_nat (16 * i)"
    and "Page_branchPageElement m p (of_nat i) = Page_ptr m p + of_nat (16 * i)"
    by (simp_all add: Page_leafPageElement_def Page_branchPageElement_def)
qed

lemma ucast_u32_u64: "unat x < 2 ^ 32 \<Longrightarrow> (ucast (ucast (x :: u64) :: u32) :: u64) = x"
  by (simp add: word_unat_eq_iff unsigned_ucast_eq unsigned_take_bit_eq take_bit_nat_eq_self)

lemma unat_ucast_small: "unat (x :: u64) < 2 ^ 32 \<Longrightarrow> unat (ucast x :: u32) = unat x"
  by (simp add: unsigned_ucast_eq take_bit_nat_eq_self)

definition slice_region :: "Slice \<Rightarrow> addr set" where
  "slice_region s = region (s_data s) (unat (s_size s))"

lemma slice_bytes_cong: "(\<And>x. x \<in> slice_region s \<Longrightarrow> m x = m' x) \<Longrightarrow> slice_bytes m s = slice_bytes m' s"
  unfolding slice_bytes_def slice_region_def
  using unsigned_less [of "s_size s", where ?'a = nat] by (intro read_bytes_cong) simp_all

lemma copy_kv_frame:
  assumes "x \<notin> region b (kv_size n)" and "kv_size n \<le> 2 ^ 64"
  shows "copy_kv m b n x = m x"
proof -
  let ?k = "unat (s_size (in_key n))" and ?v = "unat (s_size (in_value n))"
  have "region b ?k \<subseteq> region b (kv_size n)" by (rule region_mono) (simp add: kv_size_def)
  moreover have "region (b + s_size (in_key n)) ?v \<subseteq> region b (kv_size n)"
    using region_sub [of ?k ?v "kv_size n" b] assms(2) by (simp add: kv_size_def)
  ultimately show ?thesis
    using assms by (auto simp: copy_kv_def Let_def kv_size_def intro!: write_bytes_outside [THEN trans])
qed

lemma copy_kv_read:
  assumes "kv_size n \<le> 2 ^ 64" and "slice_region (in_value n) \<inter> region b (kv_size n) = {}"
  shows "read_bytes (copy_kv m b n) b (unat (s_size (in_key n))) = slice_bytes m (in_key n)"
    and "read_bytes (copy_kv m b n) (b + s_size (in_key n)) (unat (s_size (in_value n)))
           = slice_bytes m (in_value n)"
proof -
  let ?k = "unat (s_size (in_key n))" and ?v = "unat (s_size (in_value n))"
  let ?m1 = "write_bytes m b (slice_bytes m (in_key n))"
  have kv: "?k + ?v \<le> 2 ^ 64" using assms(1) by (simp add: kv_size_def)
  have v: "slice_bytes ?m1 (in_value n) = slice_bytes m (in_value n)"
    using assms(2) region_mono [of ?k "kv_size n" b] kv
    by (intro slice_bytes_cong write_bytes_outside) (auto simp: kv_size_def)
  have dis: "region b ?k \<inter> region (b + s_size (in_key n)) ?v = {}"
    using region_disjoint_offsets [of 0 ?k ?k ?v b] kv by simp
  have "read_bytes (copy_kv m b n) b ?k = read_bytes ?m1 b ?k"
    unfolding copy_kv_def Let_def using dis kv by (intro read_write_disjoint) simp_all
  also have "\<dots> = slice_bytes m (in_key n)" using kv by (intro read_write_same) simp_all
  finally show "read_bytes (copy_kv m b n) b ?k = slice_bytes m (in_key n)" .
  show "read_bytes (copy_kv m b n) (b + s_size (in_key n)) ?v = slice_bytes m (in_value n)"
    unfolding copy_kv_def Let_def v using kv by (intro read_write_same) simp_all
qed

lemma write_leaf_elem_spec:
  obtains m1 where "write_leaf_elem m p i b n = Inr m1"
    and "\<And>x. x \<notin> region (Page_leafPageElement m p (of_nat i)) 16 \<Longrightarrow> m1 x = m x"
    and "load_leaf m1 (Page_leafPageElement m p (of_nat i)) =
      \<lparr>le_flags = in_flags n, le_pos = ucast (b - Page_leafPageElement m p (of_nat i)),
       le_ksize = ucast (s_size (in_key n)), le_vsize = ucast (s_size (in_value n))\<rparr>"
proof -
  let ?e = "Page_leafPageElement m p (of_nat i)"
  let ?m1 = "store_u32 (store_u32 (store_u32 (store_u32 m ?e (in_flags n))
     (?e + 8) (ucast (s_size (in_key n)))) (?e + 12) (ucast (s_size (in_value n))))
     (?e + 4) (ucast (b - ?e))"
  have "write_leaf_elem m p i b n = Inr ?m1" by (simp add: write_leaf_elem_def Let_def)
  moreover have "?m1 x = m x" if "x \<notin> region ?e 16" for x
  proof -
    have "x \<notin> region ?e 4" "x \<notin> region (?e + 8) 4" "x \<notin> region (?e + 12) 4" "x \<notin> region (?e + 4) 4"
      using that region_mono [of 4 16 ?e] region_sub_field [of 8 4 16 ?e]
        region_sub_field [of 12 4 16 ?e] region_sub_field [of 4 4 16 ?e] by auto
    then show ?thesis by (simp add: store_frames)
  qed
  moreover have "load_leaf ?m1 ?e = \<lparr>le_flags = in_flags n, le_pos = ucast (b - ?e),
       le_ksize = ucast (s_size (in_key n)), le_vsize = ucast (s_size (in_value n))\<rparr>"
    by (simp add: load_leaf_def load_store_same load_store_other region_disjointI)
  ultimately show thesis by (rule that)
qed

section \<open>The write loop on a leaf\<close>

text \<open>What a reader sees of a leaf element, and what a node holds for it.\<close>

definition leaf_view :: "mem \<Rightarrow> addr \<Rightarrow> u32 \<times> u8 list \<times> u8 list" where
  "leaf_view m a = (le_flags (load_leaf m a), slice_bytes m (LeafPageElement_key m a),
     slice_bytes m (LeafPageElement_value m a))"

definition inode_view :: "mem \<Rightarrow> INode \<Rightarrow> u32 \<times> u8 list \<times> u8 list" where
  "inode_view m i = (in_flags i, slice_bytes m (in_key i), slice_bytes m (in_value i))"

definition src_sep :: "addr \<Rightarrow> nat \<Rightarrow> INode list \<Rightarrow> bool" where
  "src_sep q N is \<longleftrightarrow>
     list_all (\<lambda>i. slice_region (in_key i) \<inter> region q N = {} \<and> slice_region (in_value i) \<inter> region q N = {}) is"

lemma load_leaf_cong:
  assumes "\<And>x. x \<in> region a 16 \<Longrightarrow> m x = m' x"
  shows "load_leaf m a = load_leaf m' a"
proof -
  have "load_u32 m (a + k) = load_u32 m' (a + k)" if "unat k + 4 \<le> 16" for k
    using region_sub_field [OF that, of a] assms by (intro u32.load_cong) auto
  from this [of 0] this [of 4] this [of 8] this [of 12] show ?thesis by (simp add: load_leaf_def)
qed

text \<open>The element at \<open>a\<close> describes the inode \<open>n\<close>, whose bytes are at \<open>b\<close>.\<close>

definition elem_written :: "mem \<Rightarrow> addr \<Rightarrow> addr \<Rightarrow> INode \<Rightarrow> u32 \<times> u8 list \<times> u8 list \<Rightarrow> bool" where
  "elem_written m a b n vw \<longleftrightarrow>
     load_leaf m a = \<lparr>le_flags = in_flags n, le_pos = ucast (b - a),
       le_ksize = ucast (s_size (in_key n)), le_vsize = ucast (s_size (in_value n))\<rparr> \<and>
     vw = (in_flags n, read_bytes m b (unat (s_size (in_key n))),
       read_bytes m (b + s_size (in_key n)) (unat (s_size (in_value n))))"

lemma elem_written_view:
  assumes "elem_written m a b n vw" and "unat (b - a) < 2 ^ 32" and "kv_size n < 2 ^ 32"
  shows "leaf_view m a = vw"
  using assms
  by (simp add: elem_written_def kv_size_def leaf_view_def LeafPageElement_key_def
      LeafPageElement_value_def slice_bytes_def Slice_make_def ucast_u32_u64 unat_ucast_small)

lemma elem_written_stable:
  assumes "elem_written m a b n vw" and "kv_size n \<le> 2 ^ 64"
    and same: "\<And>x. x \<in> region a 16 \<union> region b (kv_size n) \<Longrightarrow> m' x = m x"
  shows "elem_written m' a b n vw"
proof -
  let ?k = "s_size (in_key n)" and ?v = "s_size (in_value n)"
  have "load_leaf m' a = load_leaf m a" using same by (intro load_leaf_cong) auto
  moreover have "read_bytes m' b (unat ?k) = read_bytes m b (unat ?k)"
    using same region_mono [of "unat ?k" "kv_size n" b] assms(2)
    by (intro read_bytes_cong) (auto simp: kv_size_def)
  moreover have "region (b + ?k) (unat ?v) \<subseteq> region b (kv_size n)"
    using region_sub [of "unat ?k" "unat ?v" "kv_size n" b] assms(2) by (simp add: kv_size_def)
  then have "read_bytes m' (b + ?k) (unat ?v) = read_bytes m (b + ?k) (unat ?v)"
    using same assms(2) by (intro read_bytes_cong) (auto simp: kv_size_def)
  ultimately show ?thesis using assms(1) by (simp add: elem_written_def)
qed

text \<open>
  One iteration: it returns, changes only the element and its key and value bytes, and the element
  then shows the inode. Offsets are relative to the data area \<open>q\<close> of \<open>N\<close> bytes.
\<close>

lemma leaf_step:
  assumes q: "Page_ptr m p = q" and i: "i \<le> 0xffff" and off: "16 * i + 16 \<le> off"
    and N: "off + kv_size n \<le> N" "N < 2 ^ 32" and src: "src_sep q N [n]"
  obtains m1 where "write_leaf_elem m p i (q + of_nat off) n = Inr m1"
    and "\<And>x. x \<notin> region (q + of_nat (16 * i)) 16 \<Longrightarrow> x \<notin> region (q + of_nat off) (kv_size n) \<Longrightarrow>
      copy_kv m1 (q + of_nat off) n x = m x"
    and "elem_written (copy_kv m1 (q + of_nat off) n) (q + of_nat (16 * i)) (q + of_nat off) n (inode_view m n)"
proof -
  let ?a = "q + of_nat (16 * i)" and ?b = "q + of_nat off"
  let ?k = "s_size (in_key n)" and ?v = "s_size (in_value n)"
  have a: "Page_leafPageElement m p (of_nat i) = ?a" using i q by (simp add: elem_addr)
  obtain m1 where w: "write_leaf_elem m p i ?b n = Inr m1"
    and fr: "\<And>x. x \<notin> region ?a 16 \<Longrightarrow> m1 x = m x"
    and ld: "load_leaf m1 ?a = \<lparr>le_flags = in_flags n, le_pos = ucast (?b - ?a),
       le_ksize = ucast ?k, le_vsize = ucast ?v\<rparr>"
    using write_leaf_elem_spec [of m p i ?b n] unfolding a by blast
  let ?m2 = "copy_kv m1 ?b n"
  have kv: "kv_size n \<le> 2 ^ 64" using N by simp
  have subN: "region ?a 16 \<subseteq> region q N" "region ?b (kv_size n) \<subseteq> region q N"
    using region_sub [of "16 * i" 16 N q] region_sub [of off "kv_size n" N q] off N by simp_all
  have src1: "slice_bytes m1 (in_key n) = slice_bytes m (in_key n)"
    "slice_bytes m1 (in_value n) = slice_bytes m (in_value n)"
    using src subN(1) fr by (auto simp: src_sep_def intro!: slice_bytes_cong)
  have vsep: "slice_region (in_value n) \<inter> region ?b (kv_size n) = {}"
    using src subN(2) by (auto simp: src_sep_def)
  have dis: "region ?a 16 \<inter> region ?b (kv_size n) = {}"
    using off N by (intro region_disjoint_offsets) auto
  have "load_leaf ?m2 ?a = load_leaf m1 ?a"
    using dis kv by (intro load_leaf_cong copy_kv_frame) auto
  then have "elem_written ?m2 ?a ?b n (inode_view m n)"
    using ld copy_kv_read [OF kv vsep, of m1] src1 by (simp add: inode_view_def elem_written_def)
  moreover have "?m2 x = m x" if "x \<notin> region ?a 16" "x \<notin> region ?b (kv_size n)" for x
    using copy_kv_frame [OF that(2) kv] fr [OF that(1)] by simp
  ultimately show thesis using w that by blast
qed

lemma src_sep_view:
  assumes "src_sep q N ns" and "\<And>x. x \<notin> region q N \<Longrightarrow> m' x = m x"
  shows "map (inode_view m') ns = map (inode_view m) ns"
  using assms by (auto simp: src_sep_def inode_view_def list_all_iff intro!: slice_bytes_cong)

text \<open>
  The areas of one iteration (an element of 16 bytes, \<open>kv\<close> bytes of key and value) and of the \<open>k\<close>
  iterations after it, with \<open>ds\<close> bytes of data.
\<close>

lemma step_areas_apart:
  assumes "16 * (i + Suc k) \<le> off" and "off + (kv + ds) \<le> N" and "N < 2 ^ 32"
    and "x \<in> region (q + of_nat (16 * i)) 16 \<union> region (q + of_nat off) kv"
  shows "x \<notin> region (q + of_nat (16 * Suc i)) (16 * k)" and "x \<notin> region (q + of_nat (off + kv)) ds"
  using assms(4) region_disjoint_offsets [of "16 * i" 16 "16 * Suc i" "16 * k" q]
    region_disjoint_offsets [of "16 * Suc i" "16 * k" off kv q]
    region_disjoint_offsets [of "16 * i" 16 "off + kv" ds q] region_disjoint_offsets [of off kv "off + kv" ds q]
    assms(1-3)
  by auto

lemma step_areas_sub:
  assumes "16 * (i + Suc k) \<le> off" and "off + (kv + ds) \<le> N" and "N < 2 ^ 32"
  shows "region (q + of_nat (16 * i)) 16 \<subseteq> region (q + of_nat (16 * i)) (16 * Suc k)"
    and "region (q + of_nat (16 * Suc i)) (16 * k) \<subseteq> region (q + of_nat (16 * i)) (16 * Suc k)"
    and "region (q + of_nat off) kv \<subseteq> region (q + of_nat off) (kv + ds)"
    and "region (q + of_nat (off + kv)) ds \<subseteq> region (q + of_nat off) (kv + ds)"
  using region_sub [of 16 "16 * k" "16 * Suc k" "q + of_nat (16 * i)"]
    region_sub [of kv ds "kv + ds" "q + of_nat off"] assms
  by (simp_all add: region_mono algebra_simps)

lemma leaf_step_area:
  assumes "Page_ptr m p = q" and "16 * i + 16 \<le> off" and "i \<le> 0xffff" and "off + kv_size n \<le> N" and "N < 2 ^ 32"
    and "region p 32 \<inter> region q N = {}" and "src_sep q N [n]"
  obtains m1 where "write_leaf_elem m p i (q + of_nat off) n = Inr m1"
    and "\<And>x. x \<notin> region (q + of_nat (16 * i)) 16 \<Longrightarrow> x \<notin> region (q + of_nat off) (kv_size n) \<Longrightarrow>
      copy_kv m1 (q + of_nat off) n x = m x"
    and "elem_written (copy_kv m1 (q + of_nat off) n) (q + of_nat (16 * i)) (q + of_nat off) n (inode_view m n)"
    and "\<And>x. x \<notin> region q N \<Longrightarrow> copy_kv m1 (q + of_nat off) n x = m x"
    and "Page_ptr (copy_kv m1 (q + of_nat off) n) p = q"
proof -
  let ?a = "q + of_nat (16 * i)" and ?b = "q + of_nat off"
  obtain m1 where w: "write_leaf_elem m p i ?b n = Inr m1"
    and fr: "\<And>x. x \<notin> region ?a 16 \<Longrightarrow> x \<notin> region ?b (kv_size n) \<Longrightarrow> copy_kv m1 ?b n x = m x"
    and vw: "elem_written (copy_kv m1 ?b n) ?a ?b n (inode_view m n)"
    using leaf_step [OF assms(1,3,2,4,5,7)] by blast
  have "region ?a 16 \<subseteq> region q N" "region ?b (kv_size n) \<subseteq> region q N"
    using region_sub [of "16 * i" 16 N q] region_sub [of off "kv_size n" N q] assms(2,4,5) by simp_all
  then have out: "copy_kv m1 ?b n x = m x" if "x \<notin> region q N" for x using that fr by auto
  then have "copy_kv m1 ?b n x = m x" if "x \<in> region p 32" for x using that assms(6) by (intro out) auto
  then have "Page_ptr (copy_kv m1 ?b n) p = q" using page_getter_congs(5) [of p "copy_kv m1 ?b n" m] assms(1) by simp
  with w fr vw out show thesis by (intro that [of m1])
qed

text \<open>An element that later writes leave alone is read as it was written.\<close>

lemma elem_written_read:
  assumes "elem_written m (q + of_nat (16 * i)) (q + of_nat off) n v" and "16 * i + 16 \<le> off" and "off + kv_size n \<le> N"
    and "N < 2 ^ 32"
    and "\<And>x. x \<in> region (q + of_nat (16 * i)) 16 \<union> region (q + of_nat off) (kv_size n) \<Longrightarrow> m' x = m x"
  shows "leaf_view m' (q + of_nat (16 * i)) = v"
proof -
  have "kv_size n \<le> 2 ^ 64" using assms(3,4) by simp
  then have "elem_written m' (q + of_nat (16 * i)) (q + of_nat off) n v"
    by (rule elem_written_stable [OF assms(1) _ assms(5)])
  moreover have "q + of_nat off - (q + of_nat (16 * i)) = (of_nat (off - 16 * i) :: addr)"
    using assms(2) by (simp add: of_nat_diff)
  then have "unat (q + of_nat off - (q + of_nat (16 * i))) < 2 ^ 32" using assms(3,4) by (simp add: unat_of_nat64)
  ultimately show ?thesis using assms(3,4) by (intro elem_written_view) auto
qed

lemma write_loop_leaf:
  assumes "Page_ptr m p = q" and "i + length ns \<le> 0xffff" and "16 * (i + length ns) \<le> off"
    and "off + data_size ns \<le> N" and "N < 2 ^ 32"
    and "region p 32 \<inter> region q N = {}" and "src_sep q N ns"
  shows "\<exists>m'. write_loop m p True i (q + of_nat off) ns = Inr m'
    \<and> (\<forall>x. x \<notin> region (q + of_nat (16 * i)) (16 * length ns) \<longrightarrow> x \<notin> region (q + of_nat off) (data_size ns)
         \<longrightarrow> m' x = m x)
    \<and> map (\<lambda>j. leaf_view m' (q + of_nat (16 * j))) [i..<i + length ns] = map (inode_view m) ns"
  using assms
proof (induction ns arbitrary: m i off)
  case Nil
  then show ?case by simp
next
  case (Cons n ns)
  let ?a = "q + of_nat (16 * i)" and ?b = "q + of_nat off"
  have off: "16 * i + 16 \<le> off" "i \<le> 0xffff" and N: "off + kv_size n \<le> N"
    using Cons.prems(2-4) by auto
  have src: "src_sep q N [n]" and srcs: "src_sep q N ns"
    using Cons.prems(7) by (auto simp: src_sep_def)
  obtain m1 where w: "write_leaf_elem m p i ?b n = Inr m1"
    and fr: "\<And>x. x \<notin> region ?a 16 \<Longrightarrow> x \<notin> region ?b (kv_size n) \<Longrightarrow> copy_kv m1 ?b n x = m x"
    and vw: "elem_written (copy_kv m1 ?b n) ?a ?b n (inode_view m n)"
    and fr2: "\<And>x. x \<notin> region q N \<Longrightarrow> copy_kv m1 ?b n x = m x" and q2: "Page_ptr (copy_kv m1 ?b n) p = q"
    using leaf_step_area [OF Cons.prems(1) off N Cons.prems(5,6) src] by blast
  define m2 where "m2 = copy_kv m1 ?b n"
  have b': "?b + s_size (in_key n) + s_size (in_value n) = q + of_nat (off + kv_size n)"
    by (simp add: kv_size_def add.assoc)
  have "\<exists>m'. write_loop m2 p True (Suc i) (q + of_nat (off + kv_size n)) ns = Inr m'
    \<and> (\<forall>x. x \<notin> region (q + of_nat (16 * Suc i)) (16 * length ns) \<longrightarrow>
         x \<notin> region (q + of_nat (off + kv_size n)) (data_size ns) \<longrightarrow> m' x = m2 x)
    \<and> map (\<lambda>j. leaf_view m' (q + of_nat (16 * j))) [Suc i..<Suc i + length ns] = map (inode_view m2) ns"
    using Cons.prems(2-4) by (intro Cons.IH [OF q2 [folded m2_def] _ _ _ Cons.prems(5,6) srcs]) simp_all
  then obtain m' where l: "write_loop m2 p True (Suc i) (q + of_nat (off + kv_size n)) ns = Inr m'"
    and fr': "\<And>x. x \<notin> region (q + of_nat (16 * Suc i)) (16 * length ns) \<Longrightarrow>
      x \<notin> region (q + of_nat (off + kv_size n)) (data_size ns) \<Longrightarrow> m' x = m2 x"
    and vs: "map (\<lambda>j. leaf_view m' (q + of_nat (16 * j))) [Suc i..<Suc i + length ns] = map (inode_view m2) ns"
    by (elim exE conjE) blast
  have r: "write_loop m p True i ?b (n # ns) = Inr m'"
    using l by (simp add: w m2_def [symmetric] b')
  have ar: "16 * (i + Suc (length ns)) \<le> off" "off + (kv_size n + data_size ns) \<le> N"
    using Cons.prems(3,4) by simp_all
  have "m' x = m2 x" if "x \<in> region ?a 16 \<union> region ?b (kv_size n)" for x
    using step_areas_apart [OF ar Cons.prems(5) that] by (rule fr')
  then have v0: "leaf_view m' ?a = inode_view m n"
    by (rule elem_written_read [OF vw [folded m2_def] off(1) N Cons.prems(5)])
  have "[i..<i + length (n # ns)] = i # [Suc i..<Suc i + length ns]" by (simp add: upt_conv_Cons del: upt_Suc)
  then have vws: "map (\<lambda>j. leaf_view m' (q + of_nat (16 * j))) [i..<i + length (n # ns)]
      = map (inode_view m) (n # ns)"
    using v0 vs src_sep_view [OF srcs fr2 [folded m2_def]] by (simp del: upt_Suc)
  have "m' x = m x" if "x \<notin> region ?a (16 * length (n # ns))" "x \<notin> region ?b (data_size (n # ns))" for x
  proof -
    note sub = step_areas_sub [OF ar Cons.prems(5), of q]
    from that sub(2,4) have "m' x = m2 x" by (intro fr') auto
    also have "\<dots> = m x" unfolding m2_def using that sub(1,3) by (intro fr) auto
    finally show ?thesis .
  qed
  with r vws show ?case by blast
qed

section \<open>Writing a leaf\<close>

text \<open>The page header as \<^verbatim>\<open>write\<close> sets it before the loop.\<close>

definition write_header :: "mem \<Rightarrow> Node \<Rightarrow> addr \<Rightarrow> mem" where
  "write_header m n p =
     Page_setCount (Page_unsetOverflow
       (Page_setFlags m p (if n_isLeaf n then LeafPageFlag else BranchPageFlag)) p) p
       (of_nat (length (n_inodes n)))"

lemma write_header_get [simp]:
  "Page_id (write_header m n p) p = Page_id m p"
  "Page_flags (write_header m n p) p =
     Page_flags m p OR (if n_isLeaf n then LeafPageFlag else BranchPageFlag)"
  "Page_count (write_header m n p) p = of_nat (length (n_inodes n))"
  "Page_ptr (write_header m n p) p = Page_ptr m p"
  "Page_overflow (write_header m n p) p = 0"
  by (simp_all add: write_header_def)

lemma write_header_frame: "x \<notin> region p 32 \<Longrightarrow> write_header m n p x = m x"
  by (simp add: write_header_def page_setter_frames)

lemma of_nat_u32_0_iff: "k \<le> 0xffff \<Longrightarrow> (of_nat k :: u32) = 0 \<longleftrightarrow> k = 0"
  by (simp add: word_unat_eq_iff unat_of_nat)

lemma Node_write_eq:
  assumes "length (n_inodes n) \<le> 0xffff"
  shows "Node_write m n p =
    (if n_inodes n = [] then Inr (write_header m n p)
     else write_loop (write_header m n p) p (n_isLeaf n) 0
            (Page_ptr m p + of_nat (16 * length (n_inodes n))) (n_inodes n))"
proof -
  have 0: "Page_count (write_header m n p) p = 0 \<longleftrightarrow> n_inodes n = []"
    using of_nat_u32_0_iff [OF assms] by simp
  have "Node_write m n p =
    (if Page_count (write_header m n p) p = 0 then Inr (write_header m n p)
     else write_loop (write_header m n p) p (n_isLeaf n) 0
            (Page_ptr (write_header m n p) p + of_nat (16 * length (n_inodes n))) (n_inodes n))"
    using assms unfolding Node_write_def Let_def write_header_def [symmetric]
    by (simp add: Node_pageElementSize_def leafPageElementSize_def LeafPageElement_elementSize_def branchPageElementSize_def BranchPageElement_elementSize_def
        mult.commute del: write_header_get)
  then show ?thesis unfolding 0 by simp
qed

text \<open>A leaf of which the page area and the sources of its slices are apart.\<close>

definition leaf_writable :: "mem \<Rightarrow> Node \<Rightarrow> addr \<Rightarrow> bool" where
  "leaf_writable m n p \<longleftrightarrow> n_isLeaf n \<and> length (n_inodes n) \<le> 0xffff \<and> body_size (n_inodes n) < 2 ^ 32 \<and>
     region p 32 \<inter> region (Page_ptr m p) (body_size (n_inodes n)) = {} \<and>
     src_sep (Page_ptr m p) (body_size (n_inodes n)) (n_inodes n) \<and> src_sep p 32 (n_inodes n)"

lemma Node_write_leaf:
  assumes "leaf_writable m n p"
  shows "\<exists>m'. Node_write m n p = Inr m'
    \<and> (\<forall>x. x \<notin> region p 32 \<longrightarrow> x \<notin> region (Page_ptr m p) (body_size (n_inodes n)) \<longrightarrow> m' x = m x)
    \<and> (\<forall>x \<in> region p 32. m' x = write_header m n p x)
    \<and> map (\<lambda>j. leaf_view m' (Page_ptr m p + of_nat (16 * j))) [0..<length (n_inodes n)]
        = map (inode_view m) (n_inodes n)"
proof -
  let ?is = "n_inodes n" and ?q = "Page_ptr m p" and ?h = "write_header m n p"
  let ?N = "body_size ?is"
  have N: "?N < 2 ^ 32" and dis: "region p 32 \<inter> region ?q ?N = {}" and len: "length ?is \<le> 0xffff"
    and src: "src_sep ?q ?N ?is" and srch: "src_sep p 32 ?is"
    using assms by (simp_all add: leaf_writable_def)
  have view: "map (inode_view ?h) ?is = map (inode_view m) ?is"
    by (rule src_sep_view [OF srch write_header_frame])
  show ?thesis
  proof (cases "?is = []")
    case True
    then show ?thesis using len by (simp add: Node_write_eq write_header_frame)
  next
    case False
    have "\<exists>m'. write_loop ?h p True 0 (?q + of_nat (16 * length ?is)) ?is = Inr m'
      \<and> (\<forall>x. x \<notin> region (?q + of_nat (16 * 0)) (16 * length ?is) \<longrightarrow>
           x \<notin> region (?q + of_nat (16 * length ?is)) (data_size ?is) \<longrightarrow> m' x = ?h x)
      \<and> map (\<lambda>j. leaf_view m' (?q + of_nat (16 * j))) [0..<0 + length ?is] = map (inode_view ?h) ?is"
      using len by (intro write_loop_leaf [OF _ _ _ _ N dis src]) (simp_all add: body_size_def)
    then obtain m' where w: "Node_write m n p = Inr m'"
      and fr: "\<And>x. x \<notin> region ?q (16 * length ?is) \<Longrightarrow>
        x \<notin> region (?q + of_nat (16 * length ?is)) (data_size ?is) \<Longrightarrow> m' x = ?h x"
      and vw: "map (\<lambda>j. leaf_view m' (?q + of_nat (16 * j))) [0..<length ?is] = map (inode_view m) ?is"
      using assms len False view by (auto simp: Node_write_eq leaf_writable_def simp del: of_nat_mult)
    have sub: "region ?q (16 * length ?is) \<subseteq> region ?q ?N"
      "region (?q + of_nat (16 * length ?is)) (data_size ?is) \<subseteq> region ?q ?N"
      using region_mono [of "16 * length ?is" ?N ?q] N
        region_sub [of "16 * length ?is" "data_size ?is" ?N ?q] by (simp_all add: body_size_def)
    have fr1: "m' x = ?h x" if "x \<notin> region ?q ?N" for x
      using that sub by (intro fr) blast+
    have "m' x = m x" if "x \<notin> region p 32" "x \<notin> region ?q ?N" for x
      using fr1 [OF that(2)] write_header_frame [OF that(1)] by simp
    moreover have "\<forall>x \<in> region p 32. m' x = ?h x" using dis by (intro ballI fr1) blast
    ultimately show ?thesis using w vw by blast
  qed
qed

section \<open>Reading\<close>

lemma read_loop_ok:
  assumes "\<And>j. i \<le> j \<Longrightarrow> j < i + k \<Longrightarrow> s_size (in_key (read_inode m p leaf (junk j) j)) > 0"
  shows "read_loop m p leaf junk i k acc
    = Inr (acc @ map (\<lambda>j. read_inode m p leaf (junk j) j) [i..<i + k])"
  using assms
proof (induction k arbitrary: i acc)
  case 0
  then show ?case by simp
next
  case (Suc k)
  have "[i..<i + Suc k] = i # [Suc i..<Suc i + k]" by (simp add: upt_conv_Cons del: upt_Suc)
  moreover have "\<not> s_size (in_key (read_inode m p leaf (junk i) i)) \<le> 0"
    using Suc.prems [of i] by (simp only: not_le)
  ultimately show ?case
    using Suc.IH [of "Suc i" "acc @ [read_inode m p leaf (junk i) i]"] Suc.prems
    by (simp only: read_loop.simps Let_def if_False) simp
qed

lemma read_inode_leaf_view:
  "j \<le> 0xffff \<Longrightarrow> inode_view m (read_inode m p True junk j) = leaf_view m (Page_ptr m p + of_nat (16 * j))"
  by (simp add: read_inode_def Let_def inode_view_def leaf_view_def elem_addr)

text \<open>A page that shows a list of inodes with non-empty keys is read as a leaf with those inodes.\<close>

lemma Node_read_leaf:
  assumes flag: "Page_flags m' p AND LeafPageFlag \<noteq> 0" and cnt: "Page_count m' p = of_nat (length ns)"
    and len: "length ns \<le> 0xffff"
    and vw: "map (\<lambda>j. leaf_view m' (Page_ptr m' p + of_nat (16 * j))) [0..<length ns] = map (inode_view m) ns"
    and ne: "list_all (\<lambda>i. s_size (in_key i) > 0) ns"
  shows "\<exists>n'. Node_read m' junk n0 p = Inr n' \<and> n_isLeaf n' \<and> n_id n' = Page_id m' p \<and>
    map (inode_view m') (n_inodes n') = map (inode_view m) ns \<and>
    (if ns = [] then n_key n' = n_key n0 else slice_bytes m' (n_key n') = slice_bytes m (in_key (ns ! 0)))"
proof -
  let ?r = "\<lambda>j. read_inode m' p True (junk j) j"
  have v: "inode_view m' (?r j) = inode_view m (ns ! j)" if "j < length ns" for j
    using that len arg_cong [OF vw, of "\<lambda>xs. xs ! j"] by (simp add: read_inode_leaf_view del: of_nat_mult)
  then have k: "slice_bytes m' (in_key (?r j)) = slice_bytes m (in_key (ns ! j))" if "j < length ns" for j
    using that by (simp add: inode_view_def)
  have pos: "s_size (in_key (?r j)) > 0" if "j < length ns" for j
  proof -
    have "unat (s_size (in_key (?r j))) = unat (s_size (in_key (ns ! j)))"
      using arg_cong [OF k [OF that], of length] by simp
    moreover have "s_size (in_key (ns ! j)) > 0" using ne that by (simp add: list_all_length)
    ultimately show ?thesis by (simp add: word_less_nat_alt)
  qed
  have c: "unat (Page_count m' p) = length ns" using cnt len by (simp add: unat_of_nat)
  have l: "read_loop m' p True junk 0 (length ns) [] = Inr (map ?r [0..<length ns])"
    using read_loop_ok [of 0 "length ns" m' p True junk "[]"] pos by simp
  have vs: "map (inode_view m') (map ?r [0..<length ns]) = map (inode_view m) ns"
    using v by (intro nth_equalityI) simp_all
  show ?thesis
  proof (cases "ns = []")
    case True
    then show ?thesis using flag c l by (simp add: Node_read_def)
  next
    case False
    then show ?thesis using flag c l vs pos [of 0] k [of 0] by (simp add: Node_read_def)
  qed
qed

text \<open>
  C3. Round trip of a leaf page: a leaf node whose keys are not empty, written to a page whose data
  area lies apart from the header and from the bytes its slices refer to, is read back from that
  page as a leaf with the page's id, with the same flags, keys and values in the same order, and
  with its first key as the node's key; whatever the node object and the indeterminate locals held
  before.
\<close>

theorem Node_write_read_leaf:
  assumes "leaf_writable m n p" and "list_all (\<lambda>i. s_size (in_key i) > 0) (n_inodes n)"
  shows "\<exists>m' n'. Node_write m n p = Inr m' \<and> Node_read m' junk n0 p = Inr n' \<and>
    n_isLeaf n' \<and> n_id n' = Page_id m p \<and>
    map (inode_view m') (n_inodes n') = map (inode_view m) (n_inodes n) \<and>
    (if n_inodes n = [] then n_key n' = n_key n0
     else slice_bytes m' (n_key n') = slice_bytes m (in_key (n_inodes n ! 0)))"
proof -
  let ?is = "n_inodes n"
  obtain m' where w: "Node_write m n p = Inr m'"
    and h: "\<And>x. x \<in> region p 32 \<Longrightarrow> m' x = write_header m n p x"
    and vw: "map (\<lambda>j. leaf_view m' (Page_ptr m p + of_nat (16 * j))) [0..<length ?is] = map (inode_view m) ?is"
    using Node_write_leaf [OF assms(1)] by blast
  note g = page_getter_congs [of p m' "write_header m n p", OF h]
  have ptr: "Page_ptr m' p = Page_ptr m p" and pid: "Page_id m' p = Page_id m p"
    and cnt: "Page_count m' p = of_nat (length ?is)" using g by simp_all
  have flag: "Page_flags m' p AND LeafPageFlag \<noteq> 0"
  proof
    assume "Page_flags m' p AND LeafPageFlag = 0"
    then have "(Page_flags m p OR LeafPageFlag) AND LeafPageFlag = 0"
      using g(2) assms(1) by (simp add: leaf_writable_def)
    then show False by (simp add: bit.conj_disj_distrib2 or_eq_0_iff LeafPageFlag_def)
  qed
  have len: "length ?is \<le> 0xffff" using assms(1) by (simp add: leaf_writable_def)
  show ?thesis
    using w pid Node_read_leaf [OF flag cnt len vw [folded ptr] assms(2), of junk n0] by auto
qed

text \<open>
  C10. Bounds of a leaf write: it succeeds and changes no byte outside the 32-byte page header and the
  \<^verbatim>\<open>size() - 24\<close> bytes at the page's data pointer (\<^verbatim>\<open>size()\<close> counts a header of 24 bytes), and the
  header keeps its id and data pointer and gets the leaf flag, the number of inodes and no overflow.
\<close>

theorem Node_write_leaf_bounds:
  assumes "leaf_writable m n p" and "24 + body_size (n_inodes n) < 2 ^ 31"
  shows "\<exists>m'. Node_write m n p = Inr m' \<and>
    (\<forall>x. m' x \<noteq> m x \<longrightarrow> x \<in> region p 32 \<union> region (Page_ptr m p) (nat (Node_size n) - 24)) \<and>
    Page_id m' p = Page_id m p \<and> Page_ptr m' p = Page_ptr m p \<and>
    Page_flags m' p = Page_flags m p OR LeafPageFlag \<and>
    unat (Page_count m' p) = length (n_inodes n) \<and> Page_overflow m' p = 0"
proof -
  obtain m' where w: "Node_write m n p = Inr m'"
    and fr: "\<And>x. x \<notin> region p 32 \<Longrightarrow> x \<notin> region (Page_ptr m p) (body_size (n_inodes n)) \<Longrightarrow> m' x = m x"
    and h: "\<And>x. x \<in> region p 32 \<Longrightarrow> m' x = write_header m n p x"
    using Node_write_leaf [OF assms(1)] by blast
  have "nat (Node_size n) - 24 = body_size (n_inodes n)" using Node_size_eq [OF assms(2)] by simp
  then have "\<forall>x. m' x \<noteq> m x \<longrightarrow> x \<in> region p 32 \<union> region (Page_ptr m p) (nat (Node_size n) - 24)"
    using fr by auto
  moreover have "length (n_inodes n) \<le> 0xffff" "n_isLeaf n" using assms(1) by (simp_all add: leaf_writable_def)
  ultimately show ?thesis
    using w page_getter_congs [of p m' "write_header m n p", OF h] by (simp add: unat_of_nat)
qed

section \<open>Branch nodes\<close>

text \<open>One element of a branch, on a page whose header is not in reach of the stores.\<close>

lemma write_branch_elem_spec:
  assumes "Page_ptr m p = q" and "i \<le> 0xffff" and "region p 32 \<inter> region (q + of_nat (16 * i)) 16 = {}"
  shows "if in_id n = Page_id m p
    then \<exists>m1. write_branch_elem m p i b n = Inr m1 \<and> (\<forall>x \<in> region p 32. m1 x = m x)
    else write_branch_elem m p i b n = Inl (Exit 1)"
proof -
  let ?e = "q + of_nat (16 * i)"
  let ?m = "store_u32 (store_u64 (store_u32 m (?e + 4) (ucast (s_size (in_key n)))) (?e + 8) (in_id n))
     ?e (ucast (b - ?e))"
  have e: "Page_branchPageElement m p (of_nat i) = ?e" using assms(1,2) by (simp add: elem_addr)
  have fr: "?m x = m x" if "x \<in> region p 32" for x
  proof -
    have "x \<notin> region ?e 16" using that assms(3) by blast
    then have "x \<notin> region ?e 4" "x \<notin> region (?e + 8) 8" "x \<notin> region (?e + 4) 4"
      using region_mono [of 4 16 ?e] region_sub_field [of 8 8 16 ?e] region_sub_field [of 4 4 16 ?e] by auto
    then show ?thesis by (simp add: store_frames)
  qed
  have "load_u64 ?m (?e + 8) = in_id n" by (simp add: load_store_same load_store_other region_disjointI)
  moreover have "Page_id ?m p = Page_id m p" by (rule page_getter_congs(1) [OF fr])
  ultimately show ?thesis
    using fr by (auto simp: write_branch_elem_def Let_def e simp del: of_nat_mult)
qed

lemma write_loop_branch:
  assumes "Page_ptr m p = q" and "i + length ns \<le> 0xffff" and "16 * (i + length ns) \<le> off"
    and "off + data_size ns \<le> N" and "N < 2 ^ 32" and "region p 32 \<inter> region q N = {}"
  shows "if list_all (\<lambda>n. in_id n = Page_id m p) ns
    then \<exists>m'. write_loop m p False i (q + of_nat off) ns = Inr m'
    else write_loop m p False i (q + of_nat off) ns = Inl (Exit 1)"
  using assms
proof (induction ns arbitrary: m i off)
  case Nil
  then show ?case by simp
next
  case (Cons n ns)
  let ?b = "q + of_nat off"
  have inN: "region (q + of_nat (16 * i)) 16 \<subseteq> region q N" "region ?b (kv_size n) \<subseteq> region q N"
    using region_sub [of "16 * i" 16 N q] region_sub [of off "kv_size n" N q] Cons.prems(2-5) by simp_all
  have "region p 32 \<inter> region (q + of_nat (16 * i)) 16 = {}" using inN(1) Cons.prems(6) by blast
  then have st: "if in_id n = Page_id m p
    then \<exists>m1. write_branch_elem m p i ?b n = Inr m1 \<and> (\<forall>x \<in> region p 32. m1 x = m x)
    else write_branch_elem m p i ?b n = Inl (Exit 1)"
    using Cons.prems(2) by (intro write_branch_elem_spec [OF Cons.prems(1)]) simp_all
  show ?case
  proof (cases "in_id n = Page_id m p")
    case False
    then show ?thesis using st by simp
  next
    case True
    then obtain m1 where w: "write_branch_elem m p i ?b n = Inr m1" and fr: "\<forall>x \<in> region p 32. m1 x = m x"
      using st by auto
    have h: "copy_kv m1 ?b n x = m x" if "x \<in> region p 32" for x
    proof -
      have "x \<notin> region ?b (kv_size n)" using that inN(2) Cons.prems(6) by blast
      then show ?thesis using copy_kv_frame [of x ?b n m1] that fr Cons.prems(4,5) by simp
    qed
    note g = page_getter_congs [of p "copy_kv m1 ?b n" m, OF h]
    have b': "?b + s_size (in_key n) + s_size (in_value n) = q + of_nat (off + kv_size n)"
      by (simp add: kv_size_def add.assoc)
    have "if list_all (\<lambda>n'. in_id n' = Page_id (copy_kv m1 ?b n) p) ns
      then \<exists>m'. write_loop (copy_kv m1 ?b n) p False (Suc i) (q + of_nat (off + kv_size n)) ns = Inr m'
      else write_loop (copy_kv m1 ?b n) p False (Suc i) (q + of_nat (off + kv_size n)) ns = Inl (Exit 1)"
      using Cons.prems g(5) by (intro Cons.IH) simp_all
    then show ?thesis using True w g(1) by (simp only: write_loop.simps b' bindE_simps if_False list.pred_inject) simp
  qed
qed

text \<open>
  C39. Writing a branch: the check meant to catch a child that is the page itself is inverted, so
  the write ends the process with status 1 unless every child id is the id of the page being
  written. A branch whose children are other pages is never written.
\<close>

theorem Node_write_branch_check:
  assumes "\<not> n_isLeaf n" and "length (n_inodes n) \<le> 0xffff" and "body_size (n_inodes n) < 2 ^ 32"
    and "region p 32 \<inter> region (Page_ptr m p) (body_size (n_inodes n)) = {}"
  shows "if list_all (\<lambda>i. in_id i = Page_id m p) (n_inodes n)
    then \<exists>m'. Node_write m n p = Inr m' else Node_write m n p = Inl (Exit 1)"
proof (cases "n_inodes n = []")
  case True
  then show ?thesis by (simp add: Node_write_eq)
next
  case False
  let ?h = "write_header m n p" and ?is = "n_inodes n"
  have "if list_all (\<lambda>i. in_id i = Page_id ?h p) ?is
    then \<exists>m'. write_loop ?h p False 0 (Page_ptr m p + of_nat (16 * length ?is)) ?is = Inr m'
    else write_loop ?h p False 0 (Page_ptr m p + of_nat (16 * length ?is)) ?is = Inl (Exit 1)"
    using assms(2) by (intro write_loop_branch [OF _ _ _ _ assms(3,4)]) (simp_all add: body_size_def)
  then show ?thesis using False assms(1,2) by (simp add: Node_write_eq del: of_nat_mult)
qed

text \<open>
  C40. Reading a page without the leaf flag: the element's key goes to a shadowing variable, the
  pushed inode keeps its empty default key, and the zero-length check ends the process with status
  1 on the first element. Only an empty branch page can be read.
\<close>

theorem Node_read_branch_exits:
  assumes "Page_flags m p AND LeafPageFlag = 0"
  shows "Node_read m junk n p =
    (if Page_count m p = 0 then Inr (n\<lparr>n_id := Page_id m p, n_isLeaf := False, n_inodes := []\<rparr>)
     else Inl (Exit 1))"
proof (cases "unat (Page_count m p)")
  case 0
  then have "Page_count m p = 0" by (simp add: unat_eq_0)
  then show ?thesis using assms by (simp add: Node_read_def)
next
  case (Suc k)
  then have "Page_count m p \<noteq> 0" by auto
  then show ?thesis
    using assms Suc by (simp add: Node_read_def read_inode_def Slice_default_def Let_def)
qed

section \<open>A concrete page\<close>

text \<open>A page at 4096 with its data area at 8192; two keys and values at 100.\<close>

definition test_page_mem :: mem where
  "test_page_mem = Page_ctor (write_bytes (\<lambda>_. 0) 100 [97, 97, 97, 98, 118, 119]) 4096 3 0 8192"

definition test_leaf :: Node where
  "test_leaf = test_node\<lparr>n_isLeaf := True, n_inodes :=
     [\<lparr>in_flags = 1, in_id = 0, in_key = Slice_make 100 2, in_value = Slice_make 104 1\<rparr>,
      \<lparr>in_flags = 0, in_id = 0, in_key = Slice_make 102 2, in_value = Slice_make 105 1\<rparr>]\<rparr>"

lemma test_leaf_writable: "leaf_writable test_page_mem test_leaf 4096"
  by (simp add: leaf_writable_def test_page_mem_def test_leaf_def body_size_def kv_size_def Slice_make_def
      src_sep_def slice_region_def region_disjointI)

lemma test_leaf_views:
  "map (inode_view test_page_mem) (n_inodes test_leaf) = [(1, [97, 97], [118]), (0, [97, 98], [119])]"
  by (simp add: inode_view_def test_leaf_def test_page_mem_def Slice_make_def slice_bytes_def mem_eval
      Page_ctor_def page_setter_defs store_frames region_def)

theorem Node_write_read_leaf_witness:
  "\<exists>m' n'. Node_write test_page_mem test_leaf 4096 = Inr m' \<and>
    Node_read m' (\<lambda>_. INode_zero) test_node 4096 = Inr n' \<and> n_id n' = 3 \<and>
    map (inode_view m') (n_inodes n') = [(1, [97, 97], [118]), (0, [97, 98], [119])]"
proof -
  have "list_all (\<lambda>i. s_size (in_key i) > 0) (n_inodes test_leaf)"
    by (simp add: test_leaf_def Slice_make_def)
  moreover have "Page_id test_page_mem 4096 = 3" by (simp add: test_page_mem_def)
  ultimately show ?thesis
    using Node_write_read_leaf [OF test_leaf_writable, of "\<lambda>_. INode_zero" test_node]
    unfolding test_leaf_views by auto
qed

theorem Node_write_leaf_bounds_witness:
  "\<exists>m'. Node_write test_page_mem test_leaf 4096 = Inr m' \<and> m' 7777 = test_page_mem 7777
     \<and> Page_id m' 4096 = 3"
proof -
  have "24 + body_size (n_inodes test_leaf) < 2 ^ 31" and "nat (Node_size test_leaf) - 24 = 38"
    using Node_size_eq [of test_leaf]
    by (simp_all add: test_leaf_def body_size_def kv_size_def Slice_make_def)
  moreover have "Page_id test_page_mem 4096 = 3" "Page_ptr test_page_mem 4096 = 8192"
    by (simp_all add: test_page_mem_def)
  moreover have "7777 \<notin> region 4096 32 \<union> region 8192 38" by (simp add: region_def)
  ultimately show ?thesis using Node_write_leaf_bounds [OF test_leaf_writable] by metis
qed

theorem Node_write_branch_check_witness:
  "Node_write test_page_mem (test_leaf\<lparr>n_isLeaf := False\<rparr>) 4096 = Inl (Exit 1)"
proof -
  let ?n = "test_leaf\<lparr>n_isLeaf := False\<rparr>"
  have "region 4096 32 \<inter> region (Page_ptr test_page_mem 4096) (body_size (n_inodes ?n)) = {}"
    by (simp add: test_page_mem_def test_leaf_def body_size_def kv_size_def Slice_make_def region_disjointI)
  then have "if list_all (\<lambda>i. in_id i = Page_id test_page_mem 4096) (n_inodes ?n)
    then \<exists>m'. Node_write test_page_mem ?n 4096 = Inr m' else Node_write test_page_mem ?n 4096 = Inl (Exit 1)"
    by (intro Node_write_branch_check) (simp_all add: test_leaf_def body_size_def kv_size_def Slice_make_def)
  then show ?thesis by (simp add: test_leaf_def test_page_mem_def)
qed

theorem Node_read_branch_exits_witness:
  "Node_read (Page_setCount (Page_ctor (\<lambda>_. 0) 4096 3 BranchPageFlag 8192) 4096 2) (\<lambda>_. INode_zero) test_node 4096
     = Inl (Exit 1)"
  using Node_read_branch_exits [of "Page_setCount (Page_ctor (\<lambda>_. 0) 4096 3 BranchPageFlag 8192) 4096 2"
      4096 "\<lambda>_. INode_zero" test_node]
  by (simp add: BranchPageFlag_def LeafPageFlag_def)

end
