(* ===== verification/Cursor.thy ===== *)
theory Cursor
  imports Node_Map
begin

text \<open>
  \<^verbatim>\<open>cursor.h\<close> and \<^verbatim>\<open>cursor.cpp\<close>: iteration over a bucket. A cursor holds a stack of references to
  elements, from the root page or node to the current leaf element. The loops \<^verbatim>\<open>first_\<close>,
  \<^verbatim>\<open>last_\<close>, \<^verbatim>\<open>next_\<close> and the recursion of \<^verbatim>\<open>search\<close> need not end on a cyclic page graph, so they
  are partial: the value \<open>None\<close> is a call that does not return. Operations that can fail or not
  return yield \<open>'a res option\<close>.
\<close>

unbundle bit_operations_syntax

section \<open>Sequencing calls that need not return\<close>

definition bindP :: "'a res option \<Rightarrow> ('a \<Rightarrow> 'b res option) \<Rightarrow> 'b res option" where
  "bindP x f = Option.bind x (\<lambda>r. case r of Inl e \<Rightarrow> Some (Inl e) | Inr v \<Rightarrow> f v)"

lemma bindP_simps [simp]:
  "bindP None f = None" "bindP (Some (Inl e)) f = Some (Inl e)" "bindP (Some (Inr v)) f = f v"
  by (simp_all add: bindP_def)

lemma bindP_Inr_iff: "bindP x f = Some (Inr y) \<longleftrightarrow> (\<exists>v. x = Some (Inr v) \<and> f v = Some (Inr y))"
  by (cases x) (auto simp: bindP_def split: sum.splits)

lemma bindP_mono [partial_function_mono]:
  assumes "mono_option B" and "\<And>y. mono_option (\<lambda>f. C y f)"
  shows "mono_option (\<lambda>f. bindP (B f) (\<lambda>y. C y f))"
  unfolding bindP_def
proof (rule bind_mono [OF assms(1)])
  fix r :: "fault + 'c"
  show "mono_option (\<lambda>f. case r of Inl e \<Rightarrow> Some (Inl e) | Inr v \<Rightarrow> C v f)"
    using assms(2) by (cases r) (simp_all add: option.const_mono)
qed

section \<open>Element references\<close>

record elemRef =
  er_page :: addr
  er_node :: addr
  er_index :: int

record Cursor =
  c_bucket :: addr
  c_stack :: "elemRef list"

definition Cursor_bucket :: "Cursor \<Rightarrow> addr" where
  "Cursor_bucket c = c_bucket c"

definition page_ok :: "addr \<Rightarrow> unit res" where
  "page_ok p = (if p = nullptr then Inl UB else Inr ())"

definition elemRef_isLeaf :: "world \<Rightarrow> elemRef \<Rightarrow> bool res" where
  "elemRef_isLeaf w r =
     (if er_node r \<noteq> nullptr then bindE (get_node w (er_node r)) (\<lambda>n. Inr (n_isLeaf n))
      else bindE (page_ok (er_page r)) (\<lambda>_. Inr (Page_flags (w_mem w) (er_page r) AND LeafPageFlag \<noteq> 0)))"

definition elemRef_count :: "world \<Rightarrow> elemRef \<Rightarrow> int res" where
  "elemRef_count w r =
     (if er_node r \<noteq> nullptr then bindE (get_node w (er_node r)) (\<lambda>n. Inr (Node_numChildren n))
      else bindE (page_ok (er_page r)) (\<lambda>_. Inr (int_of_u32 (Page_count (w_mem w) (er_page r)))))"

text \<open>\<^verbatim>\<open>count() - 1\<close> in \<^verbatim>\<open>int\<close> arithmetic.\<close>

definition int_pred :: "int \<Rightarrow> int res" where
  "int_pred i = (if i = - (2 ^ 31) then Inl UB else Inr (i - 1))"

text \<open>\<^verbatim>\<open>stack_.back()\<close>\<close>

definition stack_back :: "'a list \<Rightarrow> 'a res" where
  "stack_back xs = (if xs = [] then Inl UB else Inr (last xs))"

text \<open>The id of the child an element reference of a branch points to; a page index is a 16-bit argument.\<close>

definition elemRef_child :: "world \<Rightarrow> elemRef \<Rightarrow> pgid_t res" where
  "elemRef_child w r =
     (if er_node r \<noteq> nullptr
      then bindE (get_node w (er_node r)) (\<lambda>n. bindE (vec_at (n_inodes n) (er_index r)) (\<lambda>i. Inr (in_id i)))
      else bindE (page_ok (er_page r)) (\<lambda>_.
        Inr (be_id (load_branch (w_mem w) (Page_branchPageElement (w_mem w) (er_page r) (of_int (er_index r)))))))"

definition Cursor_page_node :: "world \<Rightarrow> Cursor \<Rightarrow> pgid_t \<Rightarrow> (addr \<times> addr) res" where
  "Cursor_page_node w c pid = bindE (get_bucket w (c_bucket c)) (\<lambda>b. Bucket_page_node w b pid)"

text \<open>\<^verbatim>\<open>assert(this->bucket_->tx()->db() != nullptr)\<close>\<close>

definition assert_open :: "world \<Rightarrow> Cursor \<Rightarrow> unit res" where
  "assert_open w c =
     bindE (get_bucket w (c_bucket c)) (\<lambda>b. bindE (get_tx w (Bucket_tx b)) (\<lambda>t.
       if tx_db t = nullptr then Inl AssertFail else Inr ()))"

section \<open>Reading the current element\<close>

type_synonym kvf = "Slice option \<times> Slice option \<times> u32"
type_synonym kv = "Slice option \<times> Slice option"

definition Cursor_keyValue :: "world \<Rightarrow> Cursor \<Rightarrow> kvf res" where
  "Cursor_keyValue w c =
     bindE (stack_back (c_stack c)) (\<lambda>r. bindE (elemRef_count w r) (\<lambda>n.
       if n = 0 \<or> er_index r \<ge> n then Inr (None, None, 0)
       else if er_node r \<noteq> nullptr
       then bindE (get_node w (er_node r)) (\<lambda>nd. bindE (vec_at (n_inodes nd) (er_index r)) (\<lambda>i.
              Inr (Some (in_key i), Some (in_value i), in_flags i)))
       else let elem = Page_leafPageElement (w_mem w) (er_page r) (of_int (er_index r))
            in Inr (Some (LeafPageElement_key (w_mem w) elem), Some (LeafPageElement_value (w_mem w) elem),
                    le_flags (load_leaf (w_mem w) elem))))"

text \<open>The end of \<^verbatim>\<open>first\<close>, \<^verbatim>\<open>next\<close>, \<^verbatim>\<open>prev\<close> and \<^verbatim>\<open>last\<close>: the value of a nested bucket is not shown.\<close>

definition hide_bucket :: "kvf \<Rightarrow> kv" where
  "hide_bucket x = (case x of (k, v, flags) \<Rightarrow> if flags AND BucketLeafFlag \<noteq> 0 then (k, None) else (k, v))"

section \<open>Moving\<close>

definition push_child :: "world \<Rightarrow> Cursor \<Rightarrow> elemRef \<Rightarrow> (elemRef \<Rightarrow> int res) \<Rightarrow> Cursor res" where
  "push_child w c r index =
     bindE (elemRef_child w r) (\<lambda>pid. bindE (Cursor_page_node w c pid) (\<lambda>(p, n).
       let elem = \<lparr>er_page = p, er_node = n, er_index = 0\<rparr>
       in bindE (index elem) (\<lambda>i. Inr (c\<lparr>c_stack := c_stack c @ [elem\<lparr>er_index := i\<rparr>]\<rparr>))))"

definition last_index :: "world \<Rightarrow> elemRef \<Rightarrow> int res" where
  "last_index w elem = bindE (elemRef_count w elem) int_pred"

partial_function (option) Cursor_to_first :: "world \<Rightarrow> Cursor \<Rightarrow> Cursor res option" where
  "Cursor_to_first w c =
     bindP (Some (stack_back (c_stack c))) (\<lambda>r. bindP (Some (elemRef_isLeaf w r)) (\<lambda>leaf.
       if leaf then Some (Inr c)
       else bindP (Some (push_child w c r (\<lambda>_. Inr 0))) (\<lambda>c'. Cursor_to_first w c')))"

partial_function (option) Cursor_to_last :: "world \<Rightarrow> Cursor \<Rightarrow> Cursor res option" where
  "Cursor_to_last w c =
     bindP (Some (stack_back (c_stack c))) (\<lambda>r. bindP (Some (elemRef_isLeaf w r)) (\<lambda>leaf.
       if leaf then Some (Inr c)
       else bindP (Some (push_child w c r (last_index w))) (\<lambda>c'. Cursor_to_last w c')))"

text \<open>
  The inner loop of \<^verbatim>\<open>next_\<close> and the \<^verbatim>\<open>erase\<close> after it, on the reversed stack: the topmost reference
  that has a next element is advanced and everything above it dropped; \<open>None\<close> when there is none.
\<close>

fun climb :: "world \<Rightarrow> elemRef list \<Rightarrow> elemRef list option res" where
  "climb w [] = Inr None"
| "climb w (r # rs) =
     bindE (elemRef_count w r) (\<lambda>n. bindE (int_pred n) (\<lambda>l.
       if er_index r < l then Inr (Some (r\<lparr>er_index := er_index r + 1\<rparr> # rs)) else climb w rs))"

partial_function (option) next_loop :: "world \<Rightarrow> Cursor \<Rightarrow> (Cursor \<times> kvf) res option" where
  "next_loop w c =
     bindP (Some (climb w (rev (c_stack c)))) (\<lambda>s.
       case s of
         None \<Rightarrow> Some (Inr (c, None, None, 0))
       | Some rs \<Rightarrow>
           bindP (Cursor_to_first w (c\<lparr>c_stack := rev rs\<rparr>)) (\<lambda>c1.
           bindP (Some (bindE (stack_back (c_stack c1)) (elemRef_count w))) (\<lambda>n.
             if n = 0 then next_loop w c1
             else Some (bindE (Cursor_keyValue w c1) (\<lambda>x. Inr (c1, x))))))"

definition Cursor_next_leaf :: "world \<Rightarrow> Cursor \<Rightarrow> (Cursor \<times> kvf) res option" where
  "Cursor_next_leaf w c = (if length (c_stack c) > 0 then next_loop w c else Some (Inl AssertFail))"

text \<open>The public operations return the moved cursor and the key and value.\<close>

definition Cursor_start :: "world \<Rightarrow> Cursor \<Rightarrow> (elemRef \<Rightarrow> int res) \<Rightarrow> Cursor res" where
  "Cursor_start w c index =
     bindE (assert_open w c) (\<lambda>_. bindE (get_bucket w (c_bucket c)) (\<lambda>b.
     bindE (Bucket_page_node w b (Bucket_root b)) (\<lambda>(p, n).
       let elem = \<lparr>er_page = p, er_node = n, er_index = 0\<rparr>
       in bindE (index elem) (\<lambda>i. Inr (c\<lparr>c_stack := [elem\<lparr>er_index := i\<rparr>]\<rparr>)))))"

definition Cursor_first :: "world \<Rightarrow> Cursor \<Rightarrow> (Cursor \<times> kv) res option" where
  "Cursor_first w c =
     bindP (Some (Cursor_start w c (\<lambda>_. Inr 0))) (\<lambda>c1.
     bindP (Cursor_to_first w c1) (\<lambda>c2.
     bindP (Some (bindE (stack_back (c_stack c2)) (elemRef_count w))) (\<lambda>n.
     bindP (if n = 0 then bindP (Cursor_next_leaf w c2) (\<lambda>(c3, _). Some (Inr c3)) else Some (Inr c2)) (\<lambda>c3.
     bindP (Some (Cursor_keyValue w c3)) (\<lambda>x. Some (Inr (c3, hide_bucket x)))))))"

definition Cursor_next :: "world \<Rightarrow> Cursor \<Rightarrow> (Cursor \<times> kv) res option" where
  "Cursor_next w c =
     bindP (Some (assert_open w c)) (\<lambda>_. bindP (Cursor_next_leaf w c) (\<lambda>(c1, x).
       Some (Inr (c1, hide_bucket x))))"

definition Cursor_last :: "world \<Rightarrow> Cursor \<Rightarrow> (Cursor \<times> kv) res option" where
  "Cursor_last w c =
     bindP (Some (Cursor_start w c (last_index w))) (\<lambda>c1.
     bindP (Cursor_to_last w c1) (\<lambda>c2.
     bindP (Some (Cursor_keyValue w c2)) (\<lambda>x. Some (Inr (c2, hide_bucket x)))))"

text \<open>The loop of \<^verbatim>\<open>prev\<close> on the reversed stack.\<close>

fun prev_climb :: "elemRef list \<Rightarrow> elemRef list" where
  "prev_climb [] = []"
| "prev_climb (r # rs) = (if er_index r > 0 then r\<lparr>er_index := er_index r - 1\<rparr> # rs else prev_climb rs)"

definition Cursor_prev :: "world \<Rightarrow> Cursor \<Rightarrow> (Cursor \<times> kv) res option" where
  "Cursor_prev w c =
     bindP (Some (assert_open w c)) (\<lambda>_.
       let c1 = c\<lparr>c_stack := rev (prev_climb (rev (c_stack c)))\<rparr>
       in if length (c_stack c1) = 0 then Some (Inr (c1, None, None))
          else bindP (Cursor_last w c1) (\<lambda>(c2, _).
               bindP (Some (Cursor_keyValue w c2)) (\<lambda>x. Some (Inr (c2, hide_bucket x)))))"

section \<open>Searching\<close>

text \<open>
  \<^verbatim>\<open>searchPage\<close> and \<^verbatim>\<open>nsearch\<close> copy the page's elements into a local vector and search the copies;
  an element finds its key relative to its own address, so the keys compared are those at the
  copy's address. \<open>buf\<close> is where the vector's storage is: the world during the search has the
  element bytes there too.
\<close>

definition copy_elems :: "world \<Rightarrow> addr \<Rightarrow> addr \<Rightarrow> world" where
  "copy_elems w p buf =
     w\<lparr>w_mem := write_bytes (w_mem w) buf
        (read_bytes (w_mem w) (Page_ptr (w_mem w) p) (16 * unat (Page_count (w_mem w) p)))\<rparr>"

definition set_index :: "Cursor \<Rightarrow> int \<Rightarrow> Cursor" where
  "set_index c i = c\<lparr>c_stack := butlast (c_stack c) @ [(last (c_stack c))\<lparr>er_index := i\<rparr>]\<rparr>"

text \<open>The position of a key among \<open>n\<close> separators: the exact match, else the one before the lower bound.\<close>

definition branch_index :: "(nat \<Rightarrow> bool) \<Rightarrow> (nat \<Rightarrow> bool) \<Rightarrow> nat \<Rightarrow> int" where
  "branch_index lt eqk n =
     (let first = lower_bound lt n;
          exact = (first \<noteq> n \<and> eqk first);
          index = int_of_size first
      in if \<not> exact \<and> index > 0 then index - 1 else index)"

text \<open>\<^verbatim>\<open>searchNode\<close> and \<^verbatim>\<open>searchPage\<close> up to their recursive call, whose page id they return.\<close>

definition Cursor_searchNode :: "world \<Rightarrow> Cursor \<Rightarrow> Slice \<Rightarrow> Node \<Rightarrow> (Cursor \<times> pgid_t) res" where
  "Cursor_searchNode w c key n =
     (let index = branch_index (\<lambda>i. INode_less_key (w_mem w) (n_inodes n ! i) key)
                    (\<lambda>i. INode_eq_key (w_mem w) (n_inodes n ! i) key) (length (n_inodes n));
          c1 = set_index c index
      in bindE (vec_at (n_inodes n) index) (\<lambda>i. Inr (c1, in_id i)))"

definition Cursor_searchPage :: "world \<Rightarrow> Cursor \<Rightarrow> Slice \<Rightarrow> addr \<Rightarrow> addr \<Rightarrow> (Cursor \<times> pgid_t) res" where
  "Cursor_searchPage w c key p buf =
     (let inodes = Page_branchPageElements (w_mem w) p;
          m = w_mem (copy_elems w p buf);
          index = branch_index (\<lambda>i. BranchPageElement_less_key m (buf + 16 * of_nat i) key)
                    (\<lambda>i. BranchPageElement_eq_key m (buf + 16 * of_nat i) key) (length inodes);
          c1 = set_index c index
      in bindE (vec_at inodes index) (\<lambda>e. Inr (c1, be_id e)))"

definition Cursor_nsearch :: "world \<Rightarrow> Cursor \<Rightarrow> Slice \<Rightarrow> addr \<Rightarrow> Cursor res" where
  "Cursor_nsearch w c key buf =
     bindE (stack_back (c_stack c)) (\<lambda>r.
       if er_node r \<noteq> nullptr
       then bindE (get_node w (er_node r)) (\<lambda>n.
              Inr (set_index c (int_of_size
                (lower_bound (\<lambda>i. INode_less_key (w_mem w) (n_inodes n ! i) key) (length (n_inodes n))))))
       else let inodes = Page_leafPageElements (w_mem w) (er_page r);
                m = w_mem (copy_elems w (er_page r) buf)
            in Inr (set_index c (int_of_size
                 (lower_bound (\<lambda>i. LeafPageElement_less_key m (buf + 16 * of_nat i) key) (length inodes)))))"

text \<open>
  \<^verbatim>\<open>search\<close> without the recursion: the page or node of \<open>pid\<close> is pushed; on a leaf the search ends
  there (\<open>None\<close>), on a branch it goes on with a child id, in the world that has the copied elements.
\<close>

definition Cursor_search_step ::
    "world \<Rightarrow> Cursor \<Rightarrow> Slice \<Rightarrow> pgid_t \<Rightarrow> addr \<Rightarrow> (Cursor \<times> (world \<times> pgid_t) option) res" where
  "Cursor_search_step w c key pid buf =
     bindE (Cursor_page_node w c pid) (\<lambda>(p, n).
       if p \<noteq> nullptr \<and> Page_flags (w_mem w) p AND PageFlag_or BranchPageFlag LeafPageFlag = 0 then Inl (Exit 1)
       else
         let elem = \<lparr>er_page = p, er_node = n, er_index = 0\<rparr>;
             c1 = c\<lparr>c_stack := c_stack c @ [elem]\<rparr>
         in bindE (elemRef_isLeaf w elem) (\<lambda>leaf.
              if leaf then bindE (Cursor_nsearch w c1 key buf) (\<lambda>c2. Inr (c2, None))
              else if n \<noteq> nullptr
              then bindE (get_node w n) (\<lambda>nd. bindE (Cursor_searchNode w c1 key nd) (\<lambda>(c2, pid').
                     Inr (c2, Some (w, pid'))))
              else bindE (Cursor_searchPage w c1 key p buf) (\<lambda>(c2, pid').
                     Inr (c2, Some (copy_elems w p buf, pid')))))"

text \<open>The call at stack depth \<open>d\<close> has its vector at \<open>bufs d\<close>.\<close>

partial_function (option) Cursor_search ::
    "(nat \<Rightarrow> addr) \<Rightarrow> world \<Rightarrow> Cursor \<Rightarrow> Slice \<Rightarrow> pgid_t \<Rightarrow> Cursor res option" where
  "Cursor_search bufs w c key pid =
     bindP (Some (Cursor_search_step w c key pid (bufs (length (c_stack c))))) (\<lambda>(c1, k).
       case k of None \<Rightarrow> Some (Inr c1) | Some (w1, pid1) \<Rightarrow> Cursor_search bufs w1 c1 key pid1)"

definition Cursor_seek_leaf ::
    "(nat \<Rightarrow> addr) \<Rightarrow> world \<Rightarrow> Cursor \<Rightarrow> Slice \<Rightarrow> (Cursor \<times> kvf) res option" where
  "Cursor_seek_leaf bufs w c key =
     bindP (Some (assert_open w c)) (\<lambda>_. bindP (Some (get_bucket w (c_bucket c))) (\<lambda>b.
     bindP (Cursor_search bufs w (c\<lparr>c_stack := []\<rparr>) key (Bucket_root b)) (\<lambda>c1.
     bindP (Some (stack_back (c_stack c1))) (\<lambda>r. bindP (Some (elemRef_count w r)) (\<lambda>n.
       if er_index r \<ge> n then Some (Inr (c1, None, None, 0))
       else Some (bindE (Cursor_keyValue w c1) (\<lambda>x. Inr (c1, x))))))))"

text \<open>The end of \<^verbatim>\<open>seek\<close>: what it makes of the key, value and flags found.\<close>

definition seek_report :: "kvf \<Rightarrow> kv" where
  "seek_report x = (case x of (k, v, flags) \<Rightarrow>
     if k \<noteq> None then (None, None)
     else if flags AND BucketLeafFlag \<noteq> 0 then (k, None)
     else (k, v))"

definition Cursor_seek :: "(nat \<Rightarrow> addr) \<Rightarrow> world \<Rightarrow> Cursor \<Rightarrow> Slice \<Rightarrow> (Cursor \<times> kv) res option" where
  "Cursor_seek bufs w c key =
     bindP (Cursor_seek_leaf bufs w c key) (\<lambda>(c1, x).
     bindP (Some (stack_back (c_stack c1))) (\<lambda>r. bindP (Some (elemRef_count w r)) (\<lambda>n.
     bindP (if er_index r \<ge> n then Cursor_next_leaf w c1 else Some (Inr (c1, x))) (\<lambda>(c2, x2).
       Some (Inr (c2, seek_report x2))))))"

section \<open>Deleting\<close>

text \<open>
  The loop at the end of \<^verbatim>\<open>node\<close>: \<^verbatim>\<open>i >= 0\<close> is always true of a \<^verbatim>\<open>size_t\<close>, so after \<open>0\<close> comes an index
  outside the stack.
\<close>

fun node_loop :: "world \<Rightarrow> addr \<Rightarrow> elemRef list \<Rightarrow> nat \<Rightarrow> addr res" where
  "node_loop w n stack i =
     bindE (get_node w n) (\<lambda>nd.
       if n_isLeaf nd then Inl AssertFail
       else bindE (vec_at stack (int i)) (\<lambda>r. bindE (Node_childAt w nd n (er_index r)) (\<lambda>n'.
              if i = 0 then bindE (get_node w n') (\<lambda>nd'. if n_isLeaf nd' then Inl AssertFail else Inl UB)
              else node_loop w n' stack (i - 1))))"

declare node_loop.simps [simp del]

definition Cursor_node :: "world \<Rightarrow> Cursor \<Rightarrow> addr res" where
  "Cursor_node w c =
     (if \<not> length (c_stack c) > 9 then Inl AssertFail
      else bindE (stack_back (c_stack c)) (\<lambda>r.
        bindE (if er_node r \<noteq> nullptr then elemRef_isLeaf w r else Inr False) (\<lambda>top.
          if top then Inr (er_node r)
          else
            bindE (vec_at (c_stack c) 0) (\<lambda>r0.
            bindE (if er_node r0 \<noteq> nullptr
                   then bindE (page_ok (er_page r0)) (\<lambda>_. bindE (get_bucket w (c_bucket c)) (\<lambda>b.
                          Inr (Bucket_node b (Page_id (w_mem w) (er_page r0)) nullptr)))
                   else Inr (er_node r0)) (\<lambda>n.
            bindE (if length (c_stack c) > 1 then node_loop w n (c_stack c) (length (c_stack c) - 1) else Inr n) (\<lambda>n.
            bindE (get_node w n) (\<lambda>nd. if n_isLeaf nd then Inr n else Inl AssertFail)))))))"

definition Cursor_deleteCurrent :: "world \<Rightarrow> Cursor \<Rightarrow> world res" where
  "Cursor_deleteCurrent w c =
     bindE (get_bucket w (c_bucket c)) (\<lambda>b. bindE (get_tx w (Bucket_tx b)) (\<lambda>t.
       if tx_db t = nullptr then Inl (Throw (RuntimeError ''transaction was closed''))
       else bindE (Bucket_writable w b) (\<lambda>wr.
         if \<not> wr then Inl (Throw (RuntimeError ''transaction was not writable''))
         else bindE (Cursor_keyValue w c) (\<lambda>(key, _, flags).
           if flags AND BucketLeafFlag \<noteq> 0 then Inl (Throw (RuntimeError ''incompatible value''))
           else bindE (Cursor_node w c) (\<lambda>n.
             case key of
               None \<Rightarrow> Inl (Throw BadOptionalAccess)
             | Some k \<Rightarrow> bindE (get_node w n) (\<lambda>nd. bindE (Node_del (w_mem w) nd k) (\<lambda>nd'.
                 Inr (set_node w n nd'))))))))"

end
