(* ===== verification/Cursor_Walk.thy ===== *)
theory Cursor_Walk
  imports Cursor
begin

text \<open>
  Iteration is correct. A bucket's pages and nodes represent a tree; a cursor's stack represents a
  path in it, and with the path the entries still to come. \<^verbatim>\<open>first_\<close> keeps them, \<^verbatim>\<open>next_\<close> takes
  the first of them. Termination rests on the weight of the subtrees to the right of the path.
\<close>

unbundle bit_operations_syntax

section \<open>Trees\<close>

type_synonym ent = "Slice \<times> Slice \<times> u32"

text \<open>A branch has a separator key for each child.\<close>

datatype ptree = PLeaf "ent list" | PBranch "u8 list list" "ptree list"

fun flat :: "ptree \<Rightarrow> ent list" where
  "flat (PLeaf es) = es"
| "flat (PBranch ks ts) = concat (map flat ts)"

fun weight :: "ptree \<Rightarrow> nat" where
  "weight (PLeaf es) = 1"
| "weight (PBranch ks ts) = Suc (sum_list (map weight ts))"

definition ref_at :: "addr \<times> addr \<Rightarrow> int \<Rightarrow> elemRef" where
  "ref_at pn i = \<lparr>er_page = fst pn, er_node = snd pn, er_index = i\<rparr>"

definition show_ent :: "ent \<Rightarrow> kvf" where
  "show_ent e = (case e of (k, v, f) \<Rightarrow> (Some k, Some v, f))"

definition page_node_at :: "world \<Rightarrow> addr \<Rightarrow> pgid_t \<Rightarrow> (addr \<times> addr) res" where
  "page_node_at w bp pid = bindE (get_bucket w bp) (\<lambda>b. Bucket_page_node w b pid)"

text \<open>
  A page or node represents a tree: it has the tree's kind and number of elements, its leaf
  elements are the entries, and the bucket resolves its child ids to representations of the
  children. A branch is not empty.
\<close>

inductive tree_rep :: "world \<Rightarrow> addr \<Rightarrow> addr \<times> addr \<Rightarrow> ptree \<Rightarrow> bool" for w bp where
  leaf: "elemRef_isLeaf w (ref_at pn 0) = Inr True \<Longrightarrow>
    elemRef_count w (ref_at pn 0) = Inr (int (length es)) \<Longrightarrow>
    (\<And>i. i < length es \<Longrightarrow>
       Cursor_keyValue w \<lparr>c_bucket = bp, c_stack = [ref_at pn (int i)]\<rparr> = Inr (show_ent (es ! i))) \<Longrightarrow>
    tree_rep w bp pn (PLeaf es)"
| branch: "elemRef_isLeaf w (ref_at pn 0) = Inr False \<Longrightarrow>
    elemRef_count w (ref_at pn 0) = Inr (int (length ts)) \<Longrightarrow> ts \<noteq> [] \<Longrightarrow>
    (\<And>i. i < length ts \<Longrightarrow> \<exists>pid pn'. elemRef_child w (ref_at pn (int i)) = Inr pid \<and>
       page_node_at w bp pid = Inr pn' \<and> tree_rep w bp pn' (ts ! i)) \<Longrightarrow>
    tree_rep w bp pn (PBranch ks ts)"

inductive_cases tree_rep_leafE: "tree_rep w bp pn (PLeaf es)"
inductive_cases tree_rep_branchE: "tree_rep w bp pn (PBranch ks ts)"

section \<open>Paths\<close>

text \<open>A path is the reversed stack, each reference with the tree its page or node represents.\<close>

type_synonym path = "(elemRef \<times> ptree) list"

abbreviation ref_pn :: "elemRef \<Rightarrow> addr \<times> addr" where
  "ref_pn r \<equiv> (er_page r, er_node r)"

definition frame_ok :: "world \<Rightarrow> addr \<Rightarrow> elemRef \<times> ptree \<Rightarrow> bool" where
  "frame_ok w bp f \<longleftrightarrow> tree_rep w bp (ref_pn (fst f)) (snd f) \<and> 0 \<le> er_index (fst f) \<and>
     (case snd f of PLeaf es \<Rightarrow> True | PBranch ks ts \<Rightarrow> er_index (fst f) < int (length ts))"

definition on_path :: "world \<Rightarrow> Cursor \<Rightarrow> path \<Rightarrow> bool" where
  "on_path w c fs \<longleftrightarrow> fs \<noteq> [] \<and> list_all (frame_ok w (c_bucket c)) fs \<and> c_stack c = rev (map fst fs)"

text \<open>The entries of a tree from element \<open>i\<close> on; those after the path; those from its top on.\<close>

fun onward :: "ptree \<Rightarrow> int \<Rightarrow> ent list" where
  "onward (PLeaf es) i = drop (nat i) es"
| "onward (PBranch ks ts) i = concat (map flat (drop (nat i) ts))"

fun rest :: "path \<Rightarrow> ent list" where
  "rest [] = []"
| "rest ((r, t) # fs) = onward t (er_index r + 1) @ rest fs"

fun ahead :: "path \<Rightarrow> ent list" where
  "ahead [] = []"
| "ahead ((r, t) # fs) = onward t (er_index r) @ rest fs"

fun right_weight :: "path \<Rightarrow> nat" where
  "right_weight [] = 0"
| "right_weight ((r, PLeaf es) # fs) = right_weight fs"
| "right_weight ((r, PBranch ks ts) # fs) = sum_list (map weight (drop (nat (er_index r + 1)) ts)) + right_weight fs"

fun top_weight :: "path \<Rightarrow> nat" where
  "top_weight ((r, PBranch ks ts) # fs) = weight (ts ! nat (er_index r))"
| "top_weight fs = 0"

lemma onward_0 [simp]: "onward t 0 = flat t"
  by (cases t) simp_all

lemma isLeaf_index [simp]: "elemRef_isLeaf w (r\<lparr>er_index := i\<rparr>) = elemRef_isLeaf w r"
  by (simp add: elemRef_isLeaf_def)

lemma count_index [simp]: "elemRef_count w (r\<lparr>er_index := i\<rparr>) = elemRef_count w r"
  by (simp add: elemRef_count_def)

lemma ref_at_pn: "ref_at (ref_pn r) i = r\<lparr>er_index := i\<rparr>"
  by (simp add: ref_at_def)

lemma ref_pn_at [simp]: "ref_pn (ref_at pn i) = pn" "er_index (ref_at pn i) = i"
  by (simp_all add: ref_at_def)

lemma keyValue_top:
  "c_stack c = ss @ [r] \<Longrightarrow> Cursor_keyValue w c = Cursor_keyValue w \<lparr>c_bucket = bp, c_stack = [r]\<rparr>"
  by (simp add: Cursor_keyValue_def stack_back_def)

lemma frame_leafD:
  assumes "frame_ok w bp (r, PLeaf es)"
  shows "elemRef_isLeaf w r = Inr True" and "elemRef_count w r = Inr (int (length es))"
    and "0 \<le> er_index r"
    and "er_index r < int (length es) \<Longrightarrow> c_stack c = ss @ [r] \<Longrightarrow>
      Cursor_keyValue w c = Inr (show_ent (es ! nat (er_index r)))"
proof -
  from assms have t: "tree_rep w bp (ref_pn r) (PLeaf es)" and i: "0 \<le> er_index r"
    by (simp_all add: frame_ok_def)
  then show "0 \<le> er_index r" by simp
  from t show "elemRef_isLeaf w r = Inr True" "elemRef_count w r = Inr (int (length es))"
    by (auto elim!: tree_rep_leafE simp: ref_at_pn)
  assume lt: "er_index r < int (length es)" and c: "c_stack c = ss @ [r]"
  from t have "\<And>i. i < length es \<Longrightarrow>
      Cursor_keyValue w \<lparr>c_bucket = bp, c_stack = [ref_at (ref_pn r) (int i)]\<rparr> = Inr (show_ent (es ! i))"
    by (auto elim!: tree_rep_leafE)
  from this [of "nat (er_index r)"] lt i
  show "Cursor_keyValue w c = Inr (show_ent (es ! nat (er_index r)))"
    using keyValue_top [OF c, of w bp] by (simp add: ref_at_pn)
qed

lemma frame_branchD:
  assumes "frame_ok w bp (r, PBranch ks ts)"
  shows "elemRef_isLeaf w r = Inr False" and "elemRef_count w r = Inr (int (length ts))"
    and "0 \<le> er_index r" and "er_index r < int (length ts)"
    and "\<exists>pid pn. elemRef_child w r = Inr pid \<and> page_node_at w bp pid = Inr pn \<and>
      tree_rep w bp pn (ts ! nat (er_index r))"
proof -
  from assms have t: "tree_rep w bp (ref_pn r) (PBranch ks ts)" and i: "0 \<le> er_index r" "er_index r < int (length ts)"
    by (simp_all add: frame_ok_def)
  then show "0 \<le> er_index r" "er_index r < int (length ts)" by simp_all
  from t show "elemRef_isLeaf w r = Inr False" "elemRef_count w r = Inr (int (length ts))"
    by (auto elim!: tree_rep_branchE simp: ref_at_pn)
  from t have "\<And>i. i < length ts \<Longrightarrow> \<exists>pid pn'. elemRef_child w (ref_at (ref_pn r) (int i)) = Inr pid \<and>
       page_node_at w bp pid = Inr pn' \<and> tree_rep w bp pn' (ts ! i)"
    by (auto elim!: tree_rep_branchE)
  from this [of "nat (er_index r)"] i
  show "\<exists>pid pn. elemRef_child w r = Inr pid \<and> page_node_at w bp pid = Inr pn \<and>
      tree_rep w bp pn (ts ! nat (er_index r))"
    by (simp add: ref_at_pn)
qed

section \<open>Descending\<close>

lemma child_frame:
  assumes "tree_rep w bp pn t"
  shows "frame_ok w bp (ref_at pn 0, t)"
  using assms by (cases t) (auto simp: frame_ok_def elim!: tree_rep_branchE)

lemma onward_Cons:
  "0 \<le> i \<Longrightarrow> i < int (length ts) \<Longrightarrow>
   onward (PBranch ks ts) i = flat (ts ! nat i) @ onward (PBranch ks ts) (i + 1)"
  by (simp add: nat_add_distrib Cons_nth_drop_Suc [symmetric])

lemma top_weight_child:
  assumes "frame_ok w bp (ref_at pn 0, t)"
  shows "right_weight ((ref_at pn 0, t) # fs) + (if (\<exists>es. t = PLeaf es) then 1 else top_weight ((ref_at pn 0, t) # fs))
     \<le> right_weight fs + weight t"
proof (cases t)
  case (PBranch ks ts)
  then show ?thesis using assms by (cases ts) (simp_all add: frame_ok_def)
qed simp

text \<open>The leaf a descent reaches: the same entries are ahead, and no more weight to the right.\<close>

definition landed :: "world \<Rightarrow> Cursor \<Rightarrow> path \<Rightarrow> Cursor \<Rightarrow> elemRef \<Rightarrow> ent list \<Rightarrow> path \<Rightarrow> bool" where
  "landed w c fs c' r es fs' \<longleftrightarrow> on_path w c' ((r, PLeaf es) # fs') \<and> c_bucket c' = c_bucket c \<and>
     ahead ((r, PLeaf es) # fs') = ahead fs \<and>
     (if (\<exists>es. snd (hd fs) = PLeaf es) then (r, PLeaf es) # fs' = fs
      else er_index r = 0 \<and> right_weight fs' < right_weight fs + top_weight fs)"

lemma to_first_lands:
  assumes "on_path w c ((r, t) # fs)"
  shows "\<exists>c' r' es fs'. Cursor_to_first w c = Some (Inr c') \<and> landed w c ((r, t) # fs) c' r' es fs'"
  using assms
proof (induction "weight t" arbitrary: c r t fs rule: less_induct)
  case less
  from less.prems have top: "stack_back (c_stack c) = Inr r" and fr: "frame_ok w (c_bucket c) (r, t)"
    by (simp_all add: on_path_def stack_back_def)
  show ?case
  proof (cases t)
    case (PLeaf es)
    then have "Cursor_to_first w c = Some (Inr c)"
      using top frame_leafD(1) fr by (simp add: Cursor_to_first.simps [of w c])
    then show ?thesis using less.prems PLeaf by (auto simp: landed_def)
  next
    case (PBranch ks ts)
    note b = frame_branchD [OF fr [unfolded PBranch]]
    obtain pid pn where p: "elemRef_child w r = Inr pid" "page_node_at w (c_bucket c) pid = Inr pn"
      and ct: "tree_rep w (c_bucket c) pn (ts ! nat (er_index r))" using b(5) by blast
    let ?t = "ts ! nat (er_index r)" and ?c = "c\<lparr>c_stack := c_stack c @ [ref_at pn 0]\<rparr>"
    let ?fs = "(ref_at pn 0, ?t) # (r, t) # fs"
    have "push_child w c r (\<lambda>_. Inr 0) = Inr ?c"
      using p unfolding page_node_at_def
      by (cases pn) (simp add: push_child_def Cursor_page_node_def ref_at_def)
    then have step: "Cursor_to_first w c = Cursor_to_first w ?c"
      using top b(1) by (subst Cursor_to_first.simps) simp
    have mem: "?t \<in> set ts" using b(3,4) by (simp add: nat_less_iff)
    have "weight ?t < weight t" using PBranch mem by (simp add: le_imp_less_Suc member_le_sum_list)
    moreover have "on_path w ?c ?fs"
      using less.prems child_frame [OF ct] by (simp add: on_path_def)
    ultimately obtain c' r' es fs' where f: "Cursor_to_first w ?c = Some (Inr c')"
      and l: "landed w ?c ?fs c' r' es fs'" using less.hyps by blast
    have "ahead ?fs = ahead ((r, t) # fs)" using onward_Cons [OF b(3,4), of ks] PBranch by simp
    moreover have "right_weight fs' < right_weight ((r, t) # fs) + top_weight ((r, t) # fs) \<and> er_index r' = 0"
      using l top_weight_child [OF child_frame [OF ct], of "(r, t) # fs"] PBranch
      by (auto simp: landed_def split: if_splits)
    moreover have "on_path w c' ((r', PLeaf es) # fs')" "c_bucket c' = c_bucket c"
      "ahead ((r', PLeaf es) # fs') = ahead ?fs" using l by (simp_all add: landed_def)
    ultimately have "landed w c ((r, t) # fs) c' r' es fs'" using PBranch by (simp add: landed_def)
    then show ?thesis using f step by metis
  qed
qed

section \<open>Climbing\<close>

lemma climb_path:
  assumes "list_all (frame_ok w bp) fs"
  shows "climb w (map fst fs) = Inr None \<and> rest fs = [] \<or>
    (\<exists>r t fs'. climb w (map fst fs) = Inr (Some (map fst ((r, t) # fs'))) \<and>
       list_all (frame_ok w bp) ((r, t) # fs') \<and> ahead ((r, t) # fs') = rest fs \<and>
       (case t of PLeaf es \<Rightarrow> er_index r < int (length es)
        | PBranch ks ts \<Rightarrow> right_weight ((r, t) # fs') + top_weight ((r, t) # fs') \<le> right_weight fs))"
  using assms
proof (induction fs)
  case Nil
  then show ?case by simp
next
  case (Cons f fs)
  obtain r t where f: "f = (r, t)" by (cases f)
  have fr: "frame_ok w bp (r, t)" and fs: "list_all (frame_ok w bp) fs" using Cons.prems f by simp_all
  define n where "n = (case t of PLeaf es \<Rightarrow> length es | PBranch ks ts \<Rightarrow> length ts)"
  have cnt: "elemRef_count w r = Inr (int n)" and i: "0 \<le> er_index r"
    using fr frame_leafD(2,3) frame_branchD(2,3) by (cases t; force simp: n_def)+
  have pred: "int_pred (int n) = Inr (int n - 1)" by (simp add: int_pred_def)
  show ?case
  proof (cases "er_index r < int n - 1")
    case True
    let ?r = "r\<lparr>er_index := er_index r + 1\<rparr>"
    have "frame_ok w bp (?r, t)" using fr True by (cases t) (simp_all add: frame_ok_def n_def)
    moreover have "climb w (map fst (f # fs)) = Inr (Some (map fst ((?r, t) # fs)))"
      using True cnt pred f by simp
    moreover have "case t of PLeaf es \<Rightarrow> er_index ?r < int (length es)
        | PBranch ks ts \<Rightarrow> right_weight ((?r, t) # fs) + top_weight ((?r, t) # fs) \<le> right_weight (f # fs)"
    proof (cases t)
      case (PLeaf es)
      then show ?thesis using True by (simp add: n_def)
    next
      case (PBranch ks ts)
      have "drop (nat (er_index r + 1)) ts = ts ! nat (er_index r + 1) # drop (nat (er_index r + 2)) ts"
        using True i PBranch Cons_nth_drop_Suc [of "nat (er_index r + 1)" ts] by (simp add: n_def nat_add_distrib)
      then show ?thesis using PBranch f by (simp add: add.commute)
    qed
    moreover have "ahead ((?r, t) # fs) = rest (f # fs)" using f by simp
    ultimately show ?thesis using fs by (intro disjI2 exI [of _ ?r] exI [of _ t] exI [of _ fs]) simp
  next
    case False
    have none: "onward t (er_index r + 1) = []" using False by (cases t) (simp_all add: n_def)
    have le: "right_weight fs \<le> right_weight (f # fs)" using f by (cases t) simp_all
    have "climb w (map fst (f # fs)) = climb w (map fst fs)" using False cnt pred f by simp
    moreover have "rest (f # fs) = rest fs" using none f by simp
    ultimately show ?thesis
      using Cons.IH [OF fs] le by (fastforce split: ptree.splits elim: order_trans)
  qed
qed

section \<open>\<^verbatim>\<open>next_\<close>\<close>

text \<open>What a move to the next element leaves: the entry shown, and the path with the others ahead.\<close>

definition moved :: "world \<Rightarrow> Cursor \<Rightarrow> path \<Rightarrow> Cursor \<Rightarrow> kvf \<Rightarrow> path \<Rightarrow> bool" where
  "moved w c fs c' x fs' \<longleftrightarrow> on_path w c' fs' \<and> c_bucket c' = c_bucket c \<and>
     (case rest fs of
        [] \<Rightarrow> x = (None, None, 0) \<and> rest fs' = [] \<and> (fs' = fs \<or> (\<exists>r fs''. fs' = (r, PLeaf []) # fs''))
      | e # es \<Rightarrow> x = show_ent e \<and> rest fs' = es \<and> Cursor_keyValue w c' = Inr x)"

lemma on_path_leaf:
  assumes "on_path w c ((r, PLeaf es) # fs)"
  shows "bindE (stack_back (c_stack c)) (elemRef_count w) = Inr (int (length es))"
    and "er_index r < int (length es) \<Longrightarrow> Cursor_keyValue w c = Inr (show_ent (es ! nat (er_index r)))"
    and "er_index r < int (length es) \<Longrightarrow>
      ahead ((r, PLeaf es) # fs) = es ! nat (er_index r) # rest ((r, PLeaf es) # fs)"
proof -
  have fr: "frame_ok w (c_bucket c) (r, PLeaf es)" and c: "c_stack c = rev (map fst fs) @ [r]"
    using assms by (simp_all add: on_path_def)
  show "bindE (stack_back (c_stack c)) (elemRef_count w) = Inr (int (length es))"
    using frame_leafD(2) [OF fr] c by (simp add: stack_back_def)
  show "er_index r < int (length es) \<Longrightarrow> Cursor_keyValue w c = Inr (show_ent (es ! nat (er_index r)))"
    using frame_leafD(4) [OF fr _ c] .
  have "0 \<le> er_index r" by (rule frame_leafD(3) [OF fr])
  then show "er_index r < int (length es) \<Longrightarrow>
      ahead ((r, PLeaf es) # fs) = es ! nat (er_index r) # rest ((r, PLeaf es) # fs)"
    by (simp add: nat_add_distrib Cons_nth_drop_Suc)
qed

lemma next_loop_moves:
  assumes "on_path w c fs"
  shows "\<exists>c' x fs'. next_loop w c = Some (Inr (c', x)) \<and> moved w c fs c' x fs'"
  using assms
proof (induction "right_weight fs" arbitrary: c fs rule: less_induct)
  case less
  have ok: "list_all (frame_ok w (c_bucket c)) fs" and st: "rev (c_stack c) = map fst fs"
    using less.prems by (simp_all add: on_path_def)
  from climb_path [OF ok] show ?case
  proof (elim disjE exE conjE)
    assume "climb w (map fst fs) = Inr None" "rest fs = []"
    then have "next_loop w c = Some (Inr (c, None, None, 0))"
      using st by (simp add: next_loop.simps [of w c])
    then show ?thesis using less.prems \<open>rest fs = []\<close> by (auto simp: moved_def)
  next
    fix r :: elemRef and t :: ptree and fs1 :: path
    let ?f1 = "(r, t) # fs1" and ?c1 = "c\<lparr>c_stack := rev (map fst ((r, t) # fs1))\<rparr>"
    assume cl: "climb w (map fst fs) = Inr (Some (map fst ?f1))" and ok1: "list_all (frame_ok w (c_bucket c)) ?f1"
      and ah: "ahead ?f1 = rest fs"
      and wt: "case t of PLeaf es \<Rightarrow> er_index r < int (length es)
        | PBranch ks ts \<Rightarrow> right_weight ?f1 + top_weight ?f1 \<le> right_weight fs"
    have "on_path w ?c1 ?f1" using ok1 by (simp add: on_path_def)
    from to_first_lands [OF this] obtain c2 r2 es fs2 where
      f: "Cursor_to_first w ?c1 = Some (Inr c2)" and l: "landed w ?c1 ?f1 c2 r2 es fs2" by blast
    let ?f2 = "(r2, PLeaf es) # fs2"
    have p2: "on_path w c2 ?f2" and b2: "c_bucket c2 = c_bucket c" and a2: "ahead ?f2 = rest fs"
      using l ah by (simp_all add: landed_def)
    have n: "next_loop w c = (if es = [] then next_loop w c2
        else Some (bindE (Cursor_keyValue w c2) (\<lambda>x. Inr (c2, x))))"
      using st cl f on_path_leaf(1) [OF p2] by (subst next_loop.simps) simp
    show ?thesis
    proof (cases "es = []")
      case True
      then have "\<not> (\<exists>es. t = PLeaf es)"
        using l wt ok1 by (auto simp: landed_def frame_ok_def split: ptree.splits)
      then have "right_weight ?f2 < right_weight fs"
        using l wt by (auto simp: landed_def split: ptree.splits)
      from less.hyps [OF this p2] obtain c' x fs' where
        "next_loop w c2 = Some (Inr (c', x))" and m: "moved w c2 ?f2 c' x fs'" by blast
      moreover have "rest ?f2 = rest fs" using True a2 by simp
      then have "moved w c fs c' x fs'"
        using m b2 True by (auto simp: moved_def split: list.splits)
      ultimately show ?thesis using n True by auto
    next
      case False
      then have i: "er_index r2 < int (length es)"
        using l wt by (auto simp: landed_def split: if_splits ptree.splits)
      note k = on_path_leaf(2,3) [OF p2 i]
      have "moved w c fs c2 (show_ent (es ! nat (er_index r2))) ?f2"
        using p2 b2 k a2 by (auto simp: moved_def simp del: rest.simps ahead.simps split: list.splits)
      then show ?thesis using n False k(1) by auto
    qed
  qed
qed

lemma next_leaf_moves:
  assumes "on_path w c fs"
  shows "\<exists>c' x fs'. Cursor_next_leaf w c = Some (Inr (c', x)) \<and> moved w c fs c' x fs'"
  using assms next_loop_moves [OF assms] by (simp add: Cursor_next_leaf_def on_path_def)

section \<open>Forward iteration\<close>

definition visible :: "ent \<Rightarrow> kv" where
  "visible e = hide_bucket (show_ent e)"

lemma hide_none [simp]: "hide_bucket (None, None, f) = (None, None)"
  by (simp add: hide_bucket_def)

lemma assert_open_bucket: "c_bucket c' = c_bucket c \<Longrightarrow> assert_open w c' = assert_open w c"
  by (simp add: assert_open_def)

lemma keyValue_empty_leaf:
  assumes "on_path w c ((r, PLeaf []) # fs)"
  shows "Cursor_keyValue w c = Inr (None, None, 0)"
  using on_path_leaf(1) [OF assms] by (auto simp: Cursor_keyValue_def bindE_Inr_iff)

text \<open>The tree a cursor's bucket holds.\<close>

definition bucket_tree :: "world \<Rightarrow> Cursor \<Rightarrow> ptree \<Rightarrow> bool" where
  "bucket_tree w c t \<longleftrightarrow> assert_open w c = Inr () \<and>
     (\<exists>b pn. get_bucket w (c_bucket c) = Inr b \<and> Bucket_page_node w b (Bucket_root b) = Inr pn \<and>
        tree_rep w (c_bucket c) pn t)"

lemma bucket_tree_start:
  assumes "bucket_tree w c t"
  obtains pn where "tree_rep w (c_bucket c) pn t"
    and "\<And>index. Cursor_start w c index =
      bindE (index (ref_at pn 0)) (\<lambda>i. Inr (c\<lparr>c_stack := [ref_at pn i]\<rparr>))"
proof -
  from assms obtain b pn where o: "assert_open w c = Inr ()" and b: "get_bucket w (c_bucket c) = Inr b"
    and pn: "Bucket_page_node w b (Bucket_root b) = Inr pn" and t: "tree_rep w (c_bucket c) pn t"
    by (auto simp: bucket_tree_def)
  have "Cursor_start w c index = bindE (index (ref_at pn 0)) (\<lambda>i. Inr (c\<lparr>c_stack := [ref_at pn i]\<rparr>))" for index
    using o b pn by (cases pn) (simp add: Cursor_start_def ref_at_def)
  with t show thesis by (rule that)
qed

lemma first_moves:
  assumes "bucket_tree w c t"
  shows "\<exists>c' x fs. Cursor_first w c = Some (Inr (c', x)) \<and> on_path w c' fs \<and> c_bucket c' = c_bucket c \<and>
    (case flat t of [] \<Rightarrow> x = (None, None) \<and> rest fs = [] | e # es \<Rightarrow> x = visible e \<and> rest fs = es)"
proof -
  obtain pn where t: "tree_rep w (c_bucket c) pn t"
    and start: "\<And>index. Cursor_start w c index =
      bindE (index (ref_at pn 0)) (\<lambda>i. Inr (c\<lparr>c_stack := [ref_at pn i]\<rparr>))"
    using bucket_tree_start [OF assms] by blast
  let ?c = "c\<lparr>c_stack := [ref_at pn 0]\<rparr>"
  have "on_path w ?c [(ref_at pn 0, t)]" using child_frame [OF t] by (simp add: on_path_def)
  from to_first_lands [OF this] obtain c1 r es fs where f: "Cursor_to_first w ?c = Some (Inr c1)"
    and l: "landed w ?c [(ref_at pn 0, t)] c1 r es fs" by blast
  let ?fs = "(r, PLeaf es) # fs"
  have p1: "on_path w c1 ?fs" and b1: "c_bucket c1 = c_bucket c" and a: "ahead ?fs = flat t" and i: "er_index r = 0"
    using l by (auto simp: landed_def split: if_splits)
  note cnt = on_path_leaf(1) [OF p1]
  show ?thesis
  proof (cases "es = []")
    case False
    note k = on_path_leaf(2,3) [OF p1]
    have "Cursor_first w c = Some (Inr (c1, visible (es ! 0)))"
      using start f cnt False k(1) i by (simp add: Cursor_first_def visible_def)
    moreover have "flat t = es ! 0 # rest ?fs"
      using k(2) i False unfolding a by (simp del: rest.simps)
    ultimately show ?thesis using p1 b1 by (auto simp del: rest.simps)
  next
    case True
    from next_leaf_moves [OF p1] obtain c' x fs' where n: "Cursor_next_leaf w c1 = Some (Inr (c', x))"
      and m: "moved w c1 ?fs c' x fs'" by blast
    have r: "rest ?fs = flat t" using True a i by simp
    have "Cursor_keyValue w c' = Inr x"
      using m r True by (auto simp: moved_def keyValue_empty_leaf simp del: rest.simps split: list.splits)
    then have "Cursor_first w c = Some (Inr (c', hide_bucket x))"
      using start f cnt True n by (simp add: Cursor_first_def)
    then show ?thesis
      using m r b1 by (auto simp: moved_def visible_def simp del: rest.simps split: list.splits)
  qed
qed

text \<open>The results of \<open>n\<close> calls of \<^verbatim>\<open>next\<close>.\<close>

fun collect_next :: "world \<Rightarrow> Cursor \<Rightarrow> nat \<Rightarrow> kv list res option" where
  "collect_next w c 0 = Some (Inr [])"
| "collect_next w c (Suc n) =
     bindP (Cursor_next w c) (\<lambda>(c', x). bindP (collect_next w c' n) (\<lambda>xs. Some (Inr (x # xs))))"

text \<open>The first \<open>n\<close> of a list of results, and nil results after its end.\<close>

definition padded :: "nat \<Rightarrow> kv list \<Rightarrow> kv list" where
  "padded n xs = take n xs @ replicate (n - length xs) (None, None)"

lemma padded_simps [simp]:
  "padded 0 xs = []"
  "padded (Suc n) [] = (None, None) # padded n []"
  "padded (Suc n) (x # xs) = x # padded n xs"
  by (simp_all add: padded_def)

lemma padded_step:
  assumes "case es of [] \<Rightarrow> x = (None, None) \<and> es' = [] | e # es1 \<Rightarrow> x = visible e \<and> es' = es1"
  shows "x # padded n (map visible es') = padded (Suc n) (map visible es)"
  using assms by (cases es) simp_all

lemma collect_next_rest:
  assumes "on_path w c fs" and "assert_open w c = Inr ()"
  shows "collect_next w c n = Some (Inr (padded n (map visible (rest fs))))"
  using assms
proof (induction n arbitrary: c fs)
  case 0
  then show ?case by (simp add: padded_def)
next
  case (Suc n)
  from next_leaf_moves [OF Suc.prems(1)] obtain c' x fs' where
    n: "Cursor_next_leaf w c = Some (Inr (c', x))" and m: "moved w c fs c' x fs'" by blast
  have p: "on_path w c' fs'" and o: "assert_open w c' = Inr ()"
    using m Suc.prems(2) assert_open_bucket [of c' c w] by (auto simp: moved_def)
  have "collect_next w c (Suc n)
      = Some (Inr (hide_bucket x # padded n (map visible (rest fs'))))"
    using n Suc.prems(2) Suc.IH [OF p o] by (simp add: Cursor_next_def)
  moreover have "hide_bucket x # padded n (map visible (rest fs')) = padded (Suc n) (map visible (rest fs))"
    using m by (intro padded_step) (auto simp: moved_def visible_def split: list.splits)
  ultimately show ?case by simp
qed

text \<open>\<^verbatim>\<open>first\<close> and the calls of \<^verbatim>\<open>next\<close> together.\<close>

lemma scan_collects:
  assumes "bucket_tree w c t"
  shows "\<exists>c' x xs. Cursor_first w c = Some (Inr (c', x)) \<and> collect_next w c' n = Some (Inr xs) \<and>
    x # xs = padded (Suc n) (map visible (flat t))"
proof -
  from first_moves [OF assms] obtain c' x fs where f: "Cursor_first w c = Some (Inr (c', x))"
    and p: "on_path w c' fs" and b: "c_bucket c' = c_bucket c"
    and r: "case flat t of [] \<Rightarrow> x = (None, None) \<and> rest fs = [] | e # es \<Rightarrow> x = visible e \<and> rest fs = es"
    by blast
  have "assert_open w c' = Inr ()" using assms assert_open_bucket [OF b, of w] by (simp add: bucket_tree_def)
  then have "collect_next w c' n = Some (Inr (padded n (map visible (rest fs))))"
    by (rule collect_next_rest [OF p])
  moreover have "x # padded n (map visible (rest fs)) = padded (Suc n) (map visible (flat t))"
    using r by (rule padded_step)
  ultimately show ?thesis using f by blast
qed

text \<open>
  C1. Forward iteration: on a bucket whose pages and nodes represent a tree, \<^verbatim>\<open>first\<close> followed by any
  number of calls of \<^verbatim>\<open>next\<close> always returns, and yields exactly the entries of the tree's leaves in
  order (nested buckets with a nil value), skipping empty leaves, and nil for every further call.
\<close>

theorem Cursor_scan:
  assumes "bucket_tree w c t"
  shows "\<exists>c' x xs. Cursor_first w c = Some (Inr (c', x)) \<and> collect_next w c' n = Some (Inr xs) \<and>
    x # xs = padded (Suc n) (map visible (flat t))"
  using assms by (rule scan_collects)

section \<open>The last element, and \<^verbatim>\<open>prev\<close>\<close>

fun last_leaf :: "ptree \<Rightarrow> ent list" where
  "last_leaf (PLeaf es) = es"
| "last_leaf (PBranch ks ts) = (if ts = [] then [] else last (map last_leaf ts))"

fun elem_count :: "ptree \<Rightarrow> nat" where
  "elem_count (PLeaf es) = length es"
| "elem_count (PBranch ks ts) = length ts"

lemma tree_rep_count: "tree_rep w bp pn t \<Longrightarrow> elemRef_count w (ref_at pn i) = Inr (int (elem_count t))"
  using count_index [where w = w and r = "ref_at pn 0" and i = i]
  by (cases t) (auto elim!: tree_rep_leafE tree_rep_branchE simp: ref_at_def)

lemma last_index_rep: "tree_rep w bp pn t \<Longrightarrow> last_index w (ref_at pn i) = Inr (int (elem_count t) - 1)"
  by (simp add: last_index_def tree_rep_count int_pred_def)

lemma to_last_lands:
  assumes "tree_rep w (c_bucket c) pn t" and "c_stack c = ss @ [ref_at pn (int (elem_count t) - 1)]"
  shows "\<exists>c' pn' ss'. Cursor_to_last w c = Some (Inr c') \<and> c_bucket c' = c_bucket c \<and>
    tree_rep w (c_bucket c) pn' (PLeaf (last_leaf t)) \<and>
    c_stack c' = ss' @ [ref_at pn' (int (length (last_leaf t)) - 1)]"
  using assms
proof (induction "weight t" arbitrary: c pn t ss rule: less_induct)
  case less
  have top: "stack_back (c_stack c) = Inr (ref_at pn (int (elem_count t) - 1))"
    using less.prems by (simp add: stack_back_def)
  show ?case
  proof (cases t)
    case (PLeaf es)
    have "elemRef_isLeaf w (ref_at pn (int (elem_count t) - 1)) = Inr True"
      using less.prems(1) isLeaf_index [where w = w and r = "ref_at pn 0"] PLeaf
      by (auto elim!: tree_rep_leafE simp: ref_at_def)
    then have "Cursor_to_last w c = Some (Inr c)" using top by (simp add: Cursor_to_last.simps [of w c])
    moreover have "c_stack c = ss @ [ref_at pn (int (length (last_leaf t)) - 1)]"
      using less.prems(2) PLeaf by simp
    ultimately show ?thesis using less.prems(1) PLeaf by (metis last_leaf.simps(1))
  next
    case (PBranch ks ts)
    then have ne: "ts \<noteq> []" using less.prems(1) by (auto elim!: tree_rep_branchE)
    let ?r = "ref_at pn (int (elem_count t) - 1)"
    have "frame_ok w (c_bucket c) (?r, t)" using less.prems(1) PBranch ne by (simp add: frame_ok_def)
    note b = frame_branchD [OF this [unfolded PBranch]]
    have l: "ts ! nat (int (elem_count (PBranch ks ts)) - 1) = last ts"
      using ne by (simp add: last_conv_nth nat_diff_distrib')
    obtain pid pn' where p: "elemRef_child w ?r = Inr pid" "page_node_at w (c_bucket c) pid = Inr pn'"
      and ct: "tree_rep w (c_bucket c) pn' (last ts)" using b(5) l PBranch by auto
    let ?c = "c\<lparr>c_stack := c_stack c @ [ref_at pn' (int (elem_count (last ts)) - 1)]\<rparr>"
    have "push_child w c ?r (last_index w) = Inr ?c"
      using p last_index_rep [OF ct, of 0] unfolding page_node_at_def
      by (cases pn') (simp add: push_child_def Cursor_page_node_def ref_at_def)
    then have step: "Cursor_to_last w c = Cursor_to_last w ?c"
      using top b(1) PBranch by (subst Cursor_to_last.simps) simp
    have "last ts \<in> set ts" using ne by simp
    then have "weight (last ts) < weight t" using PBranch by (simp add: le_imp_less_Suc member_le_sum_list)
    from less.hyps [OF this, of ?c pn'] ct show ?thesis using PBranch ne by (simp add: step last_map)
  qed
qed

text \<open>
  C22. \<^verbatim>\<open>last\<close> always returns and yields the last entry of the rightmost leaf; when that leaf is empty
  it yields nil, also when entries precede it.
\<close>

theorem Cursor_last_correct:
  assumes "bucket_tree w c t"
  shows "\<exists>c'. Cursor_last w c = Some (Inr (c',
    if last_leaf t = [] then (None, None) else visible (last (last_leaf t))))"
proof -
  obtain pn where t: "tree_rep w (c_bucket c) pn t"
    and start: "\<And>index. Cursor_start w c index =
      bindE (index (ref_at pn 0)) (\<lambda>i. Inr (c\<lparr>c_stack := [ref_at pn i]\<rparr>))"
    using bucket_tree_start [OF assms] by blast
  let ?c = "c\<lparr>c_stack := [ref_at pn (int (elem_count t) - 1)]\<rparr>" and ?es = "last_leaf t"
  obtain c' pn' ss where f: "Cursor_to_last w ?c = Some (Inr c')"
    and l: "tree_rep w (c_bucket c) pn' (PLeaf ?es)" and s: "c_stack c' = ss @ [ref_at pn' (int (length ?es) - 1)]"
    using to_last_lands [of w ?c pn t "[]"] t by auto
  have "Cursor_keyValue w c' = Inr (if ?es = [] then (None, None, 0) else show_ent (last ?es))"
  proof (cases "?es = []")
    case True
    then show ?thesis using s tree_rep_count [OF l] by (simp add: Cursor_keyValue_def stack_back_def)
  next
    case False
    then have "frame_ok w (c_bucket c) (ref_at pn' (int (length ?es) - 1), PLeaf ?es)"
      using l by (simp add: frame_ok_def)
    from frame_leafD(4) [OF this _ s] False show ?thesis
      by (simp add: last_conv_nth nat_diff_distrib')
  qed
  then show ?thesis
    using start last_index_rep [OF t] f by (auto simp: Cursor_last_def visible_def)
qed

text \<open>
  C38. \<^verbatim>\<open>prev\<close> calls \<^verbatim>\<open>last\<close>, not \<^verbatim>\<open>last_\<close>, after moving back: from any position but the first path of
  the tree it lands where \<^verbatim>\<open>last\<close> lands, at the end of the bucket, and not on the preceding entry;
  from the first path it empties the stack and yields nil.
\<close>

theorem Cursor_prev_is_last:
  assumes "assert_open w c = Inr ()"
  shows "Cursor_prev w c =
    (if list_all (\<lambda>r. er_index r \<le> 0) (c_stack c) then Some (Inr (c\<lparr>c_stack := []\<rparr>, None, None))
     else Cursor_last w c)"
proof -
  have e: "prev_climb rs = [] \<longleftrightarrow> list_all (\<lambda>r. er_index r \<le> 0) rs" for rs
    by (induction rs) auto
  have o: "Cursor_start w (c\<lparr>c_stack := ss\<rparr>) ix = Cursor_start w c ix" for ss ix
    by (simp add: Cursor_start_def assert_open_def)
  have l: "Cursor_last w (c\<lparr>c_stack := ss\<rparr>) = Cursor_last w c" for ss
    by (simp add: Cursor_last_def o)
  have k: "bindP (Cursor_last w c) (\<lambda>(c2, _). bindP (Some (Cursor_keyValue w c2)) (\<lambda>x. Some (Inr (c2, hide_bucket x))))
      = Cursor_last w c"
    by (auto simp: Cursor_last_def bindP_def split: bind_splits sum.splits)
  show ?thesis using assms e [of "rev (c_stack c)"] k by (auto simp: Cursor_prev_def l)
qed

section \<open>Trees of nodes\<close>

definition ent_of :: "INode \<Rightarrow> ent" where
  "ent_of i = (in_key i, in_value i, in_flags i)"

inductive node_tree :: "world \<Rightarrow> addr \<Rightarrow> addr \<times> addr \<Rightarrow> ptree \<Rightarrow> bool" for w bp where
  leaf: "n \<noteq> 0 \<Longrightarrow> get_node w n = Inr nd \<Longrightarrow> n_isLeaf nd \<Longrightarrow> length (n_inodes nd) < 2 ^ 31 \<Longrightarrow>
    node_tree w bp (0, n) (PLeaf (map ent_of (n_inodes nd)))"
| branch: "n \<noteq> 0 \<Longrightarrow> get_node w n = Inr nd \<Longrightarrow> \<not> n_isLeaf nd \<Longrightarrow> length (n_inodes nd) < 2 ^ 31 \<Longrightarrow>
    n_inodes nd \<noteq> [] \<Longrightarrow> length ts = length (n_inodes nd) \<Longrightarrow>
    (\<And>i. i < length ts \<Longrightarrow> \<exists>pn'. page_node_at w bp (in_id (n_inodes nd ! i)) = Inr pn' \<and> node_tree w bp pn' (ts ! i)) \<Longrightarrow>
    node_tree w bp (0, n) (PBranch (map (ikey (w_mem w)) (n_inodes nd)) ts)"

inductive_cases node_tree_leafE: "node_tree w bp pn (PLeaf es)"
inductive_cases node_tree_branchE: "node_tree w bp pn (PBranch ks ts)"

lemma node_tree_rep: "node_tree w bp pn t \<Longrightarrow> tree_rep w bp pn t"
proof (induction rule: node_tree.induct)
  case (leaf n nd)
  then show ?case
    by (intro tree_rep.leaf) (auto simp: elemRef_isLeaf_def elemRef_count_def ref_at_def
        Node_numChildren_def int_of_size_small Cursor_keyValue_def stack_back_def ent_of_def show_ent_def)
next
  case (branch n nd ts)
  show ?case
  proof (rule tree_rep.branch)
    fix i assume i: "i < length ts"
    then have "elemRef_child w (ref_at (0, n) (int i)) = Inr (in_id (n_inodes nd ! i))"
      using branch.hyps by (simp add: elemRef_child_def ref_at_def)
    with branch.IH [OF i] show "\<exists>pid pn'. elemRef_child w (ref_at (0, n) (int i)) = Inr pid \<and>
        page_node_at w bp pid = Inr pn' \<and> tree_rep w bp pn' (ts ! i)" by blast
  qed (use branch.hyps in \<open>auto simp: elemRef_isLeaf_def elemRef_count_def ref_at_def
        Node_numChildren_def int_of_size_small\<close>)
qed

section \<open>A concrete bucket\<close>

text \<open>
  A root branch with three leaves, the middle one empty, the last with a nested bucket; all
  materialised as nodes. The keys are strings in \<^const>\<open>test_mem\<close>.
\<close>

definition walk_inode :: "u32 \<Rightarrow> pgid_t \<Rightarrow> u64 \<Rightarrow> addr \<Rightarrow> INode" where
  "walk_inode f pid len k = \<lparr>in_flags = f, in_id = pid, in_key = Slice_make k len, in_value = Slice_make 104 1\<rparr>"

definition walk_node :: "bool \<Rightarrow> INode list \<Rightarrow> Node" where
  "walk_node leaf is = test_node\<lparr>n_isLeaf := leaf, n_inodes := is\<rparr>"

definition walk_world :: world where
  "walk_world = test_world\<lparr>
     w_buckets := [32 \<mapsto> test_bucket\<lparr>b_bucket := \<lparr>bk_root = 1, bk_sequence = 0\<rparr>,
        b_nodes := [1 \<mapsto> 200, 2 \<mapsto> 208, 3 \<mapsto> 216, 4 \<mapsto> 224]\<rparr>],
     w_nodes := [200 \<mapsto> walk_node False [walk_inode 0 2 2 100, walk_inode 0 3 3 100, walk_inode 0 4 2 102],
                 208 \<mapsto> walk_node True [walk_inode 0 0 2 100],
                 216 \<mapsto> walk_node True [],
                 224 \<mapsto> walk_node True [walk_inode 1 0 2 102]]\<rparr>"

definition walk_cursor :: Cursor where
  "walk_cursor = \<lparr>c_bucket = 32, c_stack = []\<rparr>"

definition walk_tree :: ptree where
  "walk_tree = PBranch [[97, 97], [97, 97, 97], [97, 98]]
     [PLeaf [(Slice_make 100 2, Slice_make 104 1, 0)], PLeaf [], PLeaf [(Slice_make 102 2, Slice_make 104 1, 1)]]"

lemmas walk_defs = walk_world_def walk_cursor_def walk_node_def walk_inode_def test_world_def test_bucket_def
  test_node_def test_tx_def get_defs

lemma walk_page_node:
  "page_node_at walk_world 32 1 = Inr (0, 200)" "page_node_at walk_world 32 2 = Inr (0, 208)"
  "page_node_at walk_world 32 3 = Inr (0, 216)" "page_node_at walk_world 32 4 = Inr (0, 224)"
  by (simp_all add: page_node_at_def Bucket_page_node_def Bucket_inline_def walk_defs)

lemma walk_node_tree: "node_tree walk_world 32 (0, 200) walk_tree"
proof -
  have l: "node_tree walk_world 32 (0, 208) (PLeaf [(Slice_make 100 2, Slice_make 104 1, 0)])"
    "node_tree walk_world 32 (0, 216) (PLeaf [])"
    "node_tree walk_world 32 (0, 224) (PLeaf [(Slice_make 102 2, Slice_make 104 1, 1)])"
    using node_tree.leaf [of 208 walk_world "walk_node True [walk_inode 0 0 2 100]" 32]
      node_tree.leaf [of 216 walk_world "walk_node True []" 32]
      node_tree.leaf [of 224 walk_world "walk_node True [walk_inode 1 0 2 102]" 32]
    by (simp_all add: walk_defs ent_of_def)
  let ?n = "walk_node False [walk_inode 0 2 2 100, walk_inode 0 3 3 100, walk_inode 0 4 2 102]"
  have ks: "map (ikey (w_mem walk_world)) (n_inodes ?n) = [[97, 97], [97, 97, 97], [97, 98]]"
    by (simp add: walk_defs test_mem_def slice_bytes_def Slice_make_def mem_eval)
  have "node_tree walk_world 32 (0, 200) (PBranch (map (ikey (w_mem walk_world)) (n_inodes ?n))
     [PLeaf [(Slice_make 100 2, Slice_make 104 1, 0)], PLeaf [], PLeaf [(Slice_make 102 2, Slice_make 104 1, 1)]])"
  proof (rule node_tree.branch)
    fix i :: nat
    assume "i < length [PLeaf [(Slice_make 100 2, Slice_make 104 1, 0)], PLeaf [],
      PLeaf [(Slice_make 102 2, Slice_make 104 1, 1)]]"
    then consider "i = 0" | "i = 1" | "i = 2" by fastforce
    then show "\<exists>pn'. page_node_at walk_world 32 (in_id (n_inodes ?n ! i)) = Inr pn' \<and>
      node_tree walk_world 32 pn' ([PLeaf [(Slice_make 100 2, Slice_make 104 1, 0)], PLeaf [],
      PLeaf [(Slice_make 102 2, Slice_make 104 1, 1)]] ! i)"
      using l by cases (auto simp: walk_node_def walk_inode_def walk_page_node)
  qed (simp_all add: walk_defs)
  then show ?thesis unfolding ks walk_tree_def .
qed

lemma walk_open: "assert_open walk_world walk_cursor = Inr ()"
  by (simp add: assert_open_def walk_defs Bucket_tx_def)

lemma walk_root:
  "\<exists>b. get_bucket walk_world (c_bucket walk_cursor) = Inr b \<and> Bucket_page_node walk_world b (Bucket_root b) = Inr (0, 200)"
  by (simp add: walk_defs Bucket_page_node_def Bucket_inline_def Bucket_root_def)

lemma walk_bucket_tree: "bucket_tree walk_world walk_cursor walk_tree"
  using walk_open walk_root node_tree_rep [OF walk_node_tree] by (auto simp: bucket_tree_def walk_cursor_def)

theorem Cursor_scan_witness:
  "\<exists>c'. Cursor_first walk_world walk_cursor = Some (Inr (c', Some (Slice_make 100 2), Some (Slice_make 104 1))) \<and>
    collect_next walk_world c' 2 = Some (Inr [(Some (Slice_make 102 2), None), (None, None)])"
  using Cursor_scan [OF walk_bucket_tree, of 2]
  by (auto simp: walk_tree_def visible_def show_ent_def hide_bucket_def BucketLeafFlag_def numeral_2_eq_2)

theorem Cursor_last_correct_witness:
  "\<exists>c'. Cursor_last walk_world walk_cursor = Some (Inr (c', Some (Slice_make 102 2), None))"
  using Cursor_last_correct [OF walk_bucket_tree]
  by (simp add: walk_tree_def visible_def show_ent_def hide_bucket_def BucketLeafFlag_def)

theorem Cursor_prev_is_last_witness:
  "let c = walk_cursor\<lparr>c_stack := [ref_at (0, 200) 2, ref_at (0, 224) 0]\<rparr>
   in Cursor_prev walk_world c = Cursor_last walk_world c"
proof -
  let ?c = "walk_cursor\<lparr>c_stack := [ref_at (0, 200) 2, ref_at (0, 224) 0]\<rparr>"
  have "assert_open walk_world ?c = Inr ()" using walk_open assert_open_bucket [of ?c walk_cursor] by simp
  from Cursor_prev_is_last [OF this] show ?thesis by (auto simp: ref_at_def)
qed

end
