(* ===== verification/Page_Scan.thy ===== *)
theory Page_Scan
  imports Node_Page Cursor_Walk
begin

text \<open>
  Nodes, pages and cursors together: what \<^verbatim>\<open>Node::write\<close> puts on a page is what a cursor yields
  from it.
\<close>

unbundle bit_operations_syntax

text \<open>What a caller sees of a cursor's answer, and what a node's element should show.\<close>

definition shown :: "mem \<Rightarrow> kv \<Rightarrow> u8 list option \<times> u8 list option" where
  "shown m x = (map_option (slice_bytes m) (fst x), map_option (slice_bytes m) (snd x))"

definition inode_shown :: "mem \<Rightarrow> INode \<Rightarrow> u8 list option \<times> u8 list option" where
  "inode_shown m i = (Some (slice_bytes m (in_key i)),
     if in_flags i AND BucketLeafFlag \<noteq> 0 then None else Some (slice_bytes m (in_value i)))"

definition page_ent :: "mem \<Rightarrow> addr \<Rightarrow> nat \<Rightarrow> ent" where
  "page_ent m p i = (let a = Page_ptr m p + of_nat (16 * i)
     in (LeafPageElement_key m a, LeafPageElement_value m a, le_flags (load_leaf m a)))"

lemma page_ent_shown:
  "leaf_view m (Page_ptr m p + of_nat (16 * i)) = inode_view m0 n \<Longrightarrow>
   shown m (visible (page_ent m p i)) = inode_shown m0 n"
  by (simp add: leaf_view_def inode_view_def page_ent_def Let_def visible_def show_ent_def hide_bucket_def
      shown_def inode_shown_def del: of_nat_mult)

lemma leaf_elem_addr: "i \<le> 0xffff \<Longrightarrow> Page_leafPageElement m p (of_int (int i)) = Page_ptr m p + of_nat (16 * i)"
  using elem_addr [of i m p] by simp

text \<open>A leaf page represents the tree of its elements.\<close>

lemma page_tree_rep:
  assumes "p \<noteq> nullptr" and "Page_flags (w_mem w) p AND LeafPageFlag \<noteq> 0"
    and "Page_count (w_mem w) p = of_nat k" and "k \<le> 0xffff"
  shows "tree_rep w bp (p, nullptr) (PLeaf (map (page_ent (w_mem w) p) [0..<k]))"
proof (rule tree_rep.leaf)
  have cnt: "int_of_u32 (of_nat k) = int k" using assms(4) int_of_size_small [of k] by (simp add: int_of_u32_def int_of_size_def)
  show "elemRef_isLeaf w (ref_at (p, nullptr) 0) = Inr True"
    using assms(1,2) by (simp add: elemRef_isLeaf_def ref_at_def page_ok_def)
  show "elemRef_count w (ref_at (p, nullptr) 0) = Inr (int (length (map (page_ent (w_mem w) p) [0..<k])))"
    using assms(1,3) cnt by (simp add: elemRef_count_def ref_at_def page_ok_def)
  fix i assume "i < length (map (page_ent (w_mem w) p) [0..<k])"
  then have i: "i < k" by simp
  show "Cursor_keyValue w \<lparr>c_bucket = bp, c_stack = [ref_at (p, nullptr) (int i)]\<rparr> =
      Inr (show_ent (map (page_ent (w_mem w) p) [0..<k] ! i))"
    using assms(1,3) cnt i assms(4) leaf_elem_addr [of i "w_mem w" p]
    by (simp add: Cursor_keyValue_def stack_back_def elemRef_count_def ref_at_def page_ok_def page_ent_def Let_def
        show_ent_def del: of_nat_mult)
qed

text \<open>The flag test of a page whose flags had the leaf flag added.\<close>

lemma leaf_flag_set: "(f OR LeafPageFlag) AND LeafPageFlag \<noteq> 0"
  by (simp add: bit.conj_disj_distrib2 or_eq_0_iff LeafPageFlag_def)

lemma world_mem_access [simp]:
  "get_bucket (w\<lparr>w_mem := m\<rparr>) q = get_bucket w q" "get_tx (w\<lparr>w_mem := m\<rparr>) q = get_tx w q"
  "get_db (w\<lparr>w_mem := m\<rparr>) q = get_db w q"
  by (simp_all add: get_defs)

lemma Tx_page_mem [simp]: "Tx_page (w\<lparr>w_mem := m\<rparr>) t pid = Tx_page w t pid"
  by (simp add: Tx_page_def cong: option.case_cong)

lemma page_node_mem [simp]: "Bucket_page_node (w\<lparr>w_mem := m\<rparr>) b pid = Bucket_page_node w b pid"
  by (simp add: Bucket_page_node_def cong: option.case_cong)

lemma assert_open_mem [simp]: "assert_open (w\<lparr>w_mem := m\<rparr>) c = assert_open w c"
  by (simp add: assert_open_def)

text \<open>
  C9. From a node through a page to a cursor: a leaf node is written to the page at which the bucket of
  a cursor finds its root. The write succeeds, and on the memory it leaves, \<^verbatim>\<open>first\<close> and as many calls
  of \<^verbatim>\<open>next\<close> as the node has elements return and yield the bytes of the node's keys and values in its
  order, nil for the value of a nested bucket, and nil at the end.
\<close>

theorem written_leaf_scanned:
  assumes "leaf_writable m n p" and "p \<noteq> nullptr" and "assert_open w c = Inr ()"
    and "get_bucket w (c_bucket c) = Inr b" and "Bucket_page_node w b (Bucket_root b) = Inr (p, nullptr)"
  shows "\<exists>m' c' x xs. Node_write m n p = Inr m' \<and> Cursor_first (w\<lparr>w_mem := m'\<rparr>) c = Some (Inr (c', x)) \<and>
    collect_next (w\<lparr>w_mem := m'\<rparr>) c' (length (n_inodes n)) = Some (Inr xs) \<and>
    map (shown m') (x # xs) = map (inode_shown m) (n_inodes n) @ [(None, None)]"
proof -
  let ?is = "n_inodes n"
  obtain m' where w: "Node_write m n p = Inr m'"
    and h: "\<And>x. x \<in> region p 32 \<Longrightarrow> m' x = write_header m n p x"
    and vw: "map (\<lambda>j. leaf_view m' (Page_ptr m p + of_nat (16 * j))) [0..<length ?is] = map (inode_view m) ?is"
    using Node_write_leaf [OF assms(1)] by blast
  note g = page_getter_congs [of p m' "write_header m n p", OF h]
  have ptr: "Page_ptr m' p = Page_ptr m p" and cnt: "Page_count m' p = of_nat (length ?is)"
    and flag: "Page_flags m' p AND LeafPageFlag \<noteq> 0" and len: "length ?is \<le> 0xffff"
    using g leaf_flag_set assms(1) by (simp_all add: leaf_writable_def)
  let ?w = "w\<lparr>w_mem := m'\<rparr>" and ?es = "map (page_ent m' p) [0..<length ?is]"
  have "bucket_tree ?w c (PLeaf ?es)"
    using page_tree_rep [of p ?w "length ?is" "c_bucket c"] assms(2-5) flag cnt len
    by (auto simp: bucket_tree_def)
  from scan_collects [OF this, of "length ?is"] obtain c' x xs where
    f: "Cursor_first ?w c = Some (Inr (c', x))" and n: "collect_next ?w c' (length ?is) = Some (Inr xs)"
    and xs: "x # xs = padded (Suc (length ?is)) (map visible ?es)" by auto
  have "shown m' (visible (page_ent m' p j)) = inode_shown m (?is ! j)" if "j < length ?is" for j
    using that arg_cong [OF vw, of "\<lambda>vs. vs ! j"] ptr by (intro page_ent_shown) (simp del: of_nat_mult)
  then have "map (shown m') (map visible ?es) = map (inode_shown m) ?is"
    by (intro nth_equalityI) simp_all
  moreover have "x # xs = map visible ?es @ [(None, None)]"
    unfolding xs by (simp add: padded_def del: map_map)
  ultimately have "map (shown m') (x # xs) = map (inode_shown m) ?is @ [(None, None)]"
    by (simp add: shown_def del: map_map)
  with w f n show ?thesis by blast
qed

text \<open>An inline bucket whose page is the one of \<^const>\<open>test_page_mem\<close>.\<close>

definition scan_world :: world where
  "scan_world = test_world\<lparr>w_buckets := [32 \<mapsto> test_bucket\<lparr>b_page := 4096, b_rootNode := 0\<rparr>]\<rparr>"

theorem written_leaf_scanned_witness:
  "\<exists>m' c' x xs. Node_write test_page_mem test_leaf 4096 = Inr m' \<and>
    Cursor_first (scan_world\<lparr>w_mem := m'\<rparr>) walk_cursor = Some (Inr (c', x)) \<and>
    collect_next (scan_world\<lparr>w_mem := m'\<rparr>) c' 2 = Some (Inr xs) \<and>
    map (shown m') (x # xs) = [(Some [97, 97], None), (Some [97, 98], Some [119]), (None, None)]"
proof -
  have "map (inode_shown test_page_mem) (n_inodes test_leaf) = [(Some [97, 97], None), (Some [97, 98], Some [119])]"
    using test_leaf_views by (simp add: inode_shown_def inode_view_def test_leaf_def BucketLeafFlag_def)
  moreover have "length (n_inodes test_leaf) = 2" by (simp add: test_leaf_def)
  moreover have "assert_open scan_world walk_cursor = Inr ()"
    "get_bucket scan_world (c_bucket walk_cursor) = Inr (test_bucket\<lparr>b_page := 4096, b_rootNode := 0\<rparr>)"
    by (simp_all add: assert_open_def scan_world_def walk_defs Bucket_tx_def)
  moreover have "Bucket_page_node scan_world b (Bucket_root b) = Inr (4096, nullptr)"
    if "b = test_bucket\<lparr>b_page := 4096, b_rootNode := 0\<rparr>" for b
    using that by (simp add: Bucket_page_node_def Bucket_inline_def Bucket_root_def test_bucket_def)
  ultimately show ?thesis
    using written_leaf_scanned [OF test_leaf_writable, of scan_world walk_cursor] by auto
qed

end
