(* ===== verification/Cursor_Seek.thy ===== *)
theory Cursor_Seek
  imports Cursor_Walk
begin

text \<open>
  \<^verbatim>\<open>seek\<close> on a tree of materialised nodes. The search puts the cursor at the first entry whose key is
  not less than the one sought, while \<^verbatim>\<open>seek\<close> itself reports nil; searching a page goes wrong, as
  the elements are copied before their keys are compared.
\<close>

unbundle bit_operations_syntax

section \<open>Key order\<close>

definition ekey :: "mem \<Rightarrow> ent \<Rightarrow> u8 list" where
  "ekey m e = slice_bytes m (fst e)"

text \<open>
  Key order: the entries of a leaf ascend, and so do the separators of a branch; a child's keys
  are below the next separator and, except in the first child, not below its own.
\<close>

fun ordered :: "mem \<Rightarrow> ptree \<Rightarrow> bool" where
  "ordered m (PLeaf es) = sorted_wrt (<) (map (ekey m) es)"
| "ordered m (PBranch ks ts) =
     (length ks = length ts \<and> sorted_wrt (<) ks \<and> list_all (ordered m) ts \<and>
      (\<forall>i < length ts. \<forall>e \<in> set (flat (ts ! i)).
         (0 < i \<longrightarrow> ks ! i \<le> ekey m e) \<and> (Suc i < length ts \<longrightarrow> ekey m e < ks ! Suc i)))"

section \<open>One level of the search\<close>

lemma dropWhile_middle:
  assumes "\<forall>x \<in> set as. P x" and "\<forall>x \<in> set bs. \<not> P x"
  shows "dropWhile P (as @ xs @ bs) = dropWhile P xs @ bs"
proof -
  have "dropWhile P (xs @ bs) = dropWhile P xs @ bs"
    using assms(2) by (induction xs) (auto simp: dropWhile_eq_self_iff)
  then show ?thesis using assms(1) by simp
qed

lemma search_cut:
  assumes srt: "sorted (map (ikey m) ns)" and p: "p = lower_bound (\<lambda>i. INode_less_key m (ns ! i) key) (length ns)"
  shows "i < p \<Longrightarrow> ikey m (ns ! i) < slice_bytes m key"
    and "p \<le> i \<Longrightarrow> i < length ns \<Longrightarrow> slice_bytes m key \<le> ikey m (ns ! i)"
proof -
  note sp = inode.search_split [OF srt p]
  have ple: "p \<le> length ns" unfolding p by (rule lower_bound_le)
  show "ikey m (ns ! i) < slice_bytes m key" if "i < p"
  proof -
    have "ns ! i \<in> set (take p ns)" using that ple by (auto simp: in_set_conv_nth intro!: exI [of _ i])
    then show ?thesis using sp(1) by auto
  qed
  show "slice_bytes m key \<le> ikey m (ns ! i)" if "p \<le> i" "i < length ns"
  proof -
    have "ns ! i \<in> set (drop p ns)" using that by (auto simp: in_set_conv_nth intro!: exI [of _ "i - p"])
    then show ?thesis using sp(2) by auto
  qed
qed

lemma branch_index_spec:
  assumes ks: "ks = map (ikey m) ns" and srt: "sorted_wrt (<) ks" and ne: "ns \<noteq> []" and len: "length ns < 2 ^ 31"
    and j: "branch_index (\<lambda>i. INode_less_key m (ns ! i) key) (\<lambda>i. INode_eq_key m (ns ! i) key) (length ns) = j"
  shows "0 \<le> j" and "j < int (length ns)"
    and "i < nat j \<Longrightarrow> ks ! Suc i \<le> slice_bytes m key"
    and "nat j < i \<Longrightarrow> i < length ns \<Longrightarrow> slice_bytes m key < ks ! i"
proof -
  define p where "p = lower_bound (\<lambda>i. INode_less_key m (ns ! i) key) (length ns)"
  define ex where "ex \<longleftrightarrow> p \<noteq> length ns \<and> INode_eq_key m (ns ! p) key"
  let ?k = "slice_bytes m key"
  have ple: "p \<le> length ns" unfolding p_def by (rule lower_bound_le)
  have j': "j = (if \<not> ex \<and> p > 0 then int p - 1 else int p)"
    using j ple len by (auto simp: branch_index_def Let_def p_def [symmetric] ex_def int_of_size_small)
  have srt': "sorted (map (ikey m) ns)" using srt ks by (simp add: strict_sorted_iff)
  have lo: "ks ! i < ?k" if "i < p" for i using search_cut(1) [OF srt' p_def that] that ple ks by simp
  have hi: "?k \<le> ks ! i" if "p \<le> i" "i < length ns" for i using search_cut(2) [OF srt' p_def that] that ks by simp
  have up: "ks ! a < ks ! b" if "a < b" "b < length ns" for a b
    using sorted_wrt_nth_less [OF srt that(1)] that ks by simp
  have exk: "ks ! p = ?k" if ex using that ple ks by (simp add: ex_def inode.elt_eq_iff)
  have nex: "ks ! p \<noteq> ?k" if "\<not> ex" "p < length ns" using that ks by (simp add: ex_def inode.elt_eq_iff)
  have 0: "p < length ns" if "ex \<or> p = 0" using that ple ne by (auto simp: ex_def)
  show "0 \<le> j" "j < int (length ns)" using j' ple 0 by auto
  show "ks ! Suc i \<le> ?k" if "i < nat j"
  proof (cases "Suc i < p")
    case True
    then show ?thesis using lo by (simp add: less_imp_le)
  next
    case False
    then have "ex" "Suc i = p" using that j' by (auto split: if_splits)
    then show ?thesis using exk by simp
  qed
  show "?k < ks ! i" if i: "nat j < i" "i < length ns"
  proof -
    have pi: "p \<le> i" using i(1) j' by (auto split: if_splits)
    have "?k < ks ! i" if "p < i"
      using le_less_trans [OF hi [of p] up [OF that i(2)]] that i(2) by simp
    moreover have "?k < ks ! i" if "p = i"
    proof -
      have "\<not> ex" using i(1) j' that by (auto split: if_splits)
      then have "ks ! i \<noteq> ?k" using nex that i(2) by blast
      then show ?thesis using hi [of i] that i(2) by (simp add: order.not_eq_order_implies_strict)
    qed
    ultimately show ?thesis using pi by linarith
  qed
qed

lemma ordered_child:
  assumes "ordered m (PBranch ks ts)" and "j < length ts"
    and lo: "\<And>i. i < j \<Longrightarrow> ks ! Suc i \<le> k" and hi: "\<And>i. j < i \<Longrightarrow> i < length ts \<Longrightarrow> k < ks ! i"
  shows "dropWhile (\<lambda>e. ekey m e < k) (flat (PBranch ks ts))
    = dropWhile (\<lambda>e. ekey m e < k) (flat (ts ! j)) @ concat (map flat (drop (Suc j) ts))"
proof -
  have "flat (PBranch ks ts) = concat (map flat (take j ts @ ts ! j # drop (Suc j) ts))"
    using id_take_nth_drop [OF assms(2)] by simp
  moreover have "\<forall>e \<in> set (concat (map flat (take j ts))). ekey m e < k"
  proof
    fix e assume "e \<in> set (concat (map flat (take j ts)))"
    then obtain t where t: "t \<in> set (take j ts)" "e \<in> set (flat t)" by auto
    then obtain i where i: "i < j" "e \<in> set (flat (ts ! i))"
      using assms(2) by (auto simp: in_set_conv_nth [of t])
    then have "ekey m e < ks ! Suc i" using assms(1,2) by auto
    also have "\<dots> \<le> k" by (rule lo [OF i(1)])
    finally show "ekey m e < k" .
  qed
  moreover have "\<forall>e \<in> set (concat (map flat (drop (Suc j) ts))). \<not> ekey m e < k"
  proof
    fix e assume "e \<in> set (concat (map flat (drop (Suc j) ts)))"
    then obtain t where t: "t \<in> set (drop (Suc j) ts)" "e \<in> set (flat t)" by auto
    then obtain d where d: "d < length (drop (Suc j) ts)" "t = drop (Suc j) ts ! d"
      by (metis in_set_conv_nth)
    then have "e \<in> set (flat (ts ! (Suc j + d)))" "Suc j + d < length ts" using t(2) by simp_all
    then obtain i where i: "j < i" "i < length ts" "e \<in> set (flat (ts ! i))"
      by (metis add_Suc less_add_Suc1)
    then have "k < ekey m e" using assms(1) hi [OF i(1,2)] by (auto simp: less_le_trans)
    then show "\<not> ekey m e < k" by simp
  qed
  ultimately show ?thesis by (simp add: dropWhile_middle)
qed

section \<open>The whole search\<close>

text \<open>The result of a search below a path: the entries from the sought key on are ahead.\<close>

definition sought :: "world \<Rightarrow> Cursor \<Rightarrow> ent list \<Rightarrow> Cursor \<Rightarrow> elemRef \<Rightarrow> ent list \<Rightarrow> path \<Rightarrow> bool" where
  "sought w c es0 c' r es fs' \<longleftrightarrow> on_path w c' ((r, PLeaf es) # fs') \<and> c_bucket c' = c_bucket c \<and>
     er_index r \<le> int (length es) \<and> ahead ((r, PLeaf es) # fs') = es0"

lemma set_index_push:
  "set_index (c\<lparr>c_stack := ss @ [r]\<rparr>) i = c\<lparr>c_stack := ss @ [r\<lparr>er_index := i\<rparr>]\<rparr>"
  by (simp add: set_index_def)

lemma ref_at_index: "(ref_at pn i)\<lparr>er_index := j\<rparr> = ref_at pn j"
  by (simp add: ref_at_def)

lemma search_step_leaf:
  assumes "node_tree w (c_bucket c) pn (PLeaf es)" and "page_node_at w (c_bucket c) pid = Inr pn"
    and "sorted_wrt (<) (map (ekey (w_mem w)) es)"
  shows "\<exists>i. Cursor_search_step w c key pid buf = Inr (c\<lparr>c_stack := c_stack c @ [ref_at pn (int i)]\<rparr>, None) \<and>
    i \<le> length es \<and> drop i es = dropWhile (\<lambda>e. ekey (w_mem w) e < slice_bytes (w_mem w) key) es"
proof -
  from assms(1) obtain n nd where pn: "pn = (0, n)" "n \<noteq> 0" and nd: "get_node w n = Inr nd" "n_isLeaf nd"
    and len: "length (n_inodes nd) < 2 ^ 31" and es: "es = map ent_of (n_inodes nd)"
    by (auto elim: node_tree_leafE)
  let ?m = "w_mem w"
  let ?i = "lower_bound (\<lambda>i. INode_less_key ?m (n_inodes nd ! i) key) (length (n_inodes nd))"
  have k: "map (ekey ?m) es = map (ikey ?m) (n_inodes nd)" by (simp add: es ekey_def ent_of_def)
  then have srt: "sorted (map (ikey ?m) (n_inodes nd))" using assms(3) by (simp add: strict_sorted_iff)
  have i: "?i = length (takeWhile (\<lambda>i. ikey ?m i < slice_bytes ?m key) (n_inodes nd))"
    by (rule inode.search_pos [OF srt])
  have "drop ?i es = dropWhile (\<lambda>e. ekey ?m e < slice_bytes ?m key) es"
    unfolding i es by (simp add: drop_map dropWhile_map dropWhile_eq_drop [symmetric] ekey_def ent_of_def comp_def)
  moreover have "?i \<le> length es" using lower_bound_le by (simp add: es)
  moreover have "int_of_size ?i = int ?i" using lower_bound_le len by (intro int_of_size_small) (meson le_less_trans)
  then have "Cursor_search_step w c key pid buf = Inr (c\<lparr>c_stack := c_stack c @ [ref_at pn (int ?i)]\<rparr>, None)"
    using assms(2) pn nd unfolding page_node_at_def
    by (simp add: Cursor_search_step_def Cursor_page_node_def elemRef_isLeaf_def Cursor_nsearch_def
        stack_back_def set_index_push ref_at_def Let_def)
  ultimately show ?thesis by blast
qed

lemma search_step_branch:
  assumes "node_tree w (c_bucket c) pn (PBranch ks ts)" and "page_node_at w (c_bucket c) pid = Inr pn"
    and ord: "ordered (w_mem w) (PBranch ks ts)"
  shows "\<exists>j pid' pn'. Cursor_search_step w c key pid buf
      = Inr (c\<lparr>c_stack := c_stack c @ [ref_at pn (int j)]\<rparr>, Some (w, pid')) \<and> j < length ts \<and>
    page_node_at w (c_bucket c) pid' = Inr pn' \<and> node_tree w (c_bucket c) pn' (ts ! j) \<and>
    dropWhile (\<lambda>e. ekey (w_mem w) e < slice_bytes (w_mem w) key) (flat (PBranch ks ts))
      = dropWhile (\<lambda>e. ekey (w_mem w) e < slice_bytes (w_mem w) key) (flat (ts ! j)) @ concat (map flat (drop (Suc j) ts))"
proof -
  from assms(1) obtain n nd where pn: "pn = (0, n)" "n \<noteq> 0" and nd: "get_node w n = Inr nd" "\<not> n_isLeaf nd"
    and len: "length (n_inodes nd) < 2 ^ 31" "n_inodes nd \<noteq> []" "length ts = length (n_inodes nd)"
    and ks: "ks = map (ikey (w_mem w)) (n_inodes nd)"
    and ch: "\<And>i. i < length ts \<Longrightarrow> \<exists>pn'. page_node_at w (c_bucket c) (in_id (n_inodes nd ! i)) = Inr pn'
        \<and> node_tree w (c_bucket c) pn' (ts ! i)"
    by (auto elim: node_tree_branchE)
  let ?m = "w_mem w"
  define j where "j = branch_index (\<lambda>i. INode_less_key ?m (n_inodes nd ! i) key)
      (\<lambda>i. INode_eq_key ?m (n_inodes nd ! i) key) (length (n_inodes nd))"
  have srt: "sorted_wrt (<) ks" using ord by simp
  note b = branch_index_spec [OF ks srt len(2,1) j_def [symmetric]]
  define k where "k = nat j"
  have jk: "j = int k" and k: "k < length ts" using b(1,2) len(3) by (simp_all add: k_def nat_less_iff)
  obtain pn' where c: "page_node_at w (c_bucket c) (in_id (n_inodes nd ! k)) = Inr pn'"
    "node_tree w (c_bucket c) pn' (ts ! k)" using ch [OF k] by blast
  have "Cursor_search_step w c key pid buf
      = Inr (c\<lparr>c_stack := c_stack c @ [ref_at pn (int k)]\<rparr>, Some (w, in_id (n_inodes nd ! k)))"
    using assms(2) pn nd k len(3) unfolding page_node_at_def
    by (simp add: Cursor_search_step_def Cursor_page_node_def elemRef_isLeaf_def Cursor_searchNode_def
        set_index_push ref_at_def Let_def j_def [symmetric] jk)
  moreover have "dropWhile (\<lambda>e. ekey ?m e < slice_bytes ?m key) (flat (PBranch ks ts))
      = dropWhile (\<lambda>e. ekey ?m e < slice_bytes ?m key) (flat (ts ! k)) @ concat (map flat (drop (Suc k) ts))"
    using b(3,4) len(3) by (intro ordered_child [OF ord k]) (simp_all add: k_def)
  ultimately show ?thesis using c k by blast
qed

lemma search_finds:
  assumes "node_tree w (c_bucket c) pn t" and "page_node_at w (c_bucket c) pid = Inr pn"
    and "ordered (w_mem w) t" and "list_all (frame_ok w (c_bucket c)) fs" and "c_stack c = rev (map fst fs)"
  shows "\<exists>c' r es fs'. Cursor_search bufs w c key pid = Some (Inr c') \<and>
    sought w c (dropWhile (\<lambda>e. ekey (w_mem w) e < slice_bytes (w_mem w) key) (flat t) @ rest fs) c' r es fs'"
  using assms
proof (induction "weight t" arbitrary: c pn t pid fs rule: less_induct)
  case less
  let ?P = "\<lambda>e. ekey (w_mem w) e < slice_bytes (w_mem w) key"
  show ?case
  proof (cases t)
    case (PLeaf es)
    from search_step_leaf [OF less.prems(1,2) [unfolded PLeaf]] less.prems(3) PLeaf
    obtain i where st: "Cursor_search_step w c key pid (bufs (length (c_stack c)))
        = Inr (c\<lparr>c_stack := c_stack c @ [ref_at pn (int i)]\<rparr>, None)"
      and i: "i \<le> length es" "drop i es = dropWhile ?P es" by fastforce
    let ?c = "c\<lparr>c_stack := c_stack c @ [ref_at pn (int i)]\<rparr>"
    have "Cursor_search bufs w c key pid = Some (Inr ?c)" using st by (subst Cursor_search.simps) simp
    moreover have "on_path w ?c ((ref_at pn (int i), PLeaf es) # fs)"
      using less.prems(4,5) node_tree_rep [OF less.prems(1)] PLeaf by (simp add: on_path_def frame_ok_def)
    ultimately show ?thesis
      using i PLeaf by (intro exI [of _ ?c] exI [of _ "ref_at pn (int i)"] exI [of _ es] exI [of _ fs])
        (simp add: sought_def)
  next
    case (PBranch ks ts)
    from search_step_branch [OF less.prems(1,2,3) [unfolded PBranch]]
    obtain j pid' pn' where st: "Cursor_search_step w c key pid (bufs (length (c_stack c)))
        = Inr (c\<lparr>c_stack := c_stack c @ [ref_at pn (int j)]\<rparr>, Some (w, pid'))"
      and j: "j < length ts" and ch: "page_node_at w (c_bucket c) pid' = Inr pn'" "node_tree w (c_bucket c) pn' (ts ! j)"
      and dw: "dropWhile ?P (flat (PBranch ks ts)) = dropWhile ?P (flat (ts ! j)) @ concat (map flat (drop (Suc j) ts))"
      by blast
    let ?c = "c\<lparr>c_stack := c_stack c @ [ref_at pn (int j)]\<rparr>" and ?fs = "(ref_at pn (int j), t) # fs"
    have step: "Cursor_search bufs w c key pid = Cursor_search bufs w ?c key pid'"
      using st by (subst Cursor_search.simps) simp
    have mem: "ts ! j \<in> set ts" using j by simp
    then have w: "weight (ts ! j) < weight t" using PBranch by (simp add: le_imp_less_Suc member_le_sum_list)
    have o: "ordered (w_mem w) (ts ! j)" using less.prems(3) PBranch mem by (simp add: list_all_iff)
    have f: "list_all (frame_ok w (c_bucket ?c)) ?fs"
      using less.prems(4) node_tree_rep [OF less.prems(1)] PBranch j by (simp add: frame_ok_def)
    have "c_stack ?c = rev (map fst ?fs)" using less.prems(5) by simp
    moreover have "node_tree w (c_bucket ?c) pn' (ts ! j)" "page_node_at w (c_bucket ?c) pid' = Inr pn'"
      using ch by simp_all
    ultimately obtain c' r es fs' where
      f': "Cursor_search bufs w ?c key pid' = Some (Inr c')"
      and so: "sought w ?c (dropWhile ?P (flat (ts ! j)) @ rest ?fs) c' r es fs'"
      using less.hyps [OF w _ _ o f] by blast
    have eq: "dropWhile ?P (flat (ts ! j)) @ rest ?fs = dropWhile ?P (flat t) @ rest fs"
      using dw PBranch by (simp add: nat_add_distrib)
    have "sought w c (dropWhile ?P (flat t) @ rest fs) c' r es fs'"
      using so unfolding eq by (simp add: sought_def)
    then show ?thesis using f' step by metis
  qed
qed

section \<open>\<^verbatim>\<open>seek\<close>\<close>

definition bucket_nodes :: "world \<Rightarrow> Cursor \<Rightarrow> ptree \<Rightarrow> bool" where
  "bucket_nodes w c t \<longleftrightarrow> assert_open w c = Inr () \<and>
     (\<exists>b pn. get_bucket w (c_bucket c) = Inr b \<and> Bucket_page_node w b (Bucket_root b) = Inr pn \<and>
        node_tree w (c_bucket c) pn t)"

lemma keyValue_both: "Cursor_keyValue w c = Inr (None, v, f) \<Longrightarrow> v = None \<and> f = 0"
  by (auto simp: Cursor_keyValue_def bindE_Inr_iff Let_def split: if_splits)

lemma next_loop_both:
  assumes "next_loop w c = Some y"
  shows "\<forall>c' v f. y = Inr (c', None, v, f) \<longrightarrow> v = None \<and> f = 0"
proof (rule next_loop.raw_induct [OF _ assms])
  fix nl :: "world \<Rightarrow> Cursor \<Rightarrow> (Cursor \<times> kvf) res option" and w c y
  assume IH: "\<And>w c y. nl w c = Some y \<Longrightarrow> \<forall>c' v f. y = Inr (c', None, v, f) \<longrightarrow> v = None \<and> f = 0"
    and y: "bindP (Some (climb w (rev (c_stack c)))) (\<lambda>s. case s of
         None \<Rightarrow> Some (Inr (c, None, None, 0))
       | Some rs \<Rightarrow>
           bindP (Cursor_to_first w (c\<lparr>c_stack := rev rs\<rparr>)) (\<lambda>c1.
           bindP (Some (bindE (stack_back (c_stack c1)) (elemRef_count w))) (\<lambda>n.
             if n = 0 then nl w c1 else Some (bindE (Cursor_keyValue w c1) (\<lambda>x. Inr (c1, x)))))) = Some y"
  show "\<forall>c' v f. y = Inr (c', None, v, f) \<longrightarrow> v = None \<and> f = 0"
  proof (intro allI impI)
    fix c' v f assume "y = Inr (c', None, v, f)"
    from y [unfolded this bindP_Inr_iff] obtain s where
      s: "(case s of None \<Rightarrow> Some (Inr (c, None, None, 0))
       | Some rs \<Rightarrow>
           bindP (Cursor_to_first w (c\<lparr>c_stack := rev rs\<rparr>)) (\<lambda>c1.
           bindP (Some (bindE (stack_back (c_stack c1)) (elemRef_count w))) (\<lambda>n.
             if n = 0 then nl w c1 else Some (bindE (Cursor_keyValue w c1) (\<lambda>x. Inr (c1, x))))))
        = Some (Inr (c', None, v, f))" by blast
    then show "v = None \<and> f = 0"
    proof (cases s)
      case (Some rs)
      with s obtain c1 where "nl w c1 = Some (Inr (c', None, v, f)) \<or> Cursor_keyValue w c1 = Inr (None, v, f)"
        by (auto simp: bindP_Inr_iff bindE_Inr_iff split: if_splits)
      then show ?thesis using IH keyValue_both by blast
    qed simp
  qed
qed

text \<open>
  C37. The test of \<^verbatim>\<open>seek\<close> for an absent key is inverted: whenever it returns, on pages or nodes, it
  returns nil for key and value, even if it found the key.
\<close>

theorem Cursor_seek_nil:
  assumes "Cursor_seek bufs w c key = Some (Inr (c', kv))"
  shows "kv = (None, None)"
proof -
  from assms obtain c1 x1 c2 x where a: "Cursor_seek_leaf bufs w c key = Some (Inr (c1, x1))"
    and b: "Cursor_next_leaf w c1 = Some (Inr (c2, x)) \<or> x = x1"
    and kv: "kv = seek_report x"
    by (fastforce simp: Cursor_seek_def bindP_Inr_iff split: if_splits)
  have "\<forall>v f. x1 = (None, v, f) \<longrightarrow> v = None \<and> f = 0"
    using a by (auto simp: Cursor_seek_leaf_def bindP_Inr_iff bindE_Inr_iff dest: keyValue_both split: if_splits)
  moreover have "\<forall>v f. x = (None, v, f) \<longrightarrow> v = None \<and> f = 0" if "Cursor_next_leaf w c1 = Some (Inr (c2, x))"
    using that next_loop_both [of w c1 "Inr (c2, x)"] by (auto simp: Cursor_next_leaf_def split: if_splits)
  ultimately have "\<forall>v f. x = (None, v, f) \<longrightarrow> v = None \<and> f = 0" using b by blast
  then show ?thesis unfolding kv by (cases x; cases "fst x") (auto simp: seek_report_def)
qed

lemma seek_positions:
  assumes "bucket_nodes w c t" and "ordered (w_mem w) t"
    and "es0 = dropWhile (\<lambda>e. ekey (w_mem w) e < slice_bytes (w_mem w) key) (flat t)"
  shows "\<exists>c' fs. Cursor_seek bufs w c key = Some (Inr (c', None, None)) \<and> on_path w c' fs \<and>
    c_bucket c' = c_bucket c \<and> rest fs = tl es0 \<and>
    (es0 \<noteq> [] \<longrightarrow> Cursor_keyValue w c' = Inr (show_ent (hd es0)))"
proof -
  from assms(1) obtain b pn where o: "assert_open w c = Inr ()" and b: "get_bucket w (c_bucket c) = Inr b"
    and pn: "Bucket_page_node w b (Bucket_root b) = Inr pn" and t: "node_tree w (c_bucket c) pn t"
    by (auto simp: bucket_nodes_def)
  let ?c = "c\<lparr>c_stack := []\<rparr>"
  have "page_node_at w (c_bucket ?c) (Bucket_root b) = Inr pn" using b pn by (simp add: page_node_at_def)
  from search_finds [OF _ this assms(2), of "[]" bufs key] t obtain c1 r es fs1 where
    s: "Cursor_search bufs w ?c key (Bucket_root b) = Some (Inr c1)" and so: "sought w ?c es0 c1 r es fs1"
    by (auto simp: assms(3))
  let ?fs = "(r, PLeaf es) # fs1"
  have p: "on_path w c1 ?fs" and b1: "c_bucket c1 = c_bucket c" and ah: "ahead ?fs = es0"
    using so by (simp_all add: sought_def)
  have fr: "frame_ok w (c_bucket c1) (r, PLeaf es)" and top: "stack_back (c_stack c1) = Inr r"
    using p by (simp_all add: on_path_def stack_back_def)
  note cnt = frame_leafD(2) [OF fr]
  show ?thesis
  proof (cases "er_index r < int (length es)")
    case True
    note k = on_path_leaf(2,3) [OF p True]
    have "Cursor_seek bufs w c key = Some (Inr (c1, None, None))"
      using o b s top cnt True k(1)
      by (cases "es ! nat (er_index r)")
        (simp add: Cursor_seek_def Cursor_seek_leaf_def show_ent_def seek_report_def)
    moreover have "es0 = es ! nat (er_index r) # rest ?fs" using k(2) ah by (simp only:)
    ultimately show ?thesis using p b1 k(1) by (intro exI [of _ c1] exI [of _ ?fs]) (simp del: rest.simps)
  next
    case False
    from next_leaf_moves [OF p] obtain c2 x fs2 where n: "Cursor_next_leaf w c1 = Some (Inr (c2, x))"
      and m: "moved w c1 ?fs c2 x fs2" by blast
    have r: "rest ?fs = es0" using False ah by simp
    have m': "on_path w c2 fs2 \<and> c_bucket c2 = c_bucket c1 \<and>
      (case es0 of
        [] \<Rightarrow> x = (None, None, 0) \<and> rest fs2 = [] \<and> (fs2 = ?fs \<or> (\<exists>r fs''. fs2 = (r, PLeaf []) # fs''))
      | e # es \<Rightarrow> x = show_ent e \<and> rest fs2 = es \<and> Cursor_keyValue w c2 = Inr x)"
      using m unfolding moved_def r .
    have "seek_report x = (None, None)"
      using m' by (cases es0) (auto simp: seek_report_def show_ent_def split: prod.splits)
    then have "Cursor_seek bufs w c key = Some (Inr (c2, None, None))"
      using o b s top cnt False n by (simp add: Cursor_seek_def Cursor_seek_leaf_def)
    moreover have "rest fs2 = tl es0 \<and> (es0 \<noteq> [] \<longrightarrow> Cursor_keyValue w c2 = Inr (show_ent (hd es0)))"
      using m' by (cases es0) simp_all
    ultimately show ?thesis using m' b1 by metis
  qed
qed

text \<open>
  C6. Where \<^verbatim>\<open>seek\<close> leaves the cursor: on an ordered tree of nodes it returns, the current element is
  the first entry whose key is not less than the one sought (if there is one), and calls of
  \<^verbatim>\<open>next\<close> yield the entries after it in order and then nil.
\<close>

theorem Cursor_seek_positions:
  assumes "bucket_nodes w c t" and "ordered (w_mem w) t"
  shows "\<exists>c'. let es0 = dropWhile (\<lambda>e. ekey (w_mem w) e < slice_bytes (w_mem w) key) (flat t) in
    Cursor_seek bufs w c key = Some (Inr (c', None, None)) \<and>
    (es0 \<noteq> [] \<longrightarrow> Cursor_keyValue w c' = Inr (show_ent (hd es0))) \<and>
    collect_next w c' n = Some (Inr (padded n (map visible (tl es0))))"
proof -
  from seek_positions [OF assms refl, of bufs key] obtain c' fs where
    s: "Cursor_seek bufs w c key = Some (Inr (c', None, None))" and p: "on_path w c' fs"
    and b: "c_bucket c' = c_bucket c"
    and r: "rest fs = tl (dropWhile (\<lambda>e. ekey (w_mem w) e < slice_bytes (w_mem w) key) (flat t))"
    and k: "dropWhile (\<lambda>e. ekey (w_mem w) e < slice_bytes (w_mem w) key) (flat t) \<noteq> [] \<longrightarrow> Cursor_keyValue w c'
      = Inr (show_ent (hd (dropWhile (\<lambda>e. ekey (w_mem w) e < slice_bytes (w_mem w) key) (flat t))))"
    by blast
  have "assert_open w c' = Inr ()"
    using assms(1) assert_open_bucket [OF b, of w] by (simp add: bucket_nodes_def)
  from collect_next_rest [OF p this, of n] s k show ?thesis unfolding r Let_def by blast
qed

lemma walk_ordered: "ordered (w_mem walk_world) walk_tree"
proof -
  have "list_all (\<lambda>i. \<forall>e \<in> set (flat ([PLeaf [(Slice_make 100 2, Slice_make 104 1, 0)], PLeaf [],
      PLeaf [(Slice_make 102 2, Slice_make 104 1, 1)]] ! i)).
      (0 < i \<longrightarrow> [[97, 97], [97, 97, 97], [97, 98]] ! i \<le> ekey (w_mem walk_world) e) \<and>
      (Suc i < 3 \<longrightarrow> ekey (w_mem walk_world) e < [[97, 97], [97, 97, 97], [97, 98]] ! Suc i)) [0, 1, 2]"
    by (simp add: ekey_def walk_world_def test_world_def test_mem_def slice_bytes_def Slice_make_def mem_eval)
  then show ?thesis
    by (simp add: walk_tree_def All_less_Suc)
qed

lemma walk_bucket_nodes: "bucket_nodes walk_world walk_cursor walk_tree"
  using walk_open walk_root walk_node_tree by (auto simp: bucket_nodes_def walk_cursor_def)

lemma walk_drop:
  "dropWhile (\<lambda>e. ekey (w_mem walk_world) e < slice_bytes (w_mem walk_world) (Slice_make 100 3)) (flat walk_tree)
     = [(Slice_make 102 2, Slice_make 104 1, 1)]"
  by (simp add: walk_tree_def ekey_def walk_world_def test_world_def test_mem_def slice_bytes_def
      Slice_make_def mem_eval)

theorem Cursor_seek_nil_witness:
  "\<exists>c' kv. Cursor_seek (\<lambda>_. 0) walk_world walk_cursor (Slice_make 100 3) = Some (Inr (c', kv)) \<and> kv = (None, None)"
  using seek_positions [OF walk_bucket_nodes walk_ordered refl, of "\<lambda>_. 0" "Slice_make 100 3"]
    Cursor_seek_nil [of "\<lambda>_. 0" walk_world walk_cursor "Slice_make 100 3"] by blast

theorem Cursor_seek_positions_witness:
  "\<exists>c'. Cursor_seek (\<lambda>_. 0) walk_world walk_cursor (Slice_make 100 3) = Some (Inr (c', None, None)) \<and>
    Cursor_keyValue walk_world c' = Inr (Some (Slice_make 102 2), Some (Slice_make 104 1), 1) \<and>
    collect_next walk_world c' 1 = Some (Inr [(None, None)])"
  using Cursor_seek_positions [OF walk_bucket_nodes walk_ordered, of "Slice_make 100 3" "\<lambda>_. 0" 1]
  unfolding walk_drop Let_def by (auto simp: show_ent_def)

section \<open>Searching a page\<close>

lemma copied_keys:
  assumes "i < unat (Page_count (w_mem w) p)"
  shows "LeafPageElement_key (w_mem (copy_elems w p buf)) (buf + 16 * of_nat i)
      = (LeafPageElement_key (w_mem w) (Page_ptr (w_mem w) p + 16 * of_nat i))
          \<lparr>s_data := s_data (LeafPageElement_key (w_mem w) (Page_ptr (w_mem w) p + 16 * of_nat i)) + (buf - Page_ptr (w_mem w) p)\<rparr>"
    and "BranchPageElement_key (w_mem (copy_elems w p buf)) (buf + 16 * of_nat i)
      = (BranchPageElement_key (w_mem w) (Page_ptr (w_mem w) p + 16 * of_nat i))
          \<lparr>s_data := s_data (BranchPageElement_key (w_mem w) (Page_ptr (w_mem w) p + 16 * of_nat i)) + (buf - Page_ptr (w_mem w) p)\<rparr>"
proof -
  let ?m = "w_mem w" and ?q = "Page_ptr (w_mem w) p" and ?n = "16 * unat (Page_count (w_mem w) p)"
  have n: "?n \<le> 2 ^ 64" using unsigned_less [of "Page_count ?m p", where ?'a = nat] by simp
  have "load_u32 (w_mem (copy_elems w p buf)) (buf + 16 * of_nat i + of_nat j)
      = load_u32 ?m (?q + 16 * of_nat i + of_nat j)" if "j + 4 \<le> 16" for j
    using copied_u32 [of "16 * i + j" ?n ?m buf ?q] n assms that by (simp add: copy_elems_def add.assoc)
  note ld = this [of 0] this [of 4] this [of 8] this [of 12]
  from ld show "LeafPageElement_key (w_mem (copy_elems w p buf)) (buf + 16 * of_nat i)
      = (LeafPageElement_key ?m (?q + 16 * of_nat i))
          \<lparr>s_data := s_data (LeafPageElement_key ?m (?q + 16 * of_nat i)) + (buf - ?q)\<rparr>"
    by (simp add: LeafPageElement_key_def load_leaf_def Slice_make_def algebra_simps)
  from ld show "BranchPageElement_key (w_mem (copy_elems w p buf)) (buf + 16 * of_nat i)
      = (BranchPageElement_key ?m (?q + 16 * of_nat i))
          \<lparr>s_data := s_data (BranchPageElement_key ?m (?q + 16 * of_nat i)) + (buf - ?q)\<rparr>"
    by (simp add: BranchPageElement_key_def load_branch_def Slice_make_def algebra_simps)
qed

lemma branch_index_cong:
  assumes "\<And>i. i < n \<Longrightarrow> lt i = lt' i" and "\<And>i. i < n \<Longrightarrow> eqk i = eqk' i"
  shows "branch_index lt eqk n = branch_index lt' eqk' n"
proof -
  have "lower_bound lt n = lower_bound lt' n" using assms(1) by (rule lower_bound_cong)
  moreover have "lower_bound lt' n \<noteq> n \<Longrightarrow> eqk (lower_bound lt' n) = eqk' (lower_bound lt' n)"
    using assms(2) lower_bound_le [of lt' n] by (simp add: nat_less_le)
  ultimately show ?thesis by (auto simp: branch_index_def Let_def)
qed

text \<open>
  C36. Searching a page does not search the page's keys. \<^verbatim>\<open>nsearch\<close> and \<^verbatim>\<open>searchPage\<close> search a local
  copy of the elements, and an element finds its key relative to its own address; so the position
  they put into the cursor, and the child \<^verbatim>\<open>searchPage\<close> goes on with, is the lower bound (and exact
  match) among the byte strings that lie as far behind the real keys as the local vector lies behind
  the page's elements, whatever bytes are there.
\<close>

theorem Cursor_page_search_shifted:
  assumes "stack_back (c_stack c) = Inr r" and "er_node r = nullptr" and "er_page r = p"
  shows "let m = w_mem w; m' = w_mem (copy_elems w p buf); q = Page_ptr m p; n = unat (Page_count m p);
      k = slice_bytes m' key;
      shifted = (\<lambda>s. slice_bytes m' (s\<lparr>s_data := s_data s + (buf - q)\<rparr>));
      lk = (\<lambda>i. shifted (LeafPageElement_key m (q + 16 * of_nat i)));
      bk = (\<lambda>i. shifted (BranchPageElement_key m (q + 16 * of_nat i)));
      j = branch_index (\<lambda>i. bk i < k) (\<lambda>i. bk i = k) n
    in Cursor_nsearch w c key buf = Inr (set_index c (int_of_size (lower_bound (\<lambda>i. lk i < k) n))) \<and>
      Cursor_searchPage w c key p buf =
        bindE (vec_at (Page_branchPageElements m p) j) (\<lambda>e. Inr (set_index c j, be_id e))"
proof -
  let ?m' = "w_mem (copy_elems w p buf)"
  have n: "length (Page_leafPageElements (w_mem w) p) = unat (Page_count (w_mem w) p)"
    "length (Page_branchPageElements (w_mem w) p) = unat (Page_count (w_mem w) p)"
    by (simp_all add: Page_leafPageElements_def Page_branchPageElements_def)
  let ?n = "unat (Page_count (w_mem w) p)" and ?k = "slice_bytes ?m' key" and ?q = "Page_ptr (w_mem w) p"
  let ?lk = "\<lambda>i. let s = LeafPageElement_key (w_mem w) (?q + 16 * of_nat i) in
    slice_bytes ?m' (s\<lparr>s_data := s_data s + (buf - ?q)\<rparr>)"
  let ?bk = "\<lambda>i. let s = BranchPageElement_key (w_mem w) (?q + 16 * of_nat i) in
    slice_bytes ?m' (s\<lparr>s_data := s_data s + (buf - ?q)\<rparr>)"
  have "lower_bound (\<lambda>i. LeafPageElement_less_key ?m' (buf + 16 * of_nat i) key) ?n = lower_bound (\<lambda>i. ?lk i < ?k) ?n"
    by (rule lower_bound_cong) (simp only: leaf_elem.elt_lt_iff copied_keys Let_def)
  moreover have "branch_index (\<lambda>i. BranchPageElement_less_key ?m' (buf + 16 * of_nat i) key)
      (\<lambda>i. BranchPageElement_eq_key ?m' (buf + 16 * of_nat i) key) ?n = branch_index (\<lambda>i. ?bk i < ?k) (\<lambda>i. ?bk i = ?k) ?n"
    by (rule branch_index_cong) (simp_all only: branch_elem.elt_lt_iff branch_elem.elt_eq_iff copied_keys Let_def)
  ultimately show ?thesis
    using assms by (simp only: Let_def Cursor_nsearch_def Cursor_searchPage_def n bindE_simps simp_thms if_False)
qed

text \<open>
  A leaf page at 4096 with the key \<^verbatim>\<open>aa\<close> as its one element, searched for \<^verbatim>\<open>aa\<close> with the local vector
  in zeroed memory at 65536: the search goes past the end.
\<close>

definition shift_mem :: mem where
  "shift_mem = store_u32 (store_u32 (Page_setCount (Page_ctor
    ((\<lambda>_. 0)(8208 := 97, 8209 := 97)) 4096 3 LeafPageFlag 8192) 4096 1) 8196 16) 8200 2"

theorem Cursor_page_search_shifted_witness:
  "let w = test_world\<lparr>w_mem := shift_mem\<rparr>;
       c = \<lparr>c_bucket = 32, c_stack = [\<lparr>er_page = 4096, er_node = 0, er_index = 0\<rparr>]\<rparr>;
       key = LeafPageElement_key (w_mem w) 8192
   in slice_bytes (w_mem w) key = [97, 97] \<and> Page_count (w_mem w) 4096 = 1 \<and>
      Cursor_nsearch w c key 65536 = Inr (set_index c 1)"
proof -
  define w where "w = test_world\<lparr>w_mem := shift_mem\<rparr>"
  let ?c = "\<lparr>c_bucket = 32, c_stack = [\<lparr>er_page = 4096, er_node = 0, er_index = 0\<rparr>]\<rparr>"
  let ?key = "LeafPageElement_key (w_mem w) 8192"
  let ?m' = "w_mem (copy_elems w 4096 65536)"
  have k: "?key = Slice_make 8208 2"
    by (simp add: w_def LeafPageElement_key_def load_leaf_def shift_mem_def page_access)
  have p: "Page_count (w_mem w) 4096 = 1" "Page_ptr (w_mem w) 4096 = 8192"
    by (simp_all add: w_def shift_mem_def page_access Page_ctor_def)
  have far: "?m' x = w_mem w x" if "x \<notin> region 65536 16" for x
    using that by (simp add: copy_elems_def p write_bytes_outside)
  have own: "w_mem w 8208 = 97" "w_mem w 8209 = 97" "w_mem w 65552 = 0" "w_mem w 65553 = 0"
    by (simp_all add: w_def shift_mem_def Page_ctor_def Page_setCount_def store_frames region_def)
  have b: "slice_bytes (w_mem w) ?key = [97, 97]" "slice_bytes ?m' ?key = [97, 97]"
    "slice_bytes ?m' (?key\<lparr>s_data := s_data ?key + 57344\<rparr>) = [0, 0]"
    by (simp_all add: k slice_bytes_def Slice_make_def mem_eval far own region_def)
  have "Cursor_nsearch w ?c ?key 65536 =
      Inr (set_index ?c (int_of_size (lower_bound (\<lambda>i. slice_bytes ?m' ((LeafPageElement_key (w_mem w) (8192 + 16 * of_nat i))
        \<lparr>s_data := s_data (LeafPageElement_key (w_mem w) (8192 + 16 * of_nat i)) + 57344\<rparr>) < slice_bytes ?m' ?key) 1)))"
    using Cursor_page_search_shifted [of ?c "\<lparr>er_page = 4096, er_node = 0, er_index = 0\<rparr>" 4096 w 65536 ?key]
    by (simp add: stack_back_def p Let_def)
  also have "lower_bound (\<lambda>i. slice_bytes ?m' ((LeafPageElement_key (w_mem w) (8192 + 16 * of_nat i))
        \<lparr>s_data := s_data (LeafPageElement_key (w_mem w) (8192 + 16 * of_nat i)) + 57344\<rparr>) < slice_bytes ?m' ?key) 1 = 1"
    using b by (intro lower_bound_partition) simp_all
  finally show ?thesis using p b by (simp add: Let_def w_def [symmetric] int_of_size_small)
qed

section \<open>Deleting\<close>

lemma node_loop_never: "node_loop w n st i \<noteq> Inr a"
proof (induction i arbitrary: n)
  case 0
  then show ?case by (subst node_loop.simps) (auto simp: bindE_Inr_iff)
next
  case (Suc i)
  then show ?case by (subst node_loop.simps) (auto simp: bindE_Inr_iff)
qed

lemma Cursor_node_iff:
  "Cursor_node w c = Inr n \<longleftrightarrow> 9 < length (c_stack c) \<and> n = er_node (last (c_stack c)) \<and> n \<noteq> 0 \<and>
     (\<exists>nd. get_node w n = Inr nd \<and> n_isLeaf nd)"
  by (auto simp: Cursor_node_def stack_back_def bindE_Inr_iff elemRef_isLeaf_def node_loop_never split: if_splits)

text \<open>
  C29. When \<^verbatim>\<open>deleteCurrent\<close> deletes: exactly on a stack of more than nine levels (the assertion of
  \<^verbatim>\<open>node\<close> has the wrong bound) with a materialised leaf on top, in an open writable transaction, at
  an element that is not a bucket; then it is \<^verbatim>\<open>del\<close> of the current key on that leaf.
\<close>

theorem Cursor_deleteCurrent_iff:
  "Cursor_deleteCurrent w c = Inr w' \<longleftrightarrow>
     9 < length (c_stack c) \<and> er_node (last (c_stack c)) \<noteq> 0 \<and>
     (\<exists>b t k v f nd nd'. get_bucket w (c_bucket c) = Inr b \<and> get_tx w (b_tx b) = Inr t \<and>
        tx_db t \<noteq> 0 \<and> tx_writable t \<and>
        Cursor_keyValue w c = Inr (Some k, v, f) \<and> f AND BucketLeafFlag = 0 \<and>
        get_node w (er_node (last (c_stack c))) = Inr nd \<and> n_isLeaf nd \<and>
        Node_del (w_mem w) nd k = Inr nd' \<and> w' = set_node w (er_node (last (c_stack c))) nd')"
proof
  assume "Cursor_deleteCurrent w c = Inr w'"
  then obtain b t key v f n where 1: "get_bucket w (c_bucket c) = Inr b" "get_tx w (b_tx b) = Inr t"
      "tx_db t \<noteq> 0" "tx_writable t" "Cursor_keyValue w c = Inr (key, v, f)" "f AND BucketLeafFlag = 0"
      and n: "Cursor_node w c = Inr n"
      and d: "(case key of None \<Rightarrow> Inl (Throw BadOptionalAccess)
        | Some k \<Rightarrow> bindE (get_node w n) (\<lambda>nd. bindE (Node_del (w_mem w) nd k) (\<lambda>nd'. Inr (set_node w n nd')))) = Inr w'"
    unfolding Cursor_deleteCurrent_def Bucket_tx_def Bucket_writable_def
    by (auto simp: bindE_Inr_iff split: if_splits)
  then show "9 < length (c_stack c) \<and> er_node (last (c_stack c)) \<noteq> 0 \<and>
     (\<exists>b t k v f nd nd'. get_bucket w (c_bucket c) = Inr b \<and> get_tx w (b_tx b) = Inr t \<and>
        tx_db t \<noteq> 0 \<and> tx_writable t \<and>
        Cursor_keyValue w c = Inr (Some k, v, f) \<and> f AND BucketLeafFlag = 0 \<and>
        get_node w (er_node (last (c_stack c))) = Inr nd \<and> n_isLeaf nd \<and>
        Node_del (w_mem w) nd k = Inr nd' \<and> w' = set_node w (er_node (last (c_stack c))) nd')"
    by (cases key) (auto simp: Cursor_node_iff bindE_Inr_iff)
next
  assume "9 < length (c_stack c) \<and> er_node (last (c_stack c)) \<noteq> 0 \<and>
     (\<exists>b t k v f nd nd'. get_bucket w (c_bucket c) = Inr b \<and> get_tx w (b_tx b) = Inr t \<and>
        tx_db t \<noteq> 0 \<and> tx_writable t \<and>
        Cursor_keyValue w c = Inr (Some k, v, f) \<and> f AND BucketLeafFlag = 0 \<and>
        get_node w (er_node (last (c_stack c))) = Inr nd \<and> n_isLeaf nd \<and>
        Node_del (w_mem w) nd k = Inr nd' \<and> w' = set_node w (er_node (last (c_stack c))) nd')"
  moreover from this have "Cursor_node w c = Inr (er_node (last (c_stack c)))" by (auto simp: Cursor_node_iff)
  ultimately show "Cursor_deleteCurrent w c = Inr w'"
    by (auto simp: Cursor_deleteCurrent_def Bucket_tx_def Bucket_writable_def)
qed

end
