(* ===== verification/Node_Tree.thy ===== *)
theory Node_Tree
  imports Node_Map
begin

text \<open>
  Nodes among other nodes: following parent pointers to the root, finding a child in its parent,
  and the pointers a node needs for its operations to be defined.
\<close>

section \<open>The root of a node\<close>

text \<open>The parent relation of the node heap.\<close>

definition parents :: "world \<Rightarrow> (addr \<times> addr) set" where
  "parents w = {(a, q). \<exists>n. get_node w a = Inr n \<and> n_parent n = q \<and> q \<noteq> nullptr}"

definition is_root :: "world \<Rightarrow> addr \<Rightarrow> bool" where
  "is_root w a \<longleftrightarrow> (\<exists>n. get_node w a = Inr n \<and> n_parent n = nullptr)"

lemma parents_functional: "(a, q) \<in> parents w \<Longrightarrow> (a, q') \<in> parents w \<Longrightarrow> q = q'"
  by (auto simp: parents_def)

lemma parents_live: "(a, q) \<in> parents w \<Longrightarrow> a \<in> dom (w_nodes w)"
  by (auto simp: parents_def get_defs deref_Inr_iff)

lemma Node_root_unfold:
  "Node_root w a = (case get_node w a of
     Inl e \<Rightarrow> Some (Inl e)
   | Inr n \<Rightarrow> if n_parent n = nullptr then Some (Inr a) else Node_root w (n_parent n))"
  by (subst Node_root.simps) simp

text \<open>The three cases of a call: the root itself, a dangling pointer, a step to the parent.\<close>

lemma Node_root_cases:
  obtains "is_root w a" and "Node_root w a = Some (Inr a)"
  | e where "get_node w a = Inl e" and "Node_root w a = Some (Inl e)"
  | q where "(a, q) \<in> parents w" and "Node_root w a = Node_root w q"
proof (cases "get_node w a")
  case (Inl e)
  then show thesis by (intro that(2)) (simp_all add: Node_root_unfold [of w a])
next
  case (Inr n)
  show thesis
  proof (cases "n_parent n = nullptr")
    case True
    with Inr show thesis by (intro that(1)) (simp_all add: Node_root_unfold [of w a] is_root_def)
  next
    case False
    with Inr show thesis
      by (intro that(3) [of "n_parent n"]) (simp_all add: Node_root_unfold [of w a] parents_def)
  qed
qed

lemma Node_root_along: "(a, c) \<in> (parents w)\<^sup>* \<Longrightarrow> Node_root w a = Node_root w c"
proof (induction rule: rtrancl_induct)
  case (step b c)
  then show ?case
    by (cases w b rule: Node_root_cases) (auto simp: parents_def is_root_def)
qed simp

lemma Node_root_no_cycle:
  assumes "Node_root w a = Some r"
  shows "(a, a) \<notin> (parents w)\<^sup>+"
proof (rule Node_root.raw_induct [OF _ assms])
  fix f and w :: world and a :: addr and r :: "addr res"
  assume IH: "\<And>w a r. f w a = Some r \<Longrightarrow> (a, a) \<notin> (parents w)\<^sup>+"
    and r: "(case get_node w a of
        Inl e \<Rightarrow> Some (Inl e)
      | Inr n \<Rightarrow> if n_parent n = nullptr then Some (Inr a) else f w (n_parent n)) = Some r"
  show "(a, a) \<notin> (parents w)\<^sup>+"
  proof
    assume "(a, a) \<in> (parents w)\<^sup>+"
    then obtain q where q: "(a, q) \<in> parents w" "(q, a) \<in> (parents w)\<^sup>*" by (meson tranclD)
    then have "f w q = Some r" using r by (auto simp: parents_def)
    then have "(q, q) \<notin> (parents w)\<^sup>+" by (rule IH)
    with q show False by (meson rtrancl_into_trancl1)
  qed
qed

lemma Node_root_returns:
  assumes "Node_root w a = Some x"
  shows "\<forall>r. x = Inr r \<longrightarrow> (a, r) \<in> (parents w)\<^sup>* \<and> is_root w r"
proof (rule Node_root.raw_induct [OF _ assms])
  fix f and w :: world and a :: addr and x :: "addr res"
  assume IH: "\<And>w a x. f w a = Some x \<Longrightarrow> \<forall>r. x = Inr r \<longrightarrow> (a, r) \<in> (parents w)\<^sup>* \<and> is_root w r"
    and x: "(case get_node w a of
        Inl e \<Rightarrow> Some (Inl e)
      | Inr n \<Rightarrow> if n_parent n = nullptr then Some (Inr a) else f w (n_parent n)) = Some x"
  show "\<forall>r. x = Inr r \<longrightarrow> (a, r) \<in> (parents w)\<^sup>* \<and> is_root w r"
  proof (intro allI impI)
    fix r assume r: "x = Inr r"
    then obtain n where n: "get_node w a = Inr n" using x by (cases "get_node w a") auto
    show "(a, r) \<in> (parents w)\<^sup>* \<and> is_root w r"
    proof (cases "n_parent n = nullptr")
      case True
      then show ?thesis using x n r by (auto simp: is_root_def)
    next
      case False
      then have "(a, n_parent n) \<in> parents w" and "f w (n_parent n) = Some x"
        using x n by (simp_all add: parents_def)
      then show ?thesis using IH [of w "n_parent n" x] r by (auto intro: converse_rtrancl_into_rtrancl)
    qed
  qed
qed

lemma finite_parents: "finite (dom (w_nodes w)) \<Longrightarrow> finite (parents w)"
proof -
  assume fin: "finite (dom (w_nodes w))"
  have "parents w \<subseteq> (\<lambda>a. (a, n_parent (the (w_nodes w a)))) ` dom (w_nodes w)"
    by (auto simp: parents_def get_defs deref_Inr_iff image_iff)
  with fin show ?thesis by (meson finite_imageI finite_subset)
qed

lemma Node_root_acyclic_ends:
  assumes "finite (dom (w_nodes w))" and "\<And>c. (a, c) \<in> (parents w)\<^sup>* \<Longrightarrow> (c, c) \<notin> (parents w)\<^sup>+"
  shows "Node_root w a \<noteq> None"
proof -
  let ?S = "{c. (a, c) \<in> (parents w)\<^sup>*}"
  let ?R = "parents w \<inter> ?S \<times> ?S"
  have "finite ?R" using finite_parents [OF assms(1)] by simp
  moreover have "acyclic ?R"
  proof (rule acyclicI, intro allI notI)
    fix c assume c: "(c, c) \<in> ?R\<^sup>+"
    then have "(c, c) \<in> (parents w)\<^sup>+" by (rule trancl_mono) simp
    moreover have "(a, c) \<in> (parents w)\<^sup>*" using c by (auto dest: tranclD)
    ultimately show False using assms(2) by blast
  qed
  ultimately have "wf (?R\<inverse>)" by (rule finite_acyclic_wf_converse)
  then obtain c where c: "c \<in> ?S" and min: "\<And>q. (q, c) \<in> ?R\<inverse> \<Longrightarrow> q \<notin> ?S"
    using wfE_min [of "?R\<inverse>" a ?S] by blast
  have "(c, q) \<notin> parents w" for q
    using c min [of q] by (auto intro: rtrancl_into_rtrancl)
  then have "Node_root w c \<noteq> None" by (cases w c rule: Node_root_cases) auto
  then show ?thesis using Node_root_along c by simp
qed

text \<open>
  C19. Termination of \<^verbatim>\<open>root\<close>: in a heap of finitely many nodes it fails to return exactly when the parent
  pointers lead from the node into a cycle, and when it returns a node, that is the one node without
  a parent at the end of its parent pointers.
\<close>

theorem Node_root_terminates:
  assumes "finite (dom (w_nodes w))"
  shows "(Node_root w a = None \<longleftrightarrow> (\<exists>c. (a, c) \<in> (parents w)\<^sup>* \<and> (c, c) \<in> (parents w)\<^sup>+)) \<and>
    (Node_root w a = Some (Inr r) \<longleftrightarrow> (a, r) \<in> (parents w)\<^sup>* \<and> is_root w r)"
proof
  show "Node_root w a = None \<longleftrightarrow> (\<exists>c. (a, c) \<in> (parents w)\<^sup>* \<and> (c, c) \<in> (parents w)\<^sup>+)"
    using Node_root_acyclic_ends [OF assms] Node_root_along Node_root_no_cycle by (metis not_None_eq)
  show "Node_root w a = Some (Inr r) \<longleftrightarrow> (a, r) \<in> (parents w)\<^sup>* \<and> is_root w r"
  proof
    assume "Node_root w a = Some (Inr r)"
    then show "(a, r) \<in> (parents w)\<^sup>* \<and> is_root w r" using Node_root_returns by blast
  next
    assume "(a, r) \<in> (parents w)\<^sup>* \<and> is_root w r"
    then have "Node_root w a = Node_root w r" and "is_root w r" using Node_root_along by auto
    then show "Node_root w a = Some (Inr r)"
      by (cases w r rule: Node_root_cases) (auto simp: parents_def is_root_def)
  qed
qed

text \<open>Two nodes that are each other's parent, and a child of a root.\<close>

definition family_world :: world where
  "family_world = test_world\<lparr>w_nodes := [16 \<mapsto> test_node\<lparr>n_parent := 24\<rparr>, 24 \<mapsto> test_node\<lparr>n_parent := 16\<rparr>,
     32 \<mapsto> test_node\<lparr>n_parent := 40\<rparr>, 40 \<mapsto> test_node\<lparr>n_parent := 0\<rparr>]\<rparr>"

theorem Node_root_terminates_witness:
  "Node_root family_world 16 = None \<and> Node_root family_world 32 = Some (Inr 40)"
proof -
  have fin: "finite (dom (w_nodes family_world))" by (simp add: family_world_def)
  have c: "(16, 24) \<in> parents family_world" "(24, 16) \<in> parents family_world" "(32, 40) \<in> parents family_world"
    "is_root family_world 40"
    by (simp_all add: parents_def is_root_def family_world_def get_defs)
  then have "(16, 16) \<in> (parents family_world)\<^sup>+" by (meson r_into_trancl trancl_into_trancl)
  then show ?thesis
    using Node_root_terminates [OF fin, of 16] Node_root_terminates [OF fin, of 32 40] c by auto
qed

section \<open>Searching a vector of inodes\<close>

text \<open>The searches the binary ones stand for: from the front, one element after the other.\<close>

fun linear_index :: "'k \<Rightarrow> 'k list \<Rightarrow> int" where
  "linear_index k [] = - 1"
| "linear_index k (x # xs) = (if x = k then 0 else if linear_index k xs < 0 then - 1 else linear_index k xs + 1)"

fun linear_lower :: "'k::linorder \<Rightarrow> 'k list \<Rightarrow> nat" where
  "linear_lower k [] = 0"
| "linear_lower k (x # xs) = (if x < k then Suc (linear_lower k xs) else 0)"

lemma linear_index_absent: "k \<notin> set xs \<Longrightarrow> linear_index k xs = - 1"
  by (induction xs) auto

lemma linear_index_found: "k \<notin> set as \<Longrightarrow> linear_index k (as @ k # bs) = int (length as)"
  by (induction as) auto

lemma linear_lower_split:
  "(\<And>x. x \<in> set as \<Longrightarrow> x < k) \<Longrightarrow> (\<And>x. x \<in> set bs \<Longrightarrow> \<not> x < k) \<Longrightarrow> linear_lower k (as @ bs) = length as"
  by (induction as) (auto simp: neq_Nil_conv intro: list.exhaust [of bs])

lemma childIndex_find_key:
  assumes "length (n_inodes n) < 2 ^ 31"
  shows "Node_childIndex m n child = (case find_key m n (n_key child) of (p, ex) \<Rightarrow> if ex then int p else - 1)"
proof -
  let ?p = "lower_bound (\<lambda>i. INode_less_key m (n_inodes n ! i) (n_key child)) (length (n_inodes n))"
  have "?p \<le> length (n_inodes n)" by (rule lower_bound_le)
  then have "int_of_size ?p = int ?p" using assms by (simp add: int_of_size_small)
  moreover have "int_of_size (length (n_inodes n)) > 0" if "?p \<noteq> length (n_inodes n)"
    using that assms \<open>?p \<le> length (n_inodes n)\<close> by (auto simp: int_of_size_small)
  ultimately show ?thesis
    by (auto simp: Node_childIndex_def find_key_def Let_def Node_numChildren_def)
qed

text \<open>
  C18. The binary searches of a node equal linear ones. On a node with ascending keys \<^verbatim>\<open>childIndex\<close> is the
  position at which a search from the front meets the child's key, -1 when it does not meet it; and
  the search shared by \<^verbatim>\<open>get\<close>, \<^verbatim>\<open>put\<close> and \<^verbatim>\<open>del\<close> gives the number of leading keys below the one sought and
  whether that key occurs.
\<close>

theorem Node_search_linear:
  assumes "node_sorted m n" and "length (n_inodes n) < 2 ^ 31"
  shows "Node_childIndex m n child = linear_index (slice_bytes m (n_key child)) (map (ikey m) (n_inodes n)) \<and>
    find_key m n key = (linear_lower (slice_bytes m key) (map (ikey m) (n_inodes n)),
      slice_bytes m key \<in> set (map (ikey m) (n_inodes n)))"
proof
  let ?ks = "map (ikey m) (n_inodes n)"
  obtain p ex where f: "find_key m n (n_key child) = (p, ex)" by (cases "find_key m n (n_key child)")
  note sp = find_key_split [OF assms f]
  show "Node_childIndex m n child = linear_index (slice_bytes m (n_key child)) ?ks"
  proof (cases ex)
    case True
    let ?as = "map (ikey m) (take p (n_inodes n))"
    have "?ks = ?as @ slice_bytes m (n_key child) # map (ikey m) (drop (Suc p) (n_inodes n))"
      using sp(3) [OF True] by (metis list.simps(9) map_append)
    moreover have "slice_bytes m (n_key child) \<notin> set ?as" using sp(2) by auto
    ultimately have "linear_index (slice_bytes m (n_key child)) ?ks = int (length ?as)"
      by (metis linear_index_found)
    then show ?thesis using sp(1) True f by (simp add: childIndex_find_key [OF assms(2)])
  next
    case False
    then show ?thesis using sp(5) f by (simp add: childIndex_find_key [OF assms(2)] linear_index_absent)
  qed
  obtain p ex where f: "find_key m n key = (p, ex)" by (cases "find_key m n key")
  note sp = find_key_split [OF assms f]
  have "\<not> ikey m i < slice_bytes m key" if "i \<in> set (drop p (n_inodes n))" for i
  proof (cases ex)
    case True
    then have "drop p (n_inodes n) = n_inodes n ! p # drop (Suc p) (n_inodes n)"
      using find_key_bound(2) [OF f] by (simp add: Cons_nth_drop_Suc)
    with that sp(3) [OF True] show ?thesis by auto
  next
    case False
    then show ?thesis using sp(4) that by (meson order_less_asym)
  qed
  then have "linear_lower (slice_bytes m key)
      (map (ikey m) (take p (n_inodes n)) @ map (ikey m) (drop p (n_inodes n))) = p"
    using sp(1,2) by (subst linear_lower_split) auto
  then show "find_key m n key = (linear_lower (slice_bytes m key) ?ks, slice_bytes m key \<in> set ?ks)"
    using f sp(5) by (simp add: take_map [symmetric] drop_map [symmetric])
qed

text \<open>A node with the keys \<^verbatim>\<open>aa\<close> and \<^verbatim>\<open>ab\<close>.\<close>

definition pair_node :: Node where
  "pair_node = test_node\<lparr>n_inodes :=
     [\<lparr>in_flags = 0, in_id = 0, in_key = Slice_make 100 2, in_value = Slice_make 104 1\<rparr>,
      \<lparr>in_flags = 0, in_id = 0, in_key = Slice_make 102 2, in_value = Slice_make 105 1\<rparr>]\<rparr>"

lemma pair_node_keys: "map (ikey test_mem) (n_inodes pair_node) = [[97, 97], [97, 98]]"
  by (simp add: pair_node_def slice_bytes_def Slice_make_def test_mem_def mem_eval)

theorem Node_search_linear_witness:
  "Node_childIndex test_mem pair_node (test_node\<lparr>n_key := Slice_make 102 2\<rparr>) = 1 \<and>
   find_key test_mem pair_node (Slice_make 104 1) = (2, False)"
proof -
  have "node_sorted test_mem pair_node"
    unfolding node_sorted_def inodes_sorted_def pair_node_keys by simp
  moreover have "length (n_inodes pair_node) < 2 ^ 31" by (simp add: pair_node_def)
  moreover have "slice_bytes test_mem (Slice_make 102 2) = [97, 98]" "slice_bytes test_mem (Slice_make 104 1) = [118]"
    by (simp_all add: slice_bytes_def Slice_make_def test_mem_def mem_eval)
  ultimately show ?thesis
    using Node_search_linear [of test_mem pair_node "test_node\<lparr>n_key := Slice_make 102 2\<rparr>" "Slice_make 104 1"]
    unfolding pair_node_keys by simp
qed

section \<open>Well-typed nodes\<close>

text \<open>
  The pointers of every node lead to live objects: its bucket, the bucket's transaction and its
  parent; and its vector has a size that an \<^verbatim>\<open>int\<close> can count.
\<close>

definition node_wt :: "world \<Rightarrow> Node \<Rightarrow> bool" where
  "node_wt w n \<longleftrightarrow> (\<exists>b t. get_bucket w (n_bucket n) = Inr b \<and> get_tx w (Bucket_tx b) = Inr t) \<and>
     (n_parent n = nullptr \<or> (\<exists>q. get_node w (n_parent n) = Inr q)) \<and> length (n_inodes n) < 2 ^ 31"

definition nodes_wt :: "world \<Rightarrow> bool" where
  "nodes_wt w \<longleftrightarrow> (\<forall>a n. get_node w a = Inr n \<longrightarrow> node_wt w n)"

lemma get_node_set: "get_node (set_node w a n) q = (if q = a then Inr n else get_node w q)"
  "get_bucket (set_node w a n) q = get_bucket w q" "get_tx (set_node w a n) q = get_tx w q"
  by (simp_all add: get_defs set_node_def deref_def)

lemma nodes_wt_set:
  assumes "nodes_wt w" and "get_node w a = Inr n" and "n_bucket n' = n_bucket n" and "n_parent n' = n_parent n"
    and "length (n_inodes n') < 2 ^ 31"
  shows "nodes_wt (set_node w a n')"
proof -
  have live: "\<exists>q'. get_node (set_node w a n') x = Inr q'" if "get_node w x = Inr q" for x q
    using that by (simp add: get_node_set)
  have other: "node_wt (set_node w a n') k" if "node_wt w k" for k
    using that live by (auto simp: node_wt_def get_node_set(2,3))
  have "node_wt w n" using assms(1,2) by (simp add: nodes_wt_def)
  from other [OF this] have "node_wt (set_node w a n') n'" using assms(3-5) by (simp add: node_wt_def)
  with other assms(1) show ?thesis by (auto simp: nodes_wt_def get_node_set(1))
qed

lemma childAt_outcome:
  assumes "node_wt w par" and "0 \<le> i" and "i < int (length (n_inodes par))"
  shows "case Node_childAt w par this i of Inl e \<Rightarrow> e = Exit 1 | Inr q \<Rightarrow> q = nullptr"
  using assms by (auto simp: Node_childAt_def node_wt_def vec_at_def Bucket_node_def)

lemma childIndex_bound: "length (n_inodes par) < 2 ^ 31 \<Longrightarrow> Node_childIndex m par n < int (length (n_inodes par))"
  using find_key_bound(2) [of m par "n_key n"]
  by (auto simp: childIndex_find_key split: prod.split)

lemma Node_put_outcome:
  assumes "node_wt w n"
  shows "case Node_put w n oldKey newKey val pid flags of
      Inl e \<Rightarrow> e = Exit 1
    | Inr n' \<Rightarrow> n_bucket n' = n_bucket n \<and> n_parent n' = n_parent n \<and> length (n_inodes n') \<le> Suc (length (n_inodes n))"
proof -
  obtain xs i where p: "put_inodes (w_mem w) n oldKey newKey val pid flags = (xs, i)"
    by (cases "put_inodes (w_mem w) n oldKey newKey val pid flags")
  obtain k ex where f: "find_key (w_mem w) n oldKey = (k, ex)" by (cases "find_key (w_mem w) n oldKey")
  have "length xs \<le> Suc (length (n_inodes n))"
    using p find_key_bound [OF f] by (auto simp: put_inodes_shape [OF f])
  moreover have "in_key (xs ! i) = newKey" using put_inodes_key [OF p] by simp
  ultimately show ?thesis using assms p by (auto simp: Node_put_def node_wt_def)
qed

lemma Node_del_outcome:
  "case Node_del m n key of
      Inl e \<Rightarrow> e = Exit 1
    | Inr n' \<Rightarrow> n_bucket n' = n_bucket n \<and> n_parent n' = n_parent n \<and> length (n_inodes n') \<le> length (n_inodes n)"
  by (cases "find_key m n key") (auto simp: Node_del_def erase_at_def)

text \<open>
  C20. Well-typed nodes stay well-typed and their operations are defined: when the pointers of all nodes
  lead to live objects, \<^verbatim>\<open>put\<close> and \<^verbatim>\<open>del\<close> either end the process with code 1 or leave a heap of which
  the same holds, and \<^verbatim>\<open>nextSibling\<close> and \<^verbatim>\<open>prevSibling\<close> read no element outside a vector and no dead
  object: they end the process with code 1 or answer the null pointer (\<^verbatim>\<open>Bucket::node\<close> has no
  other answer).
\<close>

theorem Node_ops_well_typed:
  assumes "nodes_wt w" and "get_node w a = Inr n" and "Suc (length (n_inodes n)) < 2 ^ 31"
  shows "(case Node_put w n oldKey newKey val pid flags of Inl e \<Rightarrow> e = Exit 1 | Inr n' \<Rightarrow> nodes_wt (set_node w a n')) \<and>
    (case Node_del (w_mem w) n key of Inl e \<Rightarrow> e = Exit 1 | Inr n' \<Rightarrow> nodes_wt (set_node w a n')) \<and>
    (case Node_nextSibling w n of Inl e \<Rightarrow> e = Exit 1 | Inr q \<Rightarrow> q = nullptr) \<and>
    (case Node_prevSibling w n of Inl e \<Rightarrow> e = Exit 1 | Inr q \<Rightarrow> q = nullptr)"
proof (intro conjI)
  have wt: "node_wt w n" using assms(1,2) by (simp add: nodes_wt_def)
  have keep: "nodes_wt (set_node w a n')"
    if "n_bucket n' = n_bucket n \<and> n_parent n' = n_parent n \<and> length (n_inodes n') \<le> Suc (length (n_inodes n))" for n'
    using that assms(3) by (intro nodes_wt_set [OF assms(1,2)]) auto
  show "case Node_put w n oldKey newKey val pid flags of Inl e \<Rightarrow> e = Exit 1 | Inr n' \<Rightarrow> nodes_wt (set_node w a n')"
    using Node_put_outcome [OF wt, of oldKey newKey val pid flags] keep by (auto split: sum.splits)
  show "case Node_del (w_mem w) n key of Inl e \<Rightarrow> e = Exit 1 | Inr n' \<Rightarrow> nodes_wt (set_node w a n')"
    using Node_del_outcome [where m = "w_mem w" and n = n and key = key] keep by (auto split: sum.splits)
  have par: "node_wt w q \<and> length (n_inodes q) < 2 ^ 31" if "get_node w (n_parent n) = Inr q" for q
    using that assms(1) by (auto simp: nodes_wt_def node_wt_def)
  have parent: "n_parent n = nullptr \<or> (\<exists>q. get_node w (n_parent n) = Inr q)" using wt by (simp add: node_wt_def)
  show "case Node_nextSibling w n of Inl e \<Rightarrow> e = Exit 1 | Inr q \<Rightarrow> q = nullptr"
    using parent par childAt_outcome
    by (auto simp: Node_nextSibling_def Let_def Node_numChildren_def int_of_size_small split: if_splits)
  show "case Node_prevSibling w n of Inl e \<Rightarrow> e = Exit 1 | Inr q \<Rightarrow> q = nullptr"
  proof (cases "n_parent n = nullptr")
    case False
    then obtain q where q: "get_node w (n_parent n) = Inr q" using parent by blast
    have "Node_childIndex (w_mem w) q n - 1 < int (length (n_inodes q))"
      using par [OF q] childIndex_bound [where par = q and m = "w_mem w" and n = n] by auto
    with q show ?thesis
      using False par [OF q] childAt_outcome [of w q "Node_childIndex (w_mem w) q n - 1" "n_parent n"]
      by (simp add: Node_prevSibling_def Let_def)
  qed (simp add: Node_prevSibling_def)
qed

lemma test_world_wt: "nodes_wt test_world"
  by (auto simp: nodes_wt_def node_wt_def test_world_def get_defs deref_def test_node_def test_bucket_def Bucket_tx_def
      split: if_splits)

theorem Node_ops_well_typed_witness:
  "case Node_put test_world test_node (Slice_make 100 2) (Slice_make 100 2) (Slice_make 104 1) 3 0 of
     Inl e \<Rightarrow> e = Exit 1 | Inr n' \<Rightarrow> nodes_wt (set_node test_world 16 n')"
proof -
  have "get_node test_world 16 = Inr test_node" "Suc (length (n_inodes test_node)) < 2 ^ 31"
    by (simp_all add: test_world_def get_defs test_node_def)
  from Node_ops_well_typed [OF test_world_wt this] show ?thesis by blast
qed

end
