(* ===== verification/Tx.thy ===== *)
theory Tx
  imports Bucket
begin

text \<open>
  \<^verbatim>\<open>tx.h\<close> and \<^verbatim>\<open>tx.cpp\<close>: transactions. An operation is an action on the world: it gives a result or
  a failure together with the world it leaves, so that what a throwing call has already done
  (locks taken, pointers cleared) stays visible.
\<close>

unbundle bit_operations_syntax

section \<open>Actions\<close>

type_synonym 'a act = "world \<Rightarrow> 'a res \<times> world"

definition retA :: "'a \<Rightarrow> 'a act" where
  "retA v w = (Inr v, w)"

definition failA :: "fault \<Rightarrow> 'a act" where
  "failA e w = (Inl e, w)"

definition bindA :: "'a act \<Rightarrow> ('a \<Rightarrow> 'b act) \<Rightarrow> 'b act" where
  "bindA x f w = (case x w of (Inl e, w') \<Rightarrow> (Inl e, w') | (Inr v, w') \<Rightarrow> f v w')"

definition readA :: "(world \<Rightarrow> 'a res) \<Rightarrow> 'a act" where
  "readA r w = (r w, w)"

definition updA :: "(world \<Rightarrow> world) \<Rightarrow> unit act" where
  "updA f w = (Inr (), f w)"

lemma bindA_simps [simp]:
  "x w = (Inr v, w') \<Longrightarrow> bindA x f w = f v w'"
  "x w = (Inl e, w') \<Longrightarrow> bindA x f w = (Inl e, w')"
  by (simp_all add: bindA_def)

lemma act_simps [simp]:
  "retA v w = (Inr v, w)" "failA e w = (Inl e, w)" "updA f w = (Inr (), f w)" "readA r w = (r w, w)"
  by (simp_all add: retA_def failA_def updA_def readA_def)

lemma bindA_run [simp]:
  "bindA (retA v) f w = f v w" "bindA (failA e) g w = (Inl e, w)" "bindA (updA h) k w = k () (h w)"
  "r w = Inr u \<Longrightarrow> bindA (readA r) l w = l u w" "r w = Inl e \<Longrightarrow> bindA (readA r) l w = (Inl e, w)"
  by (simp_all add: bindA_def)

lemma bindA_Inr_iff:
  "bindA x f w = (Inr y, w'') \<longleftrightarrow> (\<exists>v w'. x w = (Inr v, w') \<and> f v w' = (Inr y, w''))"
  by (cases "x w"; cases "fst (x w)") (auto simp: bindA_def)

lemma bindA_Inl_iff:
  "bindA x f w = (Inl e, w'') \<longleftrightarrow> x w = (Inl e, w'') \<or> (\<exists>v w'. x w = (Inr v, w') \<and> f v w' = (Inl e, w''))"
  by (cases "x w"; cases "fst (x w)") (auto simp: bindA_def)

text \<open>\<^verbatim>\<open>new\<close>: the next address of the allocator, or \<^verbatim>\<open>std::bad_alloc\<close>.\<close>

definition new_addr :: "addr act" where
  "new_addr w = (case w_fresh w of
      [] \<Rightarrow> (Inl (Throw BadAlloc), w)
    | a # as \<Rightarrow> (Inr a, w\<lparr>w_fresh := as\<rparr>))"

definition upd_mem :: "(mem \<Rightarrow> mem) \<Rightarrow> world \<Rightarrow> world" where
  "upd_mem f w = w\<lparr>w_mem := f (w_mem w)\<rparr>"

definition upd_db :: "addr \<Rightarrow> (DB \<Rightarrow> DB) \<Rightarrow> unit act" where
  "upd_db p f = bindA (readA (\<lambda>w. get_db w p)) (\<lambda>d. updA (\<lambda>w. set_db w p (f d)))"

definition upd_tx :: "addr \<Rightarrow> (Tx \<Rightarrow> Tx) \<Rightarrow> unit act" where
  "upd_tx p f = bindA (readA (\<lambda>w. get_tx w p)) (\<lambda>t. updA (\<lambda>w. set_tx w p (f t)))"

lemma upd_db_run [simp]:
  "get_db w p = Inr d \<Longrightarrow> upd_db p f w = (Inr (), set_db w p (f d))"
  "get_db w p = Inr d \<Longrightarrow> bindA (upd_db p f) k w = k () (set_db w p (f d))"
  by (simp_all add: upd_db_def bindA_def)

lemma upd_tx_run [simp]:
  "get_tx w p = Inr t \<Longrightarrow> upd_tx p f w = (Inr (), set_tx w p (f t))"
  "get_tx w p = Inr t \<Longrightarrow> bindA (upd_tx p f) k w = k () (set_tx w p (f t))"
  by (simp_all add: upd_tx_def bindA_def)

lemma heap_access [simp]:
  "get_db (set_db w p d) q = (if q = p then Inr d else get_db w q)"
  "get_tx (set_tx w p t) q = (if q = p then Inr t else get_tx w q)"
  "get_tx (set_db w p d) q = get_tx w q" "get_db (set_tx w p t) q = get_db w q"
  "get_freelist (set_db w p d) q = get_freelist w q" "get_freelist (set_tx w p t) q = get_freelist w q"
  "get_db (set_freelist w p f) q = get_db w q" "get_tx (set_freelist w p f) q = get_tx w q"
  "get_bucket (set_db w p d) q = get_bucket w q" "get_bucket (set_tx w p t) q = get_bucket w q"
  "get_db (w\<lparr>w_fresh := as\<rparr>) q = get_db w q" "get_tx (w\<lparr>w_fresh := as\<rparr>) q = get_tx w q"
  "get_freelist (w\<lparr>w_fresh := as\<rparr>) q = get_freelist w q"
  "get_db (upd_mem g w) q = get_db w q" "get_tx (upd_mem g w) q = get_tx w q"
  "get_freelist (upd_mem g w) q = get_freelist w q"
  "get_file (set_db w p d) q = get_file w q" "get_file (set_tx w p t) q = get_file w q"
  "get_file (upd_mem g w) q = get_file w q" "get_file (w\<lparr>w_fresh := as\<rparr>) q = get_file w q"
  by (simp_all add: get_defs set_db_def set_tx_def set_freelist_def upd_mem_def deref_def)

section \<open>Mutexes of a database\<close>

text \<open>
  Locking a mutex that is held waits forever when nobody else runs; unlocking one that is not
  held is undefined.
\<close>

definition lock_rw :: "addr \<Rightarrow> unit act" where
  "lock_rw p = bindA (readA (\<lambda>w. get_db w p)) (\<lambda>d.
     if db_rwlock d then failA Block else upd_db p (\<lambda>d. d\<lparr>db_rwlock := True\<rparr>))"

definition unlock_rw :: "addr \<Rightarrow> unit act" where
  "unlock_rw p = bindA (readA (\<lambda>w. get_db w p)) (\<lambda>d.
     if db_rwlock d then upd_db p (\<lambda>d. d\<lparr>db_rwlock := False\<rparr>) else failA UB)"

definition lock_meta :: "addr \<Rightarrow> unit act" where
  "lock_meta p = bindA (readA (\<lambda>w. get_db w p)) (\<lambda>d.
     if db_metalock d then failA Block else upd_db p (\<lambda>d. d\<lparr>db_metalock := True\<rparr>))"

definition unlock_meta :: "addr \<Rightarrow> unit act" where
  "unlock_meta p = bindA (readA (\<lambda>w. get_db w p)) (\<lambda>d.
     if db_metalock d then upd_db p (\<lambda>d. d\<lparr>db_metalock := False\<rparr>) else failA UB)"

definition lock_stat :: "addr \<Rightarrow> unit act" where
  "lock_stat p = bindA (readA (\<lambda>w. get_db w p)) (\<lambda>d.
     if sm_writer (db_statlock d) \<or> sm_readers (db_statlock d) > 0 then failA Block
     else upd_db p (\<lambda>d. d\<lparr>db_statlock := (db_statlock d)\<lparr>sm_writer := True\<rparr>\<rparr>))"

definition unlock_stat :: "addr \<Rightarrow> unit act" where
  "unlock_stat p = bindA (readA (\<lambda>w. get_db w p)) (\<lambda>d.
     if sm_writer (db_statlock d)
     then upd_db p (\<lambda>d. d\<lparr>db_statlock := (db_statlock d)\<lparr>sm_writer := False\<rparr>\<rparr>) else failA UB)"

definition lock_mmap_shared :: "addr \<Rightarrow> unit act" where
  "lock_mmap_shared p = bindA (readA (\<lambda>w. get_db w p)) (\<lambda>d.
     if sm_writer (db_mmaplock d) then failA Block
     else upd_db p (\<lambda>d. d\<lparr>db_mmaplock := (db_mmaplock d)\<lparr>sm_readers := sm_readers (db_mmaplock d) + 1\<rparr>\<rparr>))"

definition unlock_mmap_shared :: "addr \<Rightarrow> unit act" where
  "unlock_mmap_shared p = bindA (readA (\<lambda>w. get_db w p)) (\<lambda>d.
     if sm_readers (db_mmaplock d) > 0
     then upd_db p (\<lambda>d. d\<lparr>db_mmaplock := (db_mmaplock d)\<lparr>sm_readers := sm_readers (db_mmaplock d) - 1\<rparr>\<rparr>)
     else failA UB)"

lemmas lock_defs = lock_rw_def unlock_rw_def lock_meta_def unlock_meta_def lock_stat_def unlock_stat_def
  lock_mmap_shared_def unlock_mmap_shared_def

section \<open>Starting a transaction\<close>

text \<open>\<^verbatim>\<open>DB::meta\<close> makes a new record with all members zero.\<close>

definition DB_meta :: "addr act" where
  "DB_meta = bindA new_addr (\<lambda>a.
     bindA (updA (upd_mem (\<lambda>m. write_bytes m a (replicate Meta_sizeof 0)))) (\<lambda>_. retA a))"

text \<open>
  The constructor of \<^verbatim>\<open>Tx\<close> once \<^verbatim>\<open>db->meta()\<close> has returned \<open>src\<close>; \<open>raw\<close> and \<open>rawb\<close> are the
  indeterminate members of the new objects.
\<close>

definition Tx_init :: "Tx \<Rightarrow> Bucket \<Rightarrow> addr \<Rightarrow> bool \<Rightarrow> addr \<Rightarrow> addr \<Rightarrow> addr act" where
  "Tx_init raw rawb db writable this src =
     bindA new_addr (\<lambda>meta.
     bindA (updA (upd_mem (\<lambda>m. write_bytes m meta (read_bytes m src Meta_sizeof)))) (\<lambda>_.
     bindA new_addr (\<lambda>root.
     bindA (updA (\<lambda>w. set_bucket w root (Bucket_ctor rawb this))) (\<lambda>_.
     bindA (readA (\<lambda>w. if Meta_root (w_mem w) meta = nullptr then Inl UB
                       else Inr (bucket_at (w_mem w) (Meta_root (w_mem w) meta)))) (\<lambda>bk.
     bindA (updA (\<lambda>w. set_bucket w root (Bucket_set_bucket (Bucket_ctor rawb this) bk))) (\<lambda>_.
     bindA (updA (\<lambda>w. if writable then upd_mem (\<lambda>m. Meta_incrementTxID m meta) w else w)) (\<lambda>_.
     bindA (updA (\<lambda>w. set_tx w this (raw\<lparr>tx_writable := writable, tx_db := db, tx_meta := meta,
              tx_root := root, tx_pages := Map.empty, tx_commit_handlers := []\<rparr>))) (\<lambda>_.
     retA this))))))))"

text \<open>\<^verbatim>\<open>new Tx(db, writable)\<close>; \<open>metaf\<close> is the call of \<^verbatim>\<open>db->meta()\<close>.\<close>

definition Tx_new :: "addr act \<Rightarrow> Tx \<Rightarrow> Bucket \<Rightarrow> addr \<Rightarrow> bool \<Rightarrow> addr act" where
  "Tx_new metaf raw rawb db writable =
     bindA new_addr (\<lambda>this. bindA metaf (\<lambda>src. Tx_init raw rawb db writable this src))"

section \<open>Accessors\<close>

definition Tx_meta :: "Tx \<Rightarrow> addr" where "Tx_meta t = tx_meta t"
definition Tx_root :: "Tx \<Rightarrow> addr" where "Tx_root t = tx_root t"
definition Tx_writable :: "Tx \<Rightarrow> bool" where "Tx_writable t = tx_writable t"
definition Tx_managed :: "Tx \<Rightarrow> bool" where "Tx_managed t = tx_managed t"
definition Tx_db :: "Tx \<Rightarrow> addr" where "Tx_db t = tx_db t"
definition Tx_stats :: "Tx \<Rightarrow> TxStats" where "Tx_stats t = tx_stats t"
definition DB_read_only :: "DB \<Rightarrow> bool" where "DB_read_only d = db_read_only d"

text \<open>The id of a transaction that has not been closed; its meta record is still there.\<close>

definition Tx_id :: "world \<Rightarrow> Tx \<Rightarrow> txid_t" where
  "Tx_id w t = Meta_txid (w_mem w) (tx_meta t)"

text \<open>
  \<^verbatim>\<open>tx->meta()->txid\<close> for any transaction. \<^verbatim>\<open>close\<close> deletes the meta record, keeps the pointer and sets
  \<^verbatim>\<open>db_\<close> to null, which nothing else does.
\<close>

definition Tx_meta_txid :: "world \<Rightarrow> Tx \<Rightarrow> txid_t res" where
  "Tx_meta_txid w t = (if tx_db t = nullptr then Inl UB else Inr (Tx_id w t))"

definition DB_page_size :: "DB \<Rightarrow> int" where
  "DB_page_size d = db_pageSize d"

text \<open>A product of \<^verbatim>\<open>std::int64_t\<close>s, undefined when it overflows.\<close>

definition Tx_size :: "world \<Rightarrow> Tx \<Rightarrow> int res" where
  "Tx_size w t = bindE (get_db w (tx_db t)) (\<lambda>d.
     let r = sint (Meta_pgid (w_mem w) (tx_meta t)) * DB_page_size d
     in if - (2 ^ 63) \<le> r \<and> r < 2 ^ 63 then Inr r else Inl UB)"

definition Tx_cursor :: "world \<Rightarrow> Tx \<Rightarrow> addr res" where
  "Tx_cursor w t = bindE (get_bucket w (tx_root t)) (\<lambda>b. Inr (Bucket_cursor b))"

definition Tx_bucket :: "world \<Rightarrow> Tx \<Rightarrow> Slice \<Rightarrow> addr res" where
  "Tx_bucket w t name = bindE (get_bucket w (tx_root t)) (\<lambda>b. Inr (Bucket_subbucket b name))"

definition Tx_create_bucket :: "world \<Rightarrow> Tx \<Rightarrow> Slice \<Rightarrow> addr res" where
  "Tx_create_bucket w t name = bindE (get_bucket w (tx_root t)) (\<lambda>b. Inr (Bucket_create_bucket b name))"

definition Tx_create_bucket_if_not_exists :: "world \<Rightarrow> Tx \<Rightarrow> Slice \<Rightarrow> addr res" where
  "Tx_create_bucket_if_not_exists w t name =
     bindE (get_bucket w (tx_root t)) (\<lambda>b. Inr (Bucket_create_bucket_if_not_exists b name))"

definition Tx_delete_bucket :: "Tx \<Rightarrow> Slice \<Rightarrow> unit act" where
  "Tx_delete_bucket t name = bindA (readA (\<lambda>w. get_bucket w (tx_root t))) (\<lambda>b.
     updA (\<lambda>w. set_bucket w (tx_root t) (Bucket_delete_bucket b name)))"

definition Tx_for_each :: "world \<Rightarrow> Tx \<Rightarrow> (Slice \<Rightarrow> addr \<Rightarrow> 's \<Rightarrow> 's) \<Rightarrow> 's \<Rightarrow> 's res" where
  "Tx_for_each w t fn st = bindE (get_bucket w (tx_root t)) (\<lambda>b.
     Inr (Bucket_for_each b (\<lambda>k v. fn k (Bucket_subbucket b k)) st))"

definition Tx_on_commit :: "addr \<Rightarrow> nat \<Rightarrow> unit act" where
  "Tx_on_commit this fn = upd_tx this (\<lambda>t. t\<lparr>tx_commit_handlers := tx_commit_handlers t @ [fn]\<rparr>)"

section \<open>Ending a transaction\<close>

text \<open>\<^verbatim>\<open>commit\<close> checks its state; the work of committing is not implemented.\<close>

definition Tx_commit :: "addr \<Rightarrow> unit act" where
  "Tx_commit this = bindA (readA (\<lambda>w. get_tx w this)) (\<lambda>t.
     if tx_managed t then failA AssertFail
     else if tx_db t = nullptr then failA (Throw TxClosedException)
     else if \<not> tx_writable t then failA (Throw TxNotWritableException)
     else retA ())"

definition DB_remove_tx :: "addr \<Rightarrow> addr \<Rightarrow> unit act" where
  "DB_remove_tx db tx = retA ()"

text \<open>The part of \<^verbatim>\<open>close\<close> that updates the database's statistics.\<close>

definition close_stats :: "FreeList \<Rightarrow> Tx \<Rightarrow> DB \<Rightarrow> DB" where
  "close_stats fl t d = d\<lparr>db_stats := (db_stats d)\<lparr>
     free_page_n := FreeList_free_count fl,
     pending_page_n := FreeList_pending_count fl,
     free_alloc := (FreeList_free_count fl + FreeList_pending_count fl) * DB_page_size d,
     freelist_inuse := FreeList_size fl,
     st_tx_stats := TxStats_add (st_tx_stats (db_stats d)) (tx_stats t)\<rparr>\<rparr>"

definition Tx_close :: "addr \<Rightarrow> unit act" where
  "Tx_close this = bindA (readA (\<lambda>w. get_tx w this)) (\<lambda>t.
     if tx_db t = nullptr then retA ()
     else
       bindA (if tx_writable t
         then
           bindA (readA (\<lambda>w. bindE (get_db w (tx_db t)) (\<lambda>d. get_freelist w (db_freelist d)))) (\<lambda>fl.
           bindA (upd_db (tx_db t) (\<lambda>d. d\<lparr>db_rwtx := nullptr\<rparr>)) (\<lambda>_.
           bindA (unlock_rw (tx_db t)) (\<lambda>_.
           bindA (lock_stat (tx_db t)) (\<lambda>_.
           bindA (upd_db (tx_db t) (close_stats fl t)) (\<lambda>_.
           unlock_stat (tx_db t))))))
         else DB_remove_tx (tx_db t) this) (\<lambda>_.
       bindA (updA (\<lambda>w. w\<lparr>w_buckets := (w_buckets w)(tx_root t := None)\<rparr>)) (\<lambda>_.
       upd_tx this (\<lambda>t. t\<lparr>tx_db := nullptr, tx_pages := Map.empty\<rparr>))))"

definition Tx_rollback_inner :: "addr act \<Rightarrow> addr \<Rightarrow> unit act" where
  "Tx_rollback_inner metaf this = bindA (readA (\<lambda>w. get_tx w this)) (\<lambda>t.
     if tx_db t = nullptr then retA ()
     else
       bindA (if tx_writable t
         then
           bindA (readA (\<lambda>w. get_db w (tx_db t))) (\<lambda>d.
           bindA (readA (\<lambda>w. get_freelist w (db_freelist d))) (\<lambda>fl.
           bindA (updA (\<lambda>w. set_freelist w (db_freelist d) (FreeList_rollback fl (Tx_id w t)))) (\<lambda>_.
           bindA metaf (\<lambda>m.
           bindA (readA (\<lambda>w. get_freelist w (db_freelist d))) (\<lambda>fl.
           updA (\<lambda>w. set_freelist w (db_freelist d)
             (FreeList_reload (w_mem w) fl (DB_page d (Meta_freelist (w_mem w) m)))))))))
         else retA ()) (\<lambda>_.
       Tx_close this))"

definition Tx_rollback :: "addr act \<Rightarrow> addr \<Rightarrow> unit act" where
  "Tx_rollback metaf this = bindA (readA (\<lambda>w. get_tx w this)) (\<lambda>t.
     if tx_managed t then failA AssertFail
     else if tx_db t = nullptr then failA (Throw TxClosedException)
     else Tx_rollback_inner metaf this)"

section \<open>Operations without an implementation\<close>

text \<open>
  \<^verbatim>\<open>write_to\<close> opens the database's file once more and returns 0 without reading from it or writing
  to \<^verbatim>\<open>w\<close>; \<open>open_file\<close> is \<^verbatim>\<open>os::open_file\<close> for reading with additional flags. The rest are stubs.
\<close>

definition Tx_write_to :: "(string \<Rightarrow> int \<Rightarrow> addr act) \<Rightarrow> addr \<Rightarrow> addr \<Rightarrow> int act" where
  "Tx_write_to open_file this out = bindA (readA (\<lambda>w. get_tx w this)) (\<lambda>t.
     bindA (readA (\<lambda>w. get_db w (tx_db t))) (\<lambda>d.
     bindA (open_file (db_path d) (tx_writeFlag t)) (\<lambda>f. retA 0)))"

definition Tx_copy_file :: "addr \<Rightarrow> string \<Rightarrow> int \<Rightarrow> unit act" where
  "Tx_copy_file this path mode = retA ()"

definition Tx_check :: "addr \<Rightarrow> unit act" where
  "Tx_check this = retA ()"

definition Tx_page_info :: "addr \<Rightarrow> int \<Rightarrow> addr act" where
  "Tx_page_info this pid = retA nullptr"

definition Tx_check_bucket :: "addr \<Rightarrow> addr \<Rightarrow> (pgid_t \<rightharpoonup> addr) \<Rightarrow> pgid_t set \<Rightarrow> unit act" where
  "Tx_check_bucket this b reachable freed = retA ()"

definition Tx_allocate :: "addr \<Rightarrow> int \<Rightarrow> addr act" where
  "Tx_allocate this n = retA nullptr"

definition Tx_write :: "addr \<Rightarrow> unit act" where
  "Tx_write this = retA ()"

definition Tx_write_meta :: "addr \<Rightarrow> unit act" where
  "Tx_write_meta this = retA ()"

definition Tx_page_ref :: "addr \<Rightarrow> pgid_t \<Rightarrow> addr act" where
  "Tx_page_ref this pid = retA nullptr"

definition Tx_for_each_page :: "addr \<Rightarrow> pgid_t \<Rightarrow> int \<Rightarrow> (addr \<Rightarrow> int \<Rightarrow> unit act) \<Rightarrow> unit act" where
  "Tx_for_each_page this pid depth fn = retA ()"

end
