(* ===== verification/DB.thy ===== *)
theory DB
  imports Tx
begin

text \<open>
  \<^verbatim>\<open>db.h\<close> and \<^verbatim>\<open>db.cpp\<close>: starting transactions under the database's locks. \<open>metaf\<close> is again the
  call of \<^verbatim>\<open>DB::meta\<close>; the program's own is \<^const>\<open>DB_meta\<close>.
\<close>

unbundle bit_operations_syntax

section \<open>Starting transactions\<close>

definition DB_begin_tx :: "addr act \<Rightarrow> Tx \<Rightarrow> Bucket \<Rightarrow> addr \<Rightarrow> addr act" where
  "DB_begin_tx metaf raw rawb this =
     bindA (lock_meta this) (\<lambda>_.
     bindA (lock_mmap_shared this) (\<lambda>_.
     bindA (readA (\<lambda>w. get_db w this)) (\<lambda>d.
       if db_opened d
       then bindA (unlock_mmap_shared this) (\<lambda>_. bindA (unlock_meta this) (\<lambda>_.
              failA (Throw DatabaseNotOpenException)))
       else
         bindA (Tx_new metaf raw rawb this False) (\<lambda>t.
         bindA (upd_db this (\<lambda>d. d\<lparr>db_txs := db_txs d @ [t]\<rparr>)) (\<lambda>_.
         bindA (unlock_meta this) (\<lambda>_.
         bindA (lock_stat this) (\<lambda>_.
         bindA (upd_db this (\<lambda>d. d\<lparr>db_stats := (db_stats d)\<lparr>tx_n := tx_n (db_stats d) + 1,
                 open_tx_n := int_of_size (length (db_txs d))\<rparr>\<rparr>)) (\<lambda>_.
         bindA (unlock_stat this) (\<lambda>_.
         retA t)))))))))"

text \<open>The loop over \<^verbatim>\<open>txs_\<close> for the smallest id.\<close>

fun min_txid :: "world \<Rightarrow> addr list \<Rightarrow> txid_t \<Rightarrow> txid_t res" where
  "min_txid w [] minid = Inr minid"
| "min_txid w (p # ps) minid = bindE (get_tx w p) (\<lambda>t. bindE (Tx_meta_txid w t) (\<lambda>txid.
     min_txid w ps (if txid < minid then txid else minid)))"

text \<open>\<^verbatim>\<open>begin_rwtx\<close> while the \<^verbatim>\<open>lock_guard\<close> holds the meta lock.\<close>

definition begin_rwtx_locked :: "addr act \<Rightarrow> Tx \<Rightarrow> Bucket \<Rightarrow> addr \<Rightarrow> addr act" where
  "begin_rwtx_locked metaf raw rawb this =
     bindA (readA (\<lambda>w. get_db w this)) (\<lambda>d.
       if db_opened d
       then bindA (unlock_rw this) (\<lambda>_. failA (Throw DatabaseNotOpenException))
       else
         bindA (Tx_new metaf raw rawb this True) (\<lambda>t.
         bindA (upd_db this (\<lambda>d. d\<lparr>db_rwtx := t\<rparr>)) (\<lambda>_.
         bindA (readA (\<lambda>w. bindE (get_db w this) (\<lambda>d. min_txid w (db_txs d) 0xFFFFFFFFFFFFFFFF))) (\<lambda>minid.
         bindA (if minid > 0
           then bindA (readA (\<lambda>w. bindE (get_db w this) (\<lambda>d. Inr (db_freelist d)))) (\<lambda>fp.
                bindA (readA (\<lambda>w. get_freelist w fp)) (\<lambda>fl.
                bindA (readA (\<lambda>w. FreeList_release fl (minid - 1))) (\<lambda>fl'.
                updA (\<lambda>w. set_freelist w fp fl'))))
           else retA ()) (\<lambda>_.
         retA t)))))"

text \<open>Leaving the scope of the guard releases the meta lock, on a return as on an exception.\<close>

definition with_guard :: "addr \<Rightarrow> 'a act \<Rightarrow> 'a act" where
  "with_guard this body w =
     (case body w of (r, w1) \<Rightarrow> (case unlock_meta this w1 of (Inl e, w2) \<Rightarrow> (Inl e, w2) | (Inr _, w2) \<Rightarrow> (r, w2)))"

definition DB_begin_rwtx :: "addr act \<Rightarrow> Tx \<Rightarrow> Bucket \<Rightarrow> addr \<Rightarrow> addr act" where
  "DB_begin_rwtx metaf raw rawb this =
     bindA (readA (\<lambda>w. get_db w this)) (\<lambda>d.
       if db_read_only d then failA (Throw DatabaseReadOnlyException)
       else
         bindA (lock_rw this) (\<lambda>_.
         bindA (lock_meta this) (\<lambda>_.
         with_guard this (begin_rwtx_locked metaf raw rawb this))))"

definition DB_begin :: "addr act \<Rightarrow> Tx \<Rightarrow> Bucket \<Rightarrow> addr \<Rightarrow> bool \<Rightarrow> addr act" where
  "DB_begin metaf raw rawb this writable =
     (if writable then DB_begin_rwtx metaf raw rawb this else DB_begin_tx metaf raw rawb this)"

definition DB_update :: "addr act \<Rightarrow> Tx \<Rightarrow> Bucket \<Rightarrow> addr \<Rightarrow> (addr \<Rightarrow> unit act) \<Rightarrow> unit act" where
  "DB_update metaf raw rawb this fn = bindA (DB_begin metaf raw rawb this True) fn"

end
