(* ===== verification/DB_File.thy ===== *)
theory DB_File
  imports DB
begin

text \<open>
  \<^verbatim>\<open>db.cpp\<close>: opening, initialising, locking, mapping and closing the database file. The
  operating system and \<^verbatim>\<open>molly::os::File\<close> are the record \<open>OS\<close>, an argument of the operations
  that call them.
\<close>

unbundle bit_operations_syntax

section \<open>The system's side\<close>

text \<open>
  A local \<^verbatim>\<open>std::string\<close> is where its characters are and how many it has.
\<close>

record std_string =
  str_data :: addr
  str_size :: nat

text \<open>
  What one run meets: \<open>os_open\<close> is the constructor of \<^verbatim>\<open>File\<close>, \<open>os_size\<close> the \<open>size\<close> of \<^verbatim>\<open>stat()\<close>,
  \<open>os_read_at\<close> what \<^verbatim>\<open>read_at\<close> does with the string (it answers the string afterwards),
  \<open>os_write_at\<close> the result of writing bytes at an offset. \<open>os_elapsed i\<close> is the number of
  milliseconds the clock shows in round \<open>i\<close> of \<^verbatim>\<open>flock\<close>, \<open>os_flock i\<close> the result and
  \<open>errno\<close> of \<^verbatim>\<open>::flock\<close> in that round. \<open>os_mmap\<close> gives the address and the memory in which the
  file is mapped there.
\<close>

record OS =
  os_open :: "string \<Rightarrow> int \<Rightarrow> int \<Rightarrow> File res"
  os_size :: "File \<Rightarrow> int res"
  os_read_at :: "File \<Rightarrow> std_string \<Rightarrow> int \<Rightarrow> std_string act"
  os_write_at :: "File \<Rightarrow> u8 list \<Rightarrow> int \<Rightarrow> unit res"
  os_getpagesize :: int
  os_fdatasync :: "int \<Rightarrow> int"
  os_elapsed :: "nat \<Rightarrow> int"
  os_flock :: "nat \<Rightarrow> int \<Rightarrow> int \<Rightarrow> int \<times> int"
  os_funlock :: "int \<Rightarrow> int"
  os_strerror :: "int \<Rightarrow> string"
  os_mmap :: "int \<Rightarrow> int \<Rightarrow> int \<Rightarrow> mem \<Rightarrow> addr \<times> mem"
  os_madvise :: "addr \<Rightarrow> int \<Rightarrow> int"
  os_munmap :: "addr \<Rightarrow> int \<Rightarrow> int"

definition EWOULDBLOCK :: int where "EWOULDBLOCK = 11"
definition LOCK_SH :: int where "LOCK_SH = 1"
definition LOCK_EX :: int where "LOCK_EX = 2"
definition O_RDONLY :: int where "O_RDONLY = 0"
definition O_RDWR :: int where "O_RDWR = 2"
definition O_CREAT :: int where "O_CREAT = 64"
definition S_IRWXU :: int where "S_IRWXU = 448"
definition MAP_SHARED :: int where "MAP_SHARED = 1"
definition MAP_FAILED :: addr where "MAP_FAILED = - 1"

definition DefaultMaxBatchSize :: int where "DefaultMaxBatchSize = 1000"
definition DefaultMaxBatchDelay :: int where "DefaultMaxBatchDelay = 10"
definition DefaultAllocSize :: int where "DefaultAllocSize = 16 * 1024 * 1024"

definition DefaultOption :: Option where
  "DefaultOption = \<lparr>o_Timeout = 0, o_NoGrowSync = False, o_ReadOnly = False, o_MmapFlags = 0,
     o_InitialMmapSize = 0\<rparr>"

section \<open>System calls on the file\<close>

definition DB_fd :: "world \<Rightarrow> addr \<Rightarrow> int res" where
  "DB_fd w this = bindE (get_db w this) (\<lambda>d. bindE (get_file w (db_file d)) (\<lambda>f. Inr (f_fd f)))"

definition DB_fdatasync :: "OS \<Rightarrow> addr \<Rightarrow> unit act" where
  "DB_fdatasync os this = bindA (readA (\<lambda>w. DB_fd w this)) (\<lambda>fd.
     if os_fdatasync os fd \<noteq> 0 then failA (Throw (SystemError ''fdatasync failed'')) else retA ())"

text \<open>
  An error text printed by \<^verbatim>\<open>sprintf\<close> into \<^verbatim>\<open>char err_info[255]\<close>; with its terminating NUL it has
  to fit.
\<close>

definition err_info :: "string \<Rightarrow> File \<Rightarrow> string res" where
  "err_info what f =
     (let s = what @ f_name f in if length s < 255 then Inr s else Inl UB)"

definition throw_info :: "addr \<Rightarrow> string \<Rightarrow> unit act" where
  "throw_info this what = bindA (readA (\<lambda>w. bindE (get_db w this) (\<lambda>d.
     bindE (get_file w (db_file d)) (err_info what)))) (\<lambda>s. failA (Throw (SystemError s)))"

definition DB_funlock :: "OS \<Rightarrow> addr \<Rightarrow> unit act" where
  "DB_funlock os this = bindA (readA (\<lambda>w. DB_fd w this)) (\<lambda>fd.
     if os_funlock os fd \<noteq> 0 then throw_info this ''fail to unlock: '' else retA ())"

text \<open>
  \<^verbatim>\<open>flock\<close>, from round \<open>i\<close> on. Nothing in the loop changes the database, so the descriptor and
  the flag of every round are those of the call; an object that is gone shows when the
  descriptor is read.
\<close>

partial_function (option) flock_loop :: "OS \<Rightarrow> int res \<Rightarrow> int \<Rightarrow> int \<Rightarrow> nat \<Rightarrow> unit res option" where
  "flock_loop os fd flag timeout i =
     (if timeout > 0 \<and> os_elapsed os i > timeout then Some (Inl (Throw (RuntimeError ''flock timeout'')))
      else case fd of
        Inl e \<Rightarrow> Some (Inl e)
      | Inr f \<Rightarrow>
          if fst (os_flock os i f flag) \<noteq> 0 \<and> snd (os_flock os i f flag) = EWOULDBLOCK
          then Some (Inl (Throw (RuntimeError (''fail to flock:'' @ os_strerror os EWOULDBLOCK))))
          else flock_loop os fd flag timeout (Suc i))"

definition lock_flag :: "world \<Rightarrow> addr \<Rightarrow> int" where
  "lock_flag w this =
     (case get_db w this of Inr d \<Rightarrow> if \<not> db_read_only d then LOCK_EX else LOCK_SH | Inl _ \<Rightarrow> LOCK_EX)"

definition DB_flock :: "OS \<Rightarrow> addr \<Rightarrow> int \<Rightarrow> world \<Rightarrow> unit res option" where
  "DB_flock os this timeout w = flock_loop os (DB_fd w this) (lock_flag w this) timeout 0"

definition DB_mmap :: "OS \<Rightarrow> addr \<Rightarrow> int \<Rightarrow> unit act" where
  "DB_mmap os this sz = bindA (readA (\<lambda>w. get_db w this)) (\<lambda>d.
     bindA (readA (\<lambda>w. DB_fd w this)) (\<lambda>fd.
     bindA (readA (\<lambda>w. Inr (os_mmap os sz (MAP_SHARED OR db_mmap_flags d) fd (w_mem w)))) (\<lambda>(b, m).
       if b = MAP_FAILED then failA (Throw (SystemError ''mmap failed''))
       else
         bindA (updA (upd_mem (\<lambda>_. m))) (\<lambda>_.
         if os_madvise os b sz \<noteq> 0 then failA (Throw (SystemError ''madvise failed''))
         else upd_db this (\<lambda>d. d\<lparr>db_data := b, db_data_sz := sz\<rparr>)))))"

definition DB_munmap :: "OS \<Rightarrow> addr \<Rightarrow> unit act" where
  "DB_munmap os this = bindA (readA (\<lambda>w. get_db w this)) (\<lambda>d.
     if db_data d = nullptr then retA ()
     else bindA (upd_db this (\<lambda>d. d\<lparr>db_data := nullptr, db_data_sz := 0\<rparr>)) (\<lambda>_.
       if os_munmap os (db_data d) (db_data_sz d) \<noteq> 0 then throw_info this ''fail to munmap: ''
       else retA ()))"

section \<open>Closing\<close>

text \<open>\<^verbatim>\<open>delete file_\<close>: nothing on a null pointer, undefined on an object that is already deleted.\<close>

definition delete_file :: "addr \<Rightarrow> unit act" where
  "delete_file p = (if p = nullptr then retA ()
     else bindA (readA (\<lambda>w. get_file w p)) (\<lambda>_. updA (\<lambda>w. w\<lparr>w_files := (w_files w)(p := None)\<rparr>)))"

text \<open>
  \<^verbatim>\<open>catch (std::exception &e) { ...; throw e; }\<close>: every exception of the program is a
  \<^verbatim>\<open>std::exception\<close>; \<^verbatim>\<open>throw e\<close> throws a copy of the static type, which has lost the derived part.
\<close>

definition catch_rethrow :: "'a act \<Rightarrow> unit act \<Rightarrow> 'a act" where
  "catch_rethrow body handler w = (case body w of
      (Inl (Throw e), w1) \<Rightarrow> bindA handler (\<lambda>_. failA (Throw StdException)) w1
    | r \<Rightarrow> r)"

definition DB_close :: "OS \<Rightarrow> addr \<Rightarrow> unit act" where
  "DB_close os this = bindA (readA (\<lambda>w. get_db w this)) (\<lambda>d.
     if \<not> db_opened d then retA ()
     else
       bindA (upd_db this (\<lambda>d. d\<lparr>db_opened := False, db_freelist := nullptr\<rparr>)) (\<lambda>_.
       bindA (DB_munmap os this) (\<lambda>_.
       bindA (if db_file d \<noteq> nullptr
         then bindA (if \<not> db_read_only d then catch_rethrow (DB_funlock os this) (retA ()) else retA ()) (\<lambda>_.
              delete_file (db_file d))
         else retA ()) (\<lambda>_.
       upd_db this (\<lambda>d. d\<lparr>db_path := []\<rparr>)))))"

text \<open>The destructor.\<close>

definition DB_destroy :: "addr \<Rightarrow> unit act" where
  "DB_destroy this = bindA (readA (\<lambda>w. get_db w this)) (\<lambda>d.
     bindA (delete_file (db_file d)) (\<lambda>_. updA (\<lambda>w. w\<lparr>w_dbs := (w_dbs w)(this := None)\<rparr>)))"

end
