(* ===== verification/DB_Open.thy ===== *)
theory DB_Open
  imports DB_File
begin

text \<open>
  \<^verbatim>\<open>DB::DB\<close> and \<^verbatim>\<open>DB::init\<close>: opening a database. The constructor's storage is \<open>this\<close>; \<open>raw\<close> holds
  the members it leaves indeterminate. \<open>flockf\<close> and \<open>metaf\<close> are the calls of \<^verbatim>\<open>DB::flock\<close> and
  \<^verbatim>\<open>DB::meta\<close>; the program's own are \<^const>\<open>DB_flock\<close> and \<^const>\<open>DB_meta\<close>.
\<close>

unbundle bit_operations_syntax

section \<open>Buffers\<close>

text \<open>
  \<^verbatim>\<open>reserve\<close> on an empty string allocates and leaves the size 0; a negative argument becomes a size no
  string has. \<^verbatim>\<open>operator[]\<close> is undefined beyond the size, and so is the use of a page header that
  does not lie within the characters of the string.
\<close>

definition string_reserve :: "int \<Rightarrow> std_string act" where
  "string_reserve n = (if n < 0 then failA (Throw LengthError)
     else bindA new_addr (\<lambda>a. retA \<lparr>str_data = a, str_size = 0\<rparr>))"

definition DB_page_in_buffer :: "DB \<Rightarrow> std_string \<Rightarrow> pgid_t \<Rightarrow> addr res" where
  "DB_page_in_buffer d buf pid =
     (let pos = pid * of_int (db_page_size d)
      in if unat pos \<le> str_size buf then Inr (str_data buf + pos) else Inl UB)"

definition header_in :: "std_string \<Rightarrow> addr \<Rightarrow> addr res" where
  "header_in buf p = (if unat (p - str_data buf) + 32 \<le> str_size buf then Inr p else Inl UB)"

text \<open>A page of the buffer that is about to be read or written.\<close>

definition buffer_page :: "addr \<Rightarrow> std_string \<Rightarrow> pgid_t \<Rightarrow> addr act" where
  "buffer_page this buf pid = readA (\<lambda>w. bindE (get_db w this) (\<lambda>d.
     bindE (DB_page_in_buffer d buf pid) (header_in buf)))"

section \<open>Initialising a new file\<close>

text \<open>The stores into the meta record of page \<open>i\<close>; \<open>flags\<close> and \<open>root\<close> stay as they are.\<close>

definition init_meta :: "(u8 list \<Rightarrow> u64) \<Rightarrow> int \<Rightarrow> u64 \<Rightarrow> addr \<Rightarrow> mem \<Rightarrow> mem" where
  "init_meta hash ps i a m =
     (let m1 = store_u32 m a Magic;
          m2 = store_u32 m1 (a + 4) Version;
          m3 = store_u32 m2 (a + 8) (of_int ps);
          m4 = store_u64 m3 (a + 24) 2;
          m5 = store_u64 m4 (a + 32) 4;
          m6 = store_u64 m5 (a + 40) i
      in store_u64 m6 (a + 48) (Meta_sum64 hash m6 a))"

text \<open>One round of the loop over the meta pages.\<close>

definition init_meta_page :: "(u8 list \<Rightarrow> u64) \<Rightarrow> addr \<Rightarrow> std_string \<Rightarrow> u64 \<Rightarrow> unit act" where
  "init_meta_page hash this buf i =
     bindA (buffer_page this buf i) (\<lambda>p.
     bindA (updA (upd_mem (\<lambda>m. Page_setFlags (Page_setID m p i) p MetaPageFlag))) (\<lambda>_.
     bindA (readA (\<lambda>w. Inr (Page_meta (w_mem w) p))) (\<lambda>a.
       if a = nullptr then failA UB
       else bindA (readA (\<lambda>w. get_db w this)) (\<lambda>d. updA (upd_mem (init_meta hash (db_page_size d) i a))))))"

text \<open>The empty freelist and the empty leaf.\<close>

definition init_page :: "addr \<Rightarrow> std_string \<Rightarrow> u64 \<Rightarrow> u16 \<Rightarrow> unit act" where
  "init_page this buf i flag = bindA (buffer_page this buf i) (\<lambda>p.
     updA (upd_mem (\<lambda>m. Page_setCount (Page_setFlags (Page_setID m p i) p flag) p 0)))"

text \<open>\<^verbatim>\<open>write_at(buf, 0)\<close> hands over the characters of the string.\<close>

definition write_string :: "OS \<Rightarrow> addr \<Rightarrow> std_string \<Rightarrow> unit act" where
  "write_string os this buf = readA (\<lambda>w. bindE (get_db w this) (\<lambda>d.
     bindE (get_file w (db_file d)) (\<lambda>f.
     os_write_at os f (read_bytes (w_mem w) (str_data buf) (str_size buf)) 0)))"

text \<open>What \<^verbatim>\<open>init\<close> does with its buffer, and all of it.\<close>

definition init_buffer :: "OS \<Rightarrow> (u8 list \<Rightarrow> u64) \<Rightarrow> addr \<Rightarrow> std_string \<Rightarrow> unit act" where
  "init_buffer os hash this buf =
     bindA (init_meta_page hash this buf 0) (\<lambda>_.
     bindA (init_meta_page hash this buf 1) (\<lambda>_.
     bindA (init_page this buf 2 FreelistPageFlag) (\<lambda>_.
     bindA (init_page this buf 3 LeafPageFlag) (\<lambda>_.
     bindA (write_string os this buf) (\<lambda>_.
     DB_fdatasync os this)))))"

definition DB_init :: "OS \<Rightarrow> (u8 list \<Rightarrow> u64) \<Rightarrow> addr \<Rightarrow> unit act" where
  "DB_init os hash this =
     bindA (upd_db this (\<lambda>d. d\<lparr>db_page_size := os_getpagesize os\<rparr>)) (\<lambda>_.
     if \<bar>4 * os_getpagesize os\<bar> \<ge> 2 ^ 31 then failA UB
     else bindA (string_reserve (4 * os_getpagesize os)) (init_buffer os hash this))"

section \<open>The constructor\<close>

text \<open>A file that exists: the page size comes from its first meta page, if that is valid.\<close>

definition DB_detect_page_size :: "OS \<Rightarrow> (u8 list \<Rightarrow> u64) \<Rightarrow> addr \<Rightarrow> unit act" where
  "DB_detect_page_size os hash this =
     bindA (string_reserve 1000) (\<lambda>buf.
     bindA (readA (\<lambda>w. bindE (get_db w this) (\<lambda>d. get_file w (db_file d)))) (\<lambda>f.
     bindA (os_read_at os f buf 0) (\<lambda>buf.
     bindA (buffer_page this buf 0) (\<lambda>p.
     bindA (readA (\<lambda>w. Inr (Page_meta (w_mem w) p))) (\<lambda>m.
     if m = nullptr then failA UB
     else
       bindA (readA (\<lambda>w. Inr (Meta_validate hash (w_mem w) m))) (\<lambda>valid.
       bindA (readA (\<lambda>w. Inr (Meta_page_size (w_mem w) m))) (\<lambda>ps.
       case valid of
         Inr _ \<Rightarrow> upd_db this (\<lambda>d. d\<lparr>db_page_size := sint ps\<rparr>)
       | Inl (Throw e) \<Rightarrow> upd_db this (\<lambda>d. d\<lparr>db_page_size := os_getpagesize os\<rparr>)
       | Inl e \<Rightarrow> failA e)))))))"

text \<open>
  The callback of the page pool, \<open>s\<close> being the captured \<^verbatim>\<open>pageSize_\<close>. \<^verbatim>\<open>new char[s]\<close> throws on a
  negative size.
\<close>

definition pool_new_page :: "int \<Rightarrow> Slice act" where
  "pool_new_page s = (if s < 0 then failA (Throw BadAlloc)
     else bindA new_addr (\<lambda>bytes. retA (Slice_make bytes (of_int s))))"

text \<open>A null \<open>option\<close> stands for the default one.\<close>

definition DB_option :: "Option option \<Rightarrow> Option" where
  "DB_option option = (case option of None \<Rightarrow> DefaultOption | Some opt \<Rightarrow> opt)"

text \<open>Up to the opened file.\<close>

definition DB_prepare :: "DB \<Rightarrow> string \<Rightarrow> Option \<Rightarrow> DB" where
  "DB_prepare raw path opt =
     (let d = raw\<lparr>db_opened := False, db_path := path, db_txs := [], db_rwlock := False, db_metalock := False,
          db_mmaplock := \<lparr>sm_readers = 0, sm_writer = False\<rparr>,
          db_statlock := \<lparr>sm_readers = 0, sm_writer = False\<rparr>,
          db_no_grow_sync := o_NoGrowSync opt, db_mmap_flags := o_MmapFlags opt,
          db_max_batch_size := DefaultMaxBatchSize, db_max_batch_delay := DefaultMaxBatchDelay,
          db_alloc_size := DefaultAllocSize\<rparr>
      in if o_ReadOnly opt then d\<lparr>db_read_only := True\<rparr> else d)"

definition DB_open_file :: "OS \<Rightarrow> DB \<Rightarrow> addr \<Rightarrow> string \<Rightarrow> int \<Rightarrow> Option \<Rightarrow> unit act" where
  "DB_open_file os raw this path mode opt =
     bindA (updA (\<lambda>w. set_db w this (DB_prepare raw path opt))) (\<lambda>_.
     let flag = (if o_ReadOnly opt then O_RDONLY else O_RDWR) in
     catch_rethrow
       (bindA new_addr (\<lambda>p.
        bindA (readA (\<lambda>w. os_open os path (flag OR O_CREAT) (mode OR S_IRWXU))) (\<lambda>f.
        bindA (updA (\<lambda>w. w\<lparr>w_files := (w_files w)(p \<mapsto> f)\<rparr>)) (\<lambda>_.
        upd_db this (\<lambda>d. d\<lparr>db_file := p\<rparr>)))))
       (DB_close os this))"

text \<open>Reading the freelist, the last statements of the constructor.\<close>

definition DB_load_freelist :: "addr act \<Rightarrow> addr \<Rightarrow> unit act" where
  "DB_load_freelist metaf this =
     bindA new_addr (\<lambda>fp.
     bindA (updA (\<lambda>w. set_freelist w fp FreeList_new)) (\<lambda>_.
     bindA (upd_db this (\<lambda>d. d\<lparr>db_freelist := fp\<rparr>)) (\<lambda>_.
     bindA metaf (\<lambda>m.
     bindA (readA (\<lambda>w. get_db w this)) (\<lambda>d.
     bindA (readA (\<lambda>w. get_freelist w fp)) (\<lambda>fl.
     updA (\<lambda>w. set_freelist w fp
       (FreeList_read (w_mem w) fl (DB_page d (Meta_freelist (w_mem w) m))))))))))"

text \<open>From the locked file to the end: page size, page pool, map and freelist.\<close>

definition DB_load :: "OS \<Rightarrow> (u8 list \<Rightarrow> u64) \<Rightarrow> addr act \<Rightarrow> addr \<Rightarrow> Option \<Rightarrow> unit act" where
  "DB_load os hash metaf this opt =
     bindA (readA (\<lambda>w. bindE (get_db w this) (\<lambda>d. bindE (get_file w (db_file d)) (os_size os)))) (\<lambda>size.
     bindA (if size = 0 then DB_init os hash this else DB_detect_page_size os hash this) (\<lambda>_.
     bindA new_addr (\<lambda>pool.
     bindA (readA (\<lambda>w. get_db w this)) (\<lambda>d.
     bindA (updA (\<lambda>w. w\<lparr>w_pools := (w_pools w)(pool \<mapsto> (PagePool_new, db_pageSize d))\<rparr>)) (\<lambda>_.
     bindA (upd_db this (\<lambda>d. d\<lparr>db_page_pool := pool\<rparr>)) (\<lambda>_.
     bindA (catch_rethrow (DB_mmap os this (o_InitialMmapSize opt)) (DB_close os this)) (\<lambda>_.
     DB_load_freelist metaf this)))))))"

text \<open>\<open>None\<close> is a constructor that does not end.\<close>

definition DB_ctor :: "OS \<Rightarrow> (u8 list \<Rightarrow> u64) \<Rightarrow> (addr \<Rightarrow> int \<Rightarrow> world \<Rightarrow> unit res option) \<Rightarrow> addr act \<Rightarrow>
    DB \<Rightarrow> addr \<Rightarrow> string \<Rightarrow> int \<Rightarrow> Option option \<Rightarrow> world \<Rightarrow> (unit res \<times> world) option" where
  "DB_ctor os hash flockf metaf raw this path mode option w =
     (let opt = DB_option option in
      case DB_open_file os raw this path mode opt w of
        (Inl e, w1) \<Rightarrow> Some (Inl e, w1)
      | (Inr _, w1) \<Rightarrow>
          (case flockf this (o_Timeout opt) w1 of
             None \<Rightarrow> None
           | Some r \<Rightarrow> Some (bindA (catch_rethrow (\<lambda>w. (r, w)) (DB_close os this))
               (\<lambda>_. DB_load os hash metaf this opt) w1)))"

end
