(* ===== verification/Lifecycle.thy ===== *)
theory Lifecycle
  imports DB
begin

text \<open>
  The life of transactions: how they start under the database's locks and how they end. The
  single-writer invariant, for calls that return and calls that throw, is proved for every provider
  of meta records that leaves the object heaps alone (locale \<open>meta_source\<close>); the program's own
  provider is one, but its records are all zero, and no transaction can start from them.
\<close>

unbundle bit_operations_syntax

section \<open>Providers of meta records\<close>

text \<open>What \<^verbatim>\<open>Tx\<close> and \<^verbatim>\<open>DB\<close> rely on when they call \<^verbatim>\<open>DB::meta\<close>: it may allocate and write memory.\<close>

locale meta_source =
  fixes metaf :: "addr act"
  assumes keeps: "metaf w = (r, w') \<Longrightarrow>
    w_dbs w' = w_dbs w \<and> w_txs w' = w_txs w \<and> w_freelists w' = w_freelists w \<and> (\<exists>k. w_fresh w' = drop k (w_fresh w))"
begin

lemma get_keeps:
  assumes "metaf w = (r, w')"
  shows "get_db w' p = get_db w p" and "get_tx w' p = get_tx w p" and "get_freelist w' p = get_freelist w p"
  using keeps [OF assms] by (simp_all add: get_defs)

end

lemma new_addr_Inr:
  "new_addr w = (Inr a, w') \<longleftrightarrow> w_fresh w = a # tl (w_fresh w) \<and> w_fresh w \<noteq> [] \<and> w' = w\<lparr>w_fresh := tl (w_fresh w)\<rparr>"
  by (cases "w_fresh w") (auto simp: new_addr_def)

interpretation own_meta: meta_source DB_meta
proof
  fix w r w' assume "DB_meta w = (r, w')"
  then show "w_dbs w' = w_dbs w \<and> w_txs w' = w_txs w \<and> w_freelists w' = w_freelists w \<and>
    (\<exists>k. w_fresh w' = drop k (w_fresh w))"
    by (cases "w_fresh w")
      (auto simp: DB_meta_def new_addr_def bindA_def upd_mem_def intro: exI [of _ 0] exI [of _ 1])
qed

text \<open>A provider that returns a record already in memory.\<close>

interpretation stored_meta: meta_source "retA a" for a
  by unfold_locales (auto intro: exI [of _ 0])

section \<open>Constructing a transaction\<close>

lemma Tx_init_Inr:
  assumes "Tx_init raw rawb db writable this src w = (Inr t, w')"
  shows "w_dbs w' = w_dbs w" and "w_freelists w' = w_freelists w" and "w_fresh w' = drop 2 (w_fresh w)" and "t = this"
    and "\<exists>x. w_txs w' = (w_txs w)(t \<mapsto> x) \<and> tx_db x = db \<and> tx_writable x = writable"
  using assms unfolding Tx_init_def
  by (auto simp: bindA_Inr_iff new_addr_Inr upd_mem_def set_bucket_def set_tx_def drop_Suc numeral_2_eq_2
      split: if_splits)

context meta_source
begin

text \<open>A constructed transaction is a new object; the other objects of the heaps are kept.\<close>

lemma Tx_new_Inr:
  assumes "Tx_new metaf raw rawb db writable w = (Inr t, w')"
  shows "w_dbs w' = w_dbs w" and "w_freelists w' = w_freelists w"
    and "t \<in> set (w_fresh w)" and "\<exists>k. w_fresh w' = drop (Suc k) (w_fresh w)" and "t = hd (w_fresh w)"
    and "\<exists>x. w_txs w' = (w_txs w)(t \<mapsto> x) \<and> tx_db x = db \<and> tx_writable x = writable"
proof -
  from assms obtain w1 src w2 where n1: "new_addr w = (Inr t, w1)" and m: "metaf w1 = (Inr src, w2)"
    and i: "Tx_init raw rawb db writable t src w2 = (Inr t, w')"
    unfolding Tx_new_def bindA_Inr_iff using Tx_init_Inr(4) by metis
  note e = Tx_init_Inr(1,2,3,5) [OF i]
  note k = keeps [OF m]
  have w1: "w_fresh w = t # tl (w_fresh w)" "w1 = w\<lparr>w_fresh := tl (w_fresh w)\<rparr>" using n1 by (auto simp: new_addr_Inr)
  obtain j where j: "w_fresh w2 = drop j (tl (w_fresh w))" using k w1(2) by auto
  show "w_dbs w' = w_dbs w" "w_freelists w' = w_freelists w" using e k w1(2) by simp_all
  show "t \<in> set (w_fresh w)" by (subst w1(1)) simp
  show "t = hd (w_fresh w)" by (subst w1(1)) simp
  have "w_fresh w' = drop (Suc (j + 2)) (w_fresh w)" using e(3) j by (simp add: drop_Suc add.commute)
  then show "\<exists>k. w_fresh w' = drop (Suc k) (w_fresh w)" by blast
  show "\<exists>x. w_txs w' = (w_txs w)(t \<mapsto> x) \<and> tx_db x = db \<and> tx_writable x = writable"
    using e(4) k w1(2) by simp
qed

end

text \<open>A construction that fails takes objects from the allocator, no more.\<close>

lemma Tx_init_Inl:
  assumes "Tx_init raw rawb db writable this src w = (Inl e, w')"
  shows "w_dbs w' = w_dbs w \<and> w_txs w' = w_txs w \<and> w_freelists w' = w_freelists w \<and> (\<exists>k. w_fresh w' = drop k (w_fresh w))"
proof (cases "w_fresh w")
  case Nil
  with assms show ?thesis by (simp add: Tx_init_def new_addr_def bindA_def)
next
  case (Cons a as)
  show ?thesis
    using assms Cons
    by (cases as) (auto simp: Tx_init_def new_addr_def bindA_def upd_mem_def set_bucket_def
        intro: exI [of _ 1] exI [of _ 2] split: if_splits)
qed

context meta_source
begin

lemma Tx_new_Inl:
  assumes "Tx_new metaf raw rawb db writable w = (Inl e, w')"
  shows "w_dbs w' = w_dbs w" and "w_txs w' = w_txs w" and "\<exists>k. w_fresh w' = drop k (w_fresh w)"
    and "w_freelists w' = w_freelists w"
proof -
  have "w_dbs w' = w_dbs w \<and> w_txs w' = w_txs w \<and> w_freelists w' = w_freelists w \<and> (\<exists>k. w_fresh w' = drop k (w_fresh w))"
  proof (cases "w_fresh w")
    case Nil
    with assms show ?thesis by (simp add: Tx_new_def new_addr_def bindA_def)
  next
    case (Cons a as)
    let ?w = "w\<lparr>w_fresh := as\<rparr>"
    obtain r w1 where m: "metaf ?w = (r, w1)" by (cases "metaf ?w")
    obtain k where k: "w_fresh w1 = drop k as" and q: "w_dbs w1 = w_dbs w" "w_txs w1 = w_txs w" "w_freelists w1 = w_freelists w"
      using keeps [OF m] by auto
    have "\<exists>k. w_fresh w' = drop k as \<and> w_dbs w' = w_dbs w \<and> w_txs w' = w_txs w \<and> w_freelists w' = w_freelists w"
    proof (cases r)
      case (Inl x)
      with assms Cons m have "w' = w1" by (simp add: Tx_new_def new_addr_def bindA_def)
      then show ?thesis using k q by blast
    next
      case (Inr src)
      with assms Cons m have "Tx_init raw rawb db writable a src w1 = (Inl e, w')"
        by (simp add: Tx_new_def new_addr_def bindA_def)
      from Tx_init_Inl [OF this] k q show ?thesis by (auto simp: drop_drop)
    qed
    then obtain j where "w_fresh w' = drop (Suc j) (w_fresh w)" "w_dbs w' = w_dbs w" "w_txs w' = w_txs w" "w_freelists w' = w_freelists w"
      using Cons by auto
    then show ?thesis by blast
  qed
  then show "w_dbs w' = w_dbs w" "w_txs w' = w_txs w" "\<exists>k. w_fresh w' = drop k (w_fresh w)" "w_freelists w' = w_freelists w"
    by simp_all
qed

end

section \<open>Starting a writer\<close>

lemma set_db_twice [simp]: "set_db (set_db w p d) p e = set_db w p e"
  by (simp add: set_db_def)

lemma set_db_proj [simp]:
  "w_txs (set_db w p d) = w_txs w" "w_fresh (set_db w p d) = w_fresh w" "w_mem (set_db w p d) = w_mem w"
  "w_freelists (set_db w p d) = w_freelists w"
  by (simp_all add: set_db_def)

lemma set_freelist_proj [simp]:
  "w_txs (set_freelist w p f) = w_txs w" "w_fresh (set_freelist w p f) = w_fresh w"
  "w_mem (set_freelist w p f) = w_mem w" "get_freelist (set_freelist w p f) p = Inr f"
  by (simp_all add: set_freelist_def get_defs)

lemma min_txid_cong: "w_txs w = w_txs w' \<Longrightarrow> w_mem w = w_mem w' \<Longrightarrow> min_txid w ps a = min_txid w' ps a"
proof (induction ps arbitrary: a)
  case (Cons p ps)
  then have "Tx_meta_txid w t = Tx_meta_txid w' t" "get_tx w p = get_tx w' p" for t
    by (simp_all add: Tx_meta_txid_def Tx_id_def get_defs)
  with Cons show ?case by (simp cong: if_cong)
qed simp

text \<open>The bound the loop computes: no transaction in the list has a smaller id.\<close>

lemma min_txid_Cons:
  "min_txid w (p # ps) a = Inr m \<longleftrightarrow> (\<exists>t. get_tx w p = Inr t \<and> tx_db t \<noteq> nullptr \<and>
     min_txid w ps (if Tx_id w t < a then Tx_id w t else a) = Inr m)"
  by (auto simp: bindE_Inr_iff Tx_meta_txid_def)

lemma min_txid_le:
  assumes "min_txid w ps a = Inr m"
  shows "m \<le> a" and "list_all (\<lambda>p. \<exists>t. get_tx w p = Inr t \<and> m \<le> Tx_id w t) ps"
  using assms
proof (induction ps arbitrary: a)
  case (Cons p ps)
  {
    case 1
    then obtain t where "min_txid w ps (if Tx_id w t < a then Tx_id w t else a) = Inr m"
      unfolding min_txid_Cons by blast
    from Cons.IH(1) [OF this] show ?case by (auto split: if_splits)
  next
    case 2
    then obtain t where t: "get_tx w p = Inr t"
      and m: "min_txid w ps (if Tx_id w t < a then Tx_id w t else a) = Inr m"
      unfolding min_txid_Cons by blast
    have "m \<le> Tx_id w t" using Cons.IH(1) [OF m] by (auto split: if_splits)
    with t Cons.IH(2) [OF m] show ?case by simp
  }
qed simp_all

text \<open>The release that follows leaves the readers their pages.\<close>

lemma word_pred_less:
  fixes u :: txid_t
  assumes "0 < m" and "m \<le> u"
  shows "m - 1 < u"
proof -
  have "unat (m - 1) < unat m" using assms(1) by (intro measure_unat) (simp add: word_gt_0)
  then have "m - 1 < m" by (simp add: word_less_nat_alt)
  then show ?thesis using assms(2) by (rule order_less_le_trans)
qed

lemma release_protects:
  assumes m: "min_txid w ps a = Inr minid"
  shows "let fl' = (if minid > 0 then released fl (minid - 1) else fl) in all_pages fl' = all_pages fl \<and>
    list_all (\<lambda>r. \<exists>x. get_tx w r = Inr x \<and> (\<forall>u \<ge> Tx_id w x. pending_of fl' u = pending_of fl u) \<and>
      set (fl_ids fl') \<subseteq> set (fl_ids fl) \<union> \<Union> (pending_of fl ` {u. u < Tx_id w x})) ps"
proof -
  let ?fl = "if minid > 0 then released fl (minid - 1) else fl"
  have "(\<forall>u \<ge> Tx_id w x. pending_of ?fl u = pending_of fl u) \<and>
      set (fl_ids ?fl) \<subseteq> set (fl_ids fl) \<union> \<Union> (pending_of fl ` {u. u < Tx_id w x})" if "minid \<le> Tx_id w x" for x
  proof (cases "minid > 0")
    case True
    then have "minid - 1 < u" if "Tx_id w x \<le> u" for u
      using word_pred_less \<open>minid \<le> Tx_id w x\<close> that by (meson order_trans)
    then have "\<forall>u \<ge> Tx_id w x. pending_of ?fl u = pending_of fl u"
      using True freelist.release_keeps_newer by simp
    moreover have "{u. u \<le> minid - 1} \<subseteq> {u. u < Tx_id w x}"
      using word_pred_less [OF True that] by auto
    then have "set (fl_ids ?fl) \<subseteq> set (fl_ids fl) \<union> \<Union> (pending_of fl ` {u. u < Tx_id w x})"
      using True by (auto simp: ids_release)
    ultimately show ?thesis by blast
  qed simp
  then have "list_all (\<lambda>r. \<exists>x. get_tx w r = Inr x \<and> (\<forall>u \<ge> Tx_id w x. pending_of ?fl u = pending_of fl u) \<and>
      set (fl_ids ?fl) \<subseteq> set (fl_ids fl) \<union> \<Union> (pending_of fl ` {u. u < Tx_id w x})) ps"
    using min_txid_le(2) [OF m] unfolding list_all_iff by blast
  moreover have "all_pages ?fl = all_pages fl" by (simp add: all_pages_release)
  ultimately show ?thesis by (simp only: Let_def)
qed

context meta_source
begin

lemma begin_rwtx_Inr:
  assumes "DB_begin_rwtx metaf raw rawb p w = (Inr t, w2)"
  obtains d w1 minid where "get_db w p = Inr d" and "\<not> db_read_only d" and "\<not> db_rwlock d"
    and "\<not> db_metalock d" and "\<not> db_opened d"
    and "Tx_new metaf raw rawb p True (set_db w p (d\<lparr>db_rwlock := True, db_metalock := True\<rparr>)) = (Inr t, w1)"
    and "min_txid w2 (db_txs d) 0xFFFFFFFFFFFFFFFF = Inr minid"
    and "get_db w2 p = Inr (d\<lparr>db_rwlock := True, db_rwtx := t\<rparr>)"
    and "w_txs w2 = w_txs w1" and "w_fresh w2 = w_fresh w1" and "w_mem w2 = w_mem w1"
    and "if minid > 0 then \<exists>fl. get_freelist w (db_freelist d) = Inr fl
           \<and> FreeList_release fl (minid - 1) = Inr (released fl (minid - 1))
           \<and> get_freelist w2 (db_freelist d) = Inr (released fl (minid - 1))
         else get_freelist w2 (db_freelist d) = get_freelist w (db_freelist d)"
proof -
  from assms obtain d where d: "get_db w p = Inr d" by (auto simp: DB_begin_rwtx_def bindA_Inr_iff)
  let ?dl = "d\<lparr>db_rwlock := True, db_metalock := True\<rparr>"
  let ?wl = "set_db w p ?dl"
  from assms d have g: "\<not> db_read_only d" "\<not> db_rwlock d" "\<not> db_metalock d"
    and b: "with_guard p (begin_rwtx_locked metaf raw rawb p) ?wl = (Inr t, w2)"
    by (auto simp: DB_begin_rwtx_def lock_defs bindA_Inr_iff split: if_splits)
  from b obtain w1' where l: "begin_rwtx_locked metaf raw rawb p ?wl = (Inr t, w1')"
    and u: "unlock_meta p w1' = (Inr (), w2)"
    by (auto simp: with_guard_def split: prod.splits sum.splits)
  from l have o: "\<not> db_opened d"
    by (auto simp: begin_rwtx_locked_def lock_defs bindA_Inr_iff split: if_splits)
  from l o obtain w1 where n: "Tx_new metaf raw rawb p True ?wl = (Inr t, w1)"
    and l2: "bindA (upd_db p (\<lambda>d. d\<lparr>db_rwtx := t\<rparr>)) (\<lambda>_.
         bindA (readA (\<lambda>w. bindE (get_db w p) (\<lambda>d. min_txid w (db_txs d) 0xFFFFFFFFFFFFFFFF))) (\<lambda>minid.
         bindA (if minid > 0
           then bindA (readA (\<lambda>w. bindE (get_db w p) (\<lambda>d. Inr (db_freelist d)))) (\<lambda>fp.
                bindA (readA (\<lambda>w. get_freelist w fp)) (\<lambda>fl.
                bindA (readA (\<lambda>w. FreeList_release fl (minid - 1))) (\<lambda>fl'.
                updA (\<lambda>w. set_freelist w fp fl'))))
           else retA ()) (\<lambda>_. retA t))) w1 = (Inr t, w1')"
    by (auto simp: begin_rwtx_locked_def bindA_Inr_iff)
  have d1: "get_db w1 p = Inr ?dl" using Tx_new_Inr(1) [OF n] by (simp add: get_defs set_db_def)
  let ?wr = "set_db w1 p (?dl\<lparr>db_rwtx := t\<rparr>)"
  have f1: "get_freelist w1 q = get_freelist w q" for q
    using Tx_new_Inr(2) [OF n] by (simp add: get_defs)
  from l2 d1 obtain minid where m: "min_txid ?wr (db_txs d) 0xFFFFFFFFFFFFFFFF = Inr minid"
    and l3: "if minid > 0 then \<exists>fl. get_freelist w (db_freelist d) = Inr fl \<and>
        FreeList_release fl (minid - 1) = Inr (released fl (minid - 1)) \<and>
        w1' = set_freelist ?wr (db_freelist d) (released fl (minid - 1)) else w1' = ?wr"
    by (auto simp: bindA_Inr_iff bindE_Inr_iff FreeList_release_Inr f1 split: if_splits)
  have pr: "w_txs w1' = w_txs w1" "w_fresh w1' = w_fresh w1" "w_mem w1' = w_mem w1"
    "get_db w1' p = Inr (?dl\<lparr>db_rwtx := t\<rparr>)"
    using l3 by (auto split: if_splits)
  have fl: "if minid > 0 then \<exists>fl. get_freelist w (db_freelist d) = Inr fl \<and>
      FreeList_release fl (minid - 1) = Inr (released fl (minid - 1)) \<and>
      get_freelist w1' (db_freelist d) = Inr (released fl (minid - 1))
      else get_freelist w1' (db_freelist d) = get_freelist w (db_freelist d)"
    using l3 by (auto simp: f1 split: if_splits)
  have w2: "w2 = set_db w1' p (?dl\<lparr>db_rwtx := t, db_metalock := False\<rparr>)"
    using u pr(4) by (simp add: lock_defs)
  have dd: "?dl\<lparr>db_rwtx := t, db_metalock := False\<rparr> = d\<lparr>db_rwlock := True, db_rwtx := t\<rparr>"
    using g(3) by (cases d) simp
  have m2: "min_txid w2 (db_txs d) 0xFFFFFFFFFFFFFFFF = Inr minid"
    using m min_txid_cong [of w2 ?wr] pr w2 by simp
  show thesis
    using that [OF d g o n m2] fl pr w2 dd by simp
qed

end

section \<open>Starting a reader\<close>

context meta_source
begin

lemma begin_tx_Inr:
  assumes "DB_begin_tx metaf raw rawb p w = (Inr t, w2)"
  obtains d w1 dl where "get_db w p = Inr d" and "\<not> db_metalock d" and "\<not> db_opened d"
    and "Tx_new metaf raw rawb p False (set_db w p dl) = (Inr t, w1)"
    and "get_db w2 p = Inr (d\<lparr>db_txs := db_txs d @ [t],
        db_mmaplock := (db_mmaplock d)\<lparr>sm_readers := sm_readers (db_mmaplock d) + 1\<rparr>,
        db_stats := (db_stats d)\<lparr>tx_n := tx_n (db_stats d) + 1, open_tx_n := int_of_size (length (db_txs d) + 1)\<rparr>\<rparr>)"
    and "w_txs w2 = w_txs w1" and "w_fresh w2 = w_fresh w1"
proof -
  let ?mm = "\<lambda>d. (db_mmaplock d)\<lparr>sm_readers := sm_readers (db_mmaplock d) + 1\<rparr>"
  from assms obtain d where d: "get_db w p = Inr d" by (auto simp: DB_begin_tx_def lock_defs bindA_Inr_iff)
  define dl where "dl = d\<lparr>db_metalock := True, db_mmaplock := ?mm d\<rparr>"
  from assms d have g: "\<not> db_metalock d" "\<not> sm_writer (db_mmaplock d)" "\<not> db_opened d"
    by (auto simp: DB_begin_tx_def lock_defs bindA_Inr_iff split: if_splits)
  from assms d g obtain w1 where n: "Tx_new metaf raw rawb p False (set_db w p dl) = (Inr t, w1)"
    and r: "bindA (upd_db p (\<lambda>d. d\<lparr>db_txs := db_txs d @ [t]\<rparr>)) (\<lambda>_.
         bindA (unlock_meta p) (\<lambda>_. bindA (lock_stat p) (\<lambda>_.
         bindA (upd_db p (\<lambda>d. d\<lparr>db_stats := (db_stats d)\<lparr>tx_n := tx_n (db_stats d) + 1,
                 open_tx_n := int_of_size (length (db_txs d))\<rparr>\<rparr>)) (\<lambda>_.
         bindA (unlock_stat p) (\<lambda>_. retA t))))) w1 = (Inr t, w2)"
    by (auto simp: DB_begin_tx_def lock_defs bindA_Inr_iff dl_def)
  have d1: "get_db w1 p = Inr dl" using Tx_new_Inr(1) [OF n] by (simp add: get_defs set_db_def)
  from r d1 g have "\<not> sm_writer (db_statlock d)"
    by (auto simp: lock_defs bindA_Inr_iff dl_def split: if_splits)
  then have st: "(db_statlock d)\<lparr>sm_writer := False\<rparr> = db_statlock d" by (cases "db_statlock d") simp
  let ?d2 = "d\<lparr>db_mmaplock := ?mm d, db_txs := db_txs d @ [t], db_metalock := False,
        db_stats := (db_stats d)\<lparr>tx_n := tx_n (db_stats d) + 1, open_tx_n := int_of_size (length (db_txs d) + 1)\<rparr>,
        db_statlock := (db_statlock d)\<lparr>sm_writer := False\<rparr>\<rparr>"
  have w2: "w2 = set_db w1 p ?d2"
    using r d1 by (auto simp: lock_defs bindA_Inr_iff dl_def split: if_splits)
  have "?d2 = d\<lparr>db_txs := db_txs d @ [t], db_mmaplock := ?mm d,
        db_stats := (db_stats d)\<lparr>tx_n := tx_n (db_stats d) + 1, open_tx_n := int_of_size (length (db_txs d) + 1)\<rparr>\<rparr>"
    unfolding st using g(1) by (cases d) simp
  then show thesis using that [OF d g(1,3) n] w2 by simp
qed

end

section \<open>Ending a transaction\<close>

lemma Tx_close_open:
  assumes t: "get_tx w a = Inr t" and q: "tx_db t \<noteq> 0" and c: "Tx_close a w = (Inr (), w')"
  shows "w_txs w' = (w_txs w)(a \<mapsto> t\<lparr>tx_db := 0, tx_pages := Map.empty\<rparr>) \<and> w_fresh w' = w_fresh w \<and>
    (if tx_writable t then \<exists>d fl. get_db w (tx_db t) = Inr d \<and> db_rwlock d \<and>
       get_freelist w (db_freelist d) = Inr fl \<and>
       w_dbs w' = (w_dbs w)(tx_db t \<mapsto> close_stats fl t (d\<lparr>db_rwtx := 0, db_rwlock := False\<rparr>))
     else w_dbs w' = w_dbs w)"
proof -
  let ?r = "\<lambda>w. w\<lparr>w_buckets := (w_buckets w)(tx_root t := None)\<rparr>"
  let ?e = "\<lambda>w. set_tx (?r w) a (t\<lparr>tx_db := 0, tx_pages := Map.empty\<rparr>)"
  have gt: "get_tx (?r v) a = get_tx v a" for v by (simp add: get_defs)
  show ?thesis
  proof (cases "tx_writable t")
    case False
    then have "w' = ?e w" using c t q gt [of w] by (simp add: Tx_close_def DB_remove_tx_def)
    then show ?thesis using False by (simp add: set_tx_def)
  next
    case True
    from c t q True obtain d fl where d: "get_db w (tx_db t) = Inr d"
      and fl: "get_freelist w (db_freelist d) = Inr fl" and rw: "db_rwlock d"
      and sl: "\<not> sm_writer (db_statlock d)"
      and w': "w' = ?e (set_db w (tx_db t) ((close_stats fl t (d\<lparr>db_rwtx := 0, db_rwlock := False,
          db_statlock := (db_statlock d)\<lparr>sm_writer := True\<rparr>\<rparr>))\<lparr>db_statlock := (db_statlock d)\<lparr>sm_writer := False\<rparr>\<rparr>))"
      by (auto simp: Tx_close_def lock_defs bindA_Inr_iff bindE_Inr_iff gt close_stats_def split: if_splits)
    have "(db_statlock d)\<lparr>sm_writer := False\<rparr> = db_statlock d" using sl by (cases "db_statlock d") simp
    then have "(close_stats fl t (d\<lparr>db_rwtx := 0, db_rwlock := False, db_statlock := (db_statlock d)\<lparr>sm_writer := True\<rparr>\<rparr>))
        \<lparr>db_statlock := (db_statlock d)\<lparr>sm_writer := False\<rparr>\<rparr> = close_stats fl t (d\<lparr>db_rwtx := 0, db_rwlock := False\<rparr>)"
      by (cases d) (simp add: close_stats_def DB_page_size_def)
    then have "w' = ?e (set_db w (tx_db t) (close_stats fl t (d\<lparr>db_rwtx := 0, db_rwlock := False\<rparr>)))"
      using w' by (simp only:)
    then show ?thesis using True d fl rw by (auto simp: set_tx_def set_db_def)
  qed
qed

lemma set_freelist_same [simp]: "get_freelist w p = Inr fl \<Longrightarrow> set_freelist w p fl = w"
  by (simp add: set_freelist_def get_defs deref_Inr_iff fun_upd_idem)

context meta_source
begin

text \<open>\<^verbatim>\<open>rollback\<close> does to transactions and databases what \<^verbatim>\<open>close\<close> does.\<close>

lemma Tx_rollback_Inr:
  assumes "Tx_rollback metaf a w = (Inr (), w')"
  obtains t w1 where "get_tx w a = Inr t" and "tx_db t \<noteq> 0" and "\<not> tx_managed t"
    and "w_txs w1 = w_txs w" and "w_dbs w1 = w_dbs w" and "\<exists>k. w_fresh w1 = drop k (w_fresh w)"
    and "Tx_close a w1 = (Inr (), w')"
proof -
  from assms obtain t where t: "get_tx w a = Inr t" "tx_db t \<noteq> 0" "\<not> tx_managed t"
    and i: "Tx_rollback_inner metaf a w = (Inr (), w')"
    by (auto simp: Tx_rollback_def bindA_Inr_iff split: if_splits)
  show thesis
  proof (cases "tx_writable t")
    case False
    then have "Tx_close a w = (Inr (), w')" using i t by (simp add: Tx_rollback_inner_def)
    then show thesis using that t by (metis drop0)
  next
    case True
    from i t True obtain m w1 where m: "metaf w = (Inr m, w1)" and c: "Tx_close a w1 = (Inr (), w')"
      by (auto simp: Tx_rollback_inner_def bindA_Inr_iff FreeList_rollback_def FreeList_reload_def)
    from keeps [OF m] c show thesis by (intro that [OF t, of w1]) simp_all
  qed
qed

end

section \<open>One writer at a time\<close>

text \<open>
  The invariant of a database and its transactions: while \<^verbatim>\<open>rwtx_\<close> is set it is the one open writable
  transaction and the writer lock is held; otherwise no writable transaction is open. As long as no
  call has thrown, the writer lock is held only while \<^verbatim>\<open>rwtx_\<close> is set, and the meta lock is free between
  calls.
\<close>

definition writer_inv :: "addr \<Rightarrow> world \<Rightarrow> bool" where
  "writer_inv p w \<longleftrightarrow> (\<exists>d. get_db w p = Inr d \<and> (db_rwtx d \<noteq> 0 \<longrightarrow> db_rwlock d) \<and>
     (\<forall>a. (\<exists>t. w_txs w a = Some t \<and> tx_db t = p \<and> tx_writable t) \<longleftrightarrow> db_rwtx d \<noteq> 0 \<and> db_rwtx d = a)) \<and>
     p \<noteq> 0 \<and> 0 \<notin> set (w_fresh w) \<and> distinct (w_fresh w) \<and> set (w_fresh w) \<inter> dom (w_txs w) = {}"

definition no_lock_lost :: "addr \<Rightarrow> world \<Rightarrow> bool" where
  "no_lock_lost p w \<longleftrightarrow> (\<forall>d. get_db w p = Inr d \<longrightarrow> (db_rwlock d \<longrightarrow> db_rwtx d \<noteq> 0) \<and> \<not> db_metalock d)"

text \<open>
  Calls of the public interface, whether they return or throw; the flag says which. The other
  outcomes have no next state: the process ends, the call waits for ever, or its behaviour is
  undefined.
\<close>

definition call_ends :: "'a res \<Rightarrow> bool \<Rightarrow> bool" where
  "call_ends r threw \<longleftrightarrow> (case r of Inr _ \<Rightarrow> \<not> threw | Inl (Throw _) \<Rightarrow> threw | Inl _ \<Rightarrow> False)"

inductive db_step :: "addr act \<Rightarrow> addr \<Rightarrow> bool \<Rightarrow> world \<Rightarrow> world \<Rightarrow> bool" for metaf p where
  start: "DB_begin metaf raw rawb p writable w = (r, w') \<Longrightarrow> call_ends r threw \<Longrightarrow> db_step metaf p threw w w'"
| commit: "Tx_commit a w = (r, w') \<Longrightarrow> call_ends r threw \<Longrightarrow> db_step metaf p threw w w'"
| rollback: "Tx_rollback metaf a w = (r, w') \<Longrightarrow> call_ends r threw \<Longrightarrow> db_step metaf p threw w w'"
| on_commit: "Tx_on_commit a fn w = (r, w') \<Longrightarrow> call_ends r threw \<Longrightarrow> db_step metaf p threw w w'"

lemma call_endsE:
  assumes "call_ends r threw"
  obtains v where "r = Inr v" and "\<not> threw" | e where "r = Inl (Throw e)" and "threw"
  using assms by (auto simp: call_ends_def split: sum.splits fault.splits)

lemma fresh_drop:
  assumes "0 \<notin> set fs" and "distinct fs" and "set fs \<inter> D = {}"
  shows "0 \<notin> set (drop k fs)" and "distinct (drop k fs)" and "set (drop k fs) \<inter> D = {}"
  using assms set_drop_subset [of k fs] by auto

lemma fresh_tail:
  assumes "distinct fs" and "t = hd fs" and "fs \<noteq> []" and "set fs \<inter> D = {}"
  shows "t \<notin> D" and "set (drop (Suc k) fs) \<inter> insert t D = {}"
proof -
  obtain gs where fs: "fs = t # gs" using assms(2,3) by (cases fs) auto
  show "t \<notin> D" using assms(4) fs by auto
  show "set (drop (Suc k) fs) \<inter> insert t D = {}"
    using assms(1,4) fs set_drop_subset [of k gs] by auto
qed

context meta_source
begin

text \<open>A call of \<^verbatim>\<open>begin\<close> that throws starts no transaction; it may leave locks held, but releases none.\<close>

lemma begin_tx_throws:
  assumes b: "DB_begin_tx metaf raw rawb p w = (Inl (Throw e), w')" and d: "get_db w p = Inr d"
  shows "w_txs w' = w_txs w" and "\<exists>k. w_fresh w' = drop k (w_fresh w)"
    and "\<exists>d'. get_db w' p = Inr d' \<and> db_rwtx d' = db_rwtx d \<and> db_rwlock d' = db_rwlock d \<and> db_read_only d' = db_read_only d"
proof -
  define dl where "dl = d\<lparr>db_metalock := True,
    db_mmaplock := (db_mmaplock d)\<lparr>sm_readers := sm_readers (db_mmaplock d) + 1\<rparr>\<rparr>"
  let ?wl = "set_db w p dl"
  have g: "\<not> db_metalock d" "\<not> sm_writer (db_mmaplock d)"
    using b d by (auto simp: DB_begin_tx_def lock_defs bindA_def split: if_splits)
  have "w_txs w' = w_txs w \<and> (\<exists>k. w_fresh w' = drop k (w_fresh w)) \<and>
    (\<exists>d'. get_db w' p = Inr d' \<and> db_rwtx d' = db_rwtx d \<and> db_rwlock d' = db_rwlock d \<and> db_read_only d' = db_read_only d)"
  proof (cases "db_opened d")
    case True
    then show ?thesis using b d g by (auto simp: DB_begin_tx_def lock_defs bindA_def intro: exI [of _ 0])
  next
    case False
    obtain r w1 where n: "Tx_new metaf raw rawb p False ?wl = (r, w1)" by (cases "Tx_new metaf raw rawb p False ?wl")
    show ?thesis
    proof (cases r)
      case (Inl f)
      then have "w' = w1" using b d g False n by (simp add: DB_begin_tx_def lock_defs bindA_def dl_def)
      then show ?thesis using Tx_new_Inl(1-3) [OF n [unfolded Inl]] by (simp add: get_defs set_db_def dl_def)
    next
      case (Inr t)
      then have "get_db w1 p = Inr dl" using Tx_new_Inr(1) n by (simp add: get_defs set_db_def)
      then show ?thesis
        using b d g False n Inr by (simp add: DB_begin_tx_def lock_defs bindA_def dl_def split: if_splits)
    qed
  qed
  then show "w_txs w' = w_txs w" "\<exists>k. w_fresh w' = drop k (w_fresh w)"
    "\<exists>d'. get_db w' p = Inr d' \<and> db_rwtx d' = db_rwtx d \<and> db_rwlock d' = db_rwlock d \<and> db_read_only d' = db_read_only d" by simp_all
qed

text \<open>Inside the guard an exception can only come from the constructor or from the test before it.\<close>

lemma begin_rwtx_locked_throws:
  assumes b: "begin_rwtx_locked metaf raw rawb p w = (Inl (Throw e), w')"
    and d: "get_db w p = Inr d" and l: "db_rwlock d"
  shows "w_txs w' = w_txs w" and "\<exists>k. w_fresh w' = drop k (w_fresh w)"
    and "\<exists>d'. get_db w' p = Inr d' \<and> db_rwtx d' = db_rwtx d \<and> db_read_only d' = db_read_only d \<and> (\<not> db_opened d \<longrightarrow> db_rwlock d')"
proof -
  obtain r w1 where n: "Tx_new metaf raw rawb p True w = (r, w1)" by (cases "Tx_new metaf raw rawb p True w")
  have r: "min_txid w ps a \<noteq> Inl (Throw x)" for w ps a x
    by (induction ps arbitrary: a) (auto simp: bindE_Inl_iff Tx_meta_txid_def get_defs deref_def split: option.splits)
  have fr: "FreeList_release fl u \<noteq> Inl (Throw x)" for fl u x by (simp add: FreeList_release_eq)
  have gf: "get_freelist w q \<noteq> Inl (Throw x)" for w q x by (simp add: get_defs deref_def split: option.splits)
  have "w_txs w' = w_txs w \<and> (\<exists>k. w_fresh w' = drop k (w_fresh w)) \<and>
    (\<exists>d'. get_db w' p = Inr d' \<and> db_rwtx d' = db_rwtx d \<and> db_read_only d' = db_read_only d \<and> (\<not> db_opened d \<longrightarrow> db_rwlock d'))"
  proof (cases "db_opened d")
    case True
    then show ?thesis using b d l by (auto simp: begin_rwtx_locked_def lock_defs bindA_def intro: exI [of _ 0])
  next
    case o: False
    show ?thesis
    proof (cases r)
      case (Inl f)
      then have "w' = w1" using b d o n by (simp add: begin_rwtx_locked_def bindA_def)
      then show ?thesis using Tx_new_Inl(1-3) [OF n [unfolded Inl]] d l by (simp add: get_defs)
    next
      case (Inr t)
      then have "get_db w1 p = Inr d" using Tx_new_Inr(1) n d by (simp add: get_defs)
      then show ?thesis
        using b d o n Inr
        by (auto simp: begin_rwtx_locked_def bindA_def r fr gf split: sum.splits if_splits prod.splits)
    qed
  qed
  then show "w_txs w' = w_txs w" "\<exists>k. w_fresh w' = drop k (w_fresh w)"
    "\<exists>d'. get_db w' p = Inr d' \<and> db_rwtx d' = db_rwtx d \<and> db_read_only d' = db_read_only d \<and> (\<not> db_opened d \<longrightarrow> db_rwlock d')" by simp_all
qed

end

lemma writer_inv_same:
  assumes "writer_inv p w" and "w_txs w' = w_txs w" and "\<exists>k. w_fresh w' = drop k (w_fresh w)"
    and "get_db w p = Inr d" and "get_db w' p = Inr d'" and "db_rwtx d' = db_rwtx d" and "db_rwlock d \<longrightarrow> db_rwlock d'"
  shows "writer_inv p w'"
proof -
  obtain k where k: "w_fresh w' = drop k (w_fresh w)" using assms(3) by blast
  have fr: "0 \<notin> set (w_fresh w)" "distinct (w_fresh w)" "set (w_fresh w) \<inter> dom (w_txs w) = {}"
    using assms(1) by (auto simp: writer_inv_def)
  show ?thesis using assms(1,4-7) fresh_drop [OF fr] unfolding writer_inv_def assms(2) k by auto
qed

context meta_source
begin

lemma begin_throws:
  assumes b: "DB_begin metaf raw rawb p wr w = (Inl (Throw e), w')" and d: "get_db w p = Inr d"
  shows "w_txs w' = w_txs w" and "\<exists>k. w_fresh w' = drop k (w_fresh w)"
    and "\<exists>d'. get_db w' p = Inr d' \<and> db_rwtx d' = db_rwtx d \<and> db_read_only d' = db_read_only d \<and>
      (db_rwlock d \<longrightarrow> db_rwlock d')"
proof -
  have "w_txs w' = w_txs w \<and> (\<exists>k. w_fresh w' = drop k (w_fresh w)) \<and>
    (\<exists>d'. get_db w' p = Inr d' \<and> db_rwtx d' = db_rwtx d \<and> db_read_only d' = db_read_only d \<and>
      (db_rwlock d \<longrightarrow> db_rwlock d'))"
  proof (cases wr)
    case False
    with b have "DB_begin_tx metaf raw rawb p w = (Inl (Throw e), w')" by (simp add: DB_begin_def)
    from begin_tx_throws [OF this d] show ?thesis by auto
  next
    case True
    with b have b: "DB_begin_rwtx metaf raw rawb p w = (Inl (Throw e), w')" by (simp add: DB_begin_def)
    show ?thesis
    proof (cases "db_read_only d")
      case True
      then show ?thesis using b d by (auto simp: DB_begin_rwtx_def intro: exI [of _ 0])
    next
      case False
      let ?dl = "d\<lparr>db_rwlock := True, db_metalock := True\<rparr>"
      let ?wl = "set_db w p ?dl"
      have g: "\<not> db_rwlock d" and "with_guard p (begin_rwtx_locked metaf raw rawb p) ?wl = (Inl (Throw e), w')"
        using b d False by (auto simp: DB_begin_rwtx_def lock_defs bindA_def split: if_splits)
      then obtain w1 where l: "begin_rwtx_locked metaf raw rawb p ?wl = (Inl (Throw e), w1)"
        and u: "unlock_meta p w1 = (Inr (), w')"
        by (auto simp: with_guard_def lock_defs upd_db_def bindA_def get_defs deref_def
            split: prod.splits sum.splits if_splits option.splits)
      note q = begin_rwtx_locked_throws [OF l, of ?dl, simplified]
      obtain d1 where d1: "get_db w1 p = Inr d1" "db_rwtx d1 = db_rwtx d" "db_read_only d1 = db_read_only d"
        using q(3) by blast
      with u have "get_db w' p = Inr (d1\<lparr>db_metalock := False\<rparr>)" "w_txs w' = w_txs w1" "w_fresh w' = w_fresh w1"
        by (auto simp: lock_defs bindA_def split: if_splits)
      then show ?thesis using q(1,2) g d1 by simp
    qed
  qed
  then show "w_txs w' = w_txs w" "\<exists>k. w_fresh w' = drop k (w_fresh w)"
    "\<exists>d'. get_db w' p = Inr d' \<and> db_rwtx d' = db_rwtx d \<and> db_read_only d' = db_read_only d \<and>
      (db_rwlock d \<longrightarrow> db_rwlock d')" by simp_all
qed

lemma begin_throws_inv:
  assumes inv: "writer_inv p w" and b: "DB_begin metaf raw rawb p wr w = (Inl (Throw e), w')"
  shows "writer_inv p w'"
proof -
  obtain d where d: "get_db w p = Inr d" using inv by (auto simp: writer_inv_def)
  from begin_throws [OF b d] show ?thesis using writer_inv_same [OF inv _ _ d] by blast
qed

lemma begin_inv:
  assumes inv: "writer_inv p w" and b: "DB_begin metaf raw rawb p wr w = (Inr t, w')"
  shows "writer_inv p w' \<and> (no_lock_lost p w \<longrightarrow> no_lock_lost p w')"
proof -
  obtain d where d: "get_db w p = Inr d" and lk: "db_rwtx d \<noteq> 0 \<longrightarrow> db_rwlock d"
    and tx: "\<And>a. (\<exists>t. w_txs w a = Some t \<and> tx_db t = p \<and> tx_writable t) \<longleftrightarrow> db_rwtx d \<noteq> 0 \<and> db_rwtx d = a"
    and p: "p \<noteq> 0" and fr: "0 \<notin> set (w_fresh w)" "distinct (w_fresh w)" "set (w_fresh w) \<inter> dom (w_txs w) = {}"
    using inv by (auto simp: writer_inv_def)
  obtain wl w1 where n: "Tx_new metaf raw rawb p wr wl = (Inr t, w1)" and wl: "w_txs wl = w_txs w" "w_fresh wl = w_fresh w"
    and w': "w_txs w' = w_txs w1" "w_fresh w' = w_fresh w1"
    and d': "\<exists>d'. get_db w' p = Inr d' \<and> \<not> db_metalock d \<and> \<not> db_metalock d' \<and>
      (if wr then \<not> db_rwlock d \<and> db_rwlock d' \<and> db_rwtx d' = t else db_rwlock d' = db_rwlock d \<and> db_rwtx d' = db_rwtx d)"
  proof (cases wr)
    case True
    with b have "DB_begin_rwtx metaf raw rawb p w = (Inr t, w')" by (simp add: DB_begin_def)
    then show thesis using that True d by (elim begin_rwtx_Inr) auto
  next
    case False
    with b have "DB_begin_tx metaf raw rawb p w = (Inr t, w')" by (simp add: DB_begin_def)
    then show thesis using that False d by (elim begin_tx_Inr) auto
  qed
  note T = Tx_new_Inr(3-6) [OF n, unfolded wl]
  obtain x where x: "w_txs w1 = (w_txs w)(t \<mapsto> x)" "tx_db x = p" "tx_writable x = wr" using T(4) by blast
  obtain k where k: "w_fresh w1 = drop (Suc k) (w_fresh w)" using T(2) by blast
  have ne: "w_fresh w \<noteq> []" "t \<noteq> 0" using T(1) fr(1) by auto
  note ft = fresh_tail [OF fr(2) T(3) ne(1) fr(3)]
  have tn: "w_txs w t = None" using ft(1) by auto
  have f': "0 \<notin> set (w_fresh w1)" "distinct (w_fresh w1)" "set (w_fresh w1) \<inter> dom (w_txs w1) = {}"
    using fresh_drop(1,2) [OF fr(1,2), of "{}" "Suc k"] ft(2) k x(1) by auto
  obtain d' where dd: "get_db w' p = Inr d'" "\<not> db_metalock d'"
    and dw: "if wr then \<not> db_rwlock d \<and> db_rwlock d' \<and> db_rwtx d' = t else db_rwlock d' = db_rwlock d \<and> db_rwtx d' = db_rwtx d"
    using d' by blast
  have "(\<exists>y. w_txs w1 a = Some y \<and> tx_db y = p \<and> tx_writable y) \<longleftrightarrow> db_rwtx d' \<noteq> 0 \<and> db_rwtx d' = a" for a
    using tx [of a] x dw lk ne(2) tn by (cases "a = t") (auto split: if_splits)
  then have "writer_inv p w'"
    unfolding writer_inv_def w' using dd dw lk p f' ne(2) by (auto split: if_splits)
  then show ?thesis using d dd dw ne(2) by (auto simp: no_lock_lost_def split: if_splits)
qed

end

lemma close_stats_proj [simp]:
  "db_rwlock (close_stats fl t d) = db_rwlock d" "db_rwtx (close_stats fl t d) = db_rwtx d"
  "db_metalock (close_stats fl t d) = db_metalock d" "db_txs (close_stats fl t d) = db_txs d"
  by (simp_all add: close_stats_def)

lemma writer_inv_upd_tx:
  assumes "writer_inv p w" and "w_txs w a = Some t" and "w_txs w' = (w_txs w)(a \<mapsto> t')"
    and "tx_db t' = tx_db t" and "tx_writable t' = tx_writable t" and "w_dbs w' = w_dbs w" and "w_fresh w' = w_fresh w"
  shows "writer_inv p w'"
proof -
  have "(\<exists>x. w_txs w' c = Some x \<and> tx_db x = p \<and> tx_writable x)
      \<longleftrightarrow> (\<exists>x. w_txs w c = Some x \<and> tx_db x = p \<and> tx_writable x)" for c
    using assms(2-5) by (cases "c = a") auto
  moreover have "dom (w_txs w') = dom (w_txs w)" using assms(2,3) by auto
  moreover have "get_db w' p = get_db w p" using assms(6) by (simp add: get_defs)
  ultimately show ?thesis using assms(1,7) by (simp only: writer_inv_def) simp
qed

lemma no_lock_lost_same: "w_dbs w' = w_dbs w \<Longrightarrow> no_lock_lost p w' = no_lock_lost p w"
  by (simp add: no_lock_lost_def get_defs)

lemma gets_no_throw [simp]:
  "get_db w p \<noteq> Inl (Throw e)" "get_tx w p \<noteq> Inl (Throw e)" "get_freelist w p \<noteq> Inl (Throw e)"
  "upd_db p f w \<noteq> (Inl (Throw e), w')" "upd_tx p g w \<noteq> (Inl (Throw e), w')"
  "unlock_rw p w \<noteq> (Inl (Throw e), w')" "lock_stat p w \<noteq> (Inl (Throw e), w')" "unlock_stat p w \<noteq> (Inl (Throw e), w')"
  by (simp_all add: lock_defs upd_db_def upd_tx_def bindA_Inl_iff get_defs deref_def split: option.splits)

lemma Tx_close_no_throw: "Tx_close a w \<noteq> (Inl (Throw e), w')"
  by (simp add: Tx_close_def DB_remove_tx_def bindA_Inl_iff bindE_Inl_iff)

context meta_source
begin

lemma rollback_throws:
  assumes r: "Tx_rollback metaf a w = (Inl (Throw e), w')"
  shows "w_txs w' = w_txs w" and "w_dbs w' = w_dbs w" and "\<exists>k. w_fresh w' = drop k (w_fresh w)"
proof -
  have "w_txs w' = w_txs w \<and> w_dbs w' = w_dbs w \<and> (\<exists>k. w_fresh w' = drop k (w_fresh w))"
  proof (cases "w' = w")
    case True
    then show ?thesis by (auto intro: exI [of _ 0])
  next
    case False
    with r have m: "metaf w = (Inl (Throw e), w')"
      by (auto simp: Tx_rollback_def Tx_rollback_inner_def FreeList_rollback_def Tx_close_no_throw bindA_Inl_iff
          split: if_splits)
    from keeps [OF m] show ?thesis by blast
  qed
  then show "w_txs w' = w_txs w" "w_dbs w' = w_dbs w" "\<exists>k. w_fresh w' = drop k (w_fresh w)" by simp_all
qed

lemma rollback_throws_inv:
  assumes inv: "writer_inv p w" and r: "Tx_rollback metaf a w = (Inl (Throw e), w')"
  shows "writer_inv p w'"
proof -
  obtain d where d: "get_db w p = Inr d" using inv by (auto simp: writer_inv_def)
  then have "get_db w' p = Inr d" using rollback_throws(2) [OF r] by (simp add: get_defs)
  then show ?thesis using rollback_throws(1,3) [OF r] d by (intro writer_inv_same [OF inv, of w' d d]) simp_all
qed

lemma rollback_inv:
  assumes inv: "writer_inv p w" and r: "Tx_rollback metaf a w = (Inr (), w')"
  shows "writer_inv p w' \<and> (no_lock_lost p w \<longrightarrow> no_lock_lost p w')"
proof -
  from r obtain t w1 k where t: "get_tx w a = Inr t" "tx_db t \<noteq> 0" and w1: "w_txs w1 = w_txs w" "w_dbs w1 = w_dbs w"
    and k: "w_fresh w1 = drop k (w_fresh w)" and c: "Tx_close a w1 = (Inr (), w')"
    by (elim Tx_rollback_Inr) blast
  obtain d where d: "get_db w p = Inr d" and lk: "db_rwtx d \<noteq> 0 \<longrightarrow> db_rwlock d"
    and tx: "\<And>a. (\<exists>t. w_txs w a = Some t \<and> tx_db t = p \<and> tx_writable t) \<longleftrightarrow> db_rwtx d \<noteq> 0 \<and> db_rwtx d = a"
    and p: "p \<noteq> 0" and fr: "0 \<notin> set (w_fresh w)" "distinct (w_fresh w)" "set (w_fresh w) \<inter> dom (w_txs w) = {}"
    using inv by (auto simp: writer_inv_def)
  have wt: "w_txs w a = Some t" using t(1) by (simp add: get_defs deref_Inr_iff)
  have t1: "get_tx w1 a = Inr t" using t(1) w1 by (simp add: get_defs)
  note cl = Tx_close_open [OF t1 t(2) c]
  have tx': "w_txs w' = (w_txs w)(a \<mapsto> t\<lparr>tx_db := 0, tx_pages := Map.empty\<rparr>)" and f': "w_fresh w' = drop k (w_fresh w)"
    using cl w1 k by simp_all
  have dom: "dom (w_txs w') = dom (w_txs w)" using tx' wt by auto
  have fresh: "0 \<notin> set (w_fresh w')" "distinct (w_fresh w')" "set (w_fresh w') \<inter> dom (w_txs w') = {}"
    unfolding f' dom using fresh_drop [OF fr] by simp_all
  have op: "(\<exists>x. w_txs w' c = Some x \<and> tx_db x = p \<and> tx_writable x)
      \<longleftrightarrow> c \<noteq> a \<and> db_rwtx d \<noteq> 0 \<and> db_rwtx d = c" for c
    using tx [of c] tx' p by (cases "c = a") auto
  show ?thesis
  proof (cases "tx_writable t \<and> tx_db t = p")
    case True
    then have rw: "db_rwtx d = a" using tx [of a] wt by auto
    from True cl w1(2) d obtain fl where d': "get_db w' p = Inr (close_stats fl t (d\<lparr>db_rwtx := 0, db_rwlock := False\<rparr>))"
      by (auto simp: get_defs deref_def split: option.splits)
    then have "writer_inv p w'" using op rw p fresh by (auto simp: writer_inv_def)
    then show ?thesis using d d' by (simp add: no_lock_lost_def)
  next
    case False
    then have d': "get_db w' p = Inr d" using cl w1(2) d by (auto simp: get_defs deref_def split: if_splits option.splits)
    have "db_rwtx d \<noteq> a \<or> db_rwtx d = 0" using tx [of a] wt False by auto
    then have "(\<exists>x. w_txs w' c = Some x \<and> tx_db x = p \<and> tx_writable x) \<longleftrightarrow> db_rwtx d \<noteq> 0 \<and> db_rwtx d = c" for c
      using op [of c] by auto
    then have "writer_inv p w'" using d' lk p fresh unfolding writer_inv_def by blast
    then show ?thesis using d d' by (simp add: no_lock_lost_def)
  qed
qed

lemma step_inv:
  assumes "db_step metaf p threw w w'" and "writer_inv p w"
  shows "writer_inv p w' \<and> (\<not> threw \<longrightarrow> no_lock_lost p w \<longrightarrow> no_lock_lost p w')"
  using assms
proof (induction rule: db_step.induct)
  case (start raw rawb writable w r w' threw)
  from start(2) show ?case
    by (rule call_endsE) (use start begin_inv begin_throws_inv in blast)+
next
  case (commit a w r w' threw)
  then have "w' = w" by (elim call_endsE) (auto simp: Tx_commit_def bindA_def get_defs deref_def split: if_splits option.splits)
  then show ?case using commit.prems by simp
next
  case (rollback a w r w' threw)
  from rollback(2) show ?case
  proof (rule call_endsE)
    fix v :: unit assume "r = Inr v"
    then show ?thesis using rollback_inv [OF rollback.prems, of a w'] rollback(1) by simp
  next
    fix e assume "r = Inl (Throw e)" and threw
    then show ?thesis using rollback_throws_inv [OF rollback.prems, of a e w'] rollback(1) by simp
  qed
next
  case (on_commit a fn w r w' threw)
  from on_commit(2) show ?case
  proof (rule call_endsE)
    fix e assume "r = Inl (Throw e)"
    then show ?thesis using on_commit(1) by (simp add: Tx_on_commit_def upd_tx_def bindA_def get_defs deref_def split: option.splits)
  next
    fix v assume "r = Inr v"
    then obtain t where t: "w_txs w a = Some t"
      and w': "w' = set_tx w a (t\<lparr>tx_commit_handlers := tx_commit_handlers t @ [fn]\<rparr>)"
      using on_commit(1) by (auto simp: Tx_on_commit_def upd_tx_def bindA_Inr_iff get_defs deref_Inr_iff)
    have "writer_inv p w'"
      using t w' by (intro writer_inv_upd_tx [OF on_commit.prems, of a t _ "t\<lparr>tx_commit_handlers := tx_commit_handlers t @ [fn]\<rparr>"])
        (simp_all add: set_tx_def)
    moreover have "no_lock_lost p w' = no_lock_lost p w" unfolding w' by (rule no_lock_lost_same) (simp add: set_tx_def)
    ultimately show ?thesis by blast
  qed
qed

text \<open>The steps keep a transaction's mode and its database, unless it ends, and the read-only flag.\<close>

lemma step_keeps:
  assumes "db_step metaf p threw w w'" and "writer_inv p w"
  shows "get_tx w t = Inr x \<Longrightarrow> \<exists>y. get_tx w' t = Inr y \<and> tx_writable y = tx_writable x \<and> (tx_db y = tx_db x \<or> tx_db y = 0)"
    and "get_db w p = Inr d \<Longrightarrow> \<exists>d'. get_db w' p = Inr d' \<and> db_read_only d' = db_read_only d"
proof -
  let ?T = "\<lambda>w'. get_tx w t = Inr x \<longrightarrow> (\<exists>y. get_tx w' t = Inr y \<and> tx_writable y = tx_writable x \<and> (tx_db y = tx_db x \<or> tx_db y = 0))"
  let ?D = "\<lambda>w'. get_db w p = Inr d \<longrightarrow> (\<exists>d'. get_db w' p = Inr d' \<and> db_read_only d' = db_read_only d)"
  have same: "?T w' \<and> ?D w'" if "w_txs w' = w_txs w" "w_dbs w' = w_dbs w" for w' using that by (auto simp: get_defs)
  have "?T w' \<and> ?D w'"
    using assms
  proof cases
    case (start raw rawb wr r)
    obtain d0 where d0: "get_db w p = Inr d0" using assms(2) by (auto simp: writer_inv_def)
    from start(2) show ?thesis
    proof (rule call_endsE)
      fix e assume "r = Inl (Throw e)"
      then have "DB_begin metaf raw rawb p wr w = (Inl (Throw e), w')" using start(1) by simp
      from begin_throws [OF this d0] d0 show ?thesis by (auto simp: get_defs)
    next
      fix a assume r: "r = Inr a"
      obtain wl w1 where n: "Tx_new metaf raw rawb p wr wl = (Inr a, w1)" and wl: "w_txs wl = w_txs w" "w_fresh wl = w_fresh w"
        and w': "w_txs w' = w_txs w1" and D: "?D w'"
      proof (cases wr)
        case True
        with start(1) r have "DB_begin_rwtx metaf raw rawb p w = (Inr a, w')" by (simp add: DB_begin_def)
        then show thesis using that True by (elim begin_rwtx_Inr) auto
      next
        case False
        with start(1) r have "DB_begin_tx metaf raw rawb p w = (Inr a, w')" by (simp add: DB_begin_def)
        then show thesis using that False by (elim begin_tx_Inr) auto
      qed
      have "a \<in> set (w_fresh w)" using Tx_new_Inr(3) [OF n] wl by simp
      then have "a \<notin> dom (w_txs w)" using assms(2) by (auto simp: writer_inv_def)
      then have "?T w'" using Tx_new_Inr(6) [OF n] wl w' by (auto simp: get_defs deref_Inr_iff)
      then show ?thesis using D by blast
    qed
  next
    case (commit a r)
    then have "w' = w" by (elim call_endsE) (auto simp: Tx_commit_def bindA_def get_defs deref_def split: if_splits option.splits)
    then show ?thesis using same by blast
  next
    case (rollback a r)
    from rollback(2) show ?thesis
    proof (rule call_endsE)
      fix e assume "r = Inl (Throw e)"
      then show ?thesis using rollback_throws(1,2) rollback(1) same by blast
    next
      fix v :: unit assume "r = Inr v"
      then have "Tx_rollback metaf a w = (Inr (), w')" using rollback(1) by simp
      then obtain s w1 where s: "get_tx w a = Inr s" "tx_db s \<noteq> 0" and w1: "w_txs w1 = w_txs w" "w_dbs w1 = w_dbs w"
        and c: "Tx_close a w1 = (Inr (), w')" by (elim Tx_rollback_Inr) blast
      have s1: "get_tx w1 a = Inr s" using s w1 by (simp add: get_defs)
      note cl = Tx_close_open [OF s1 s(2) c]
      have "?T w'" using cl s w1 by (auto simp: get_defs deref_Inr_iff)
      moreover have "?D w'"
        using cl w1 by (cases "tx_writable s"; cases "tx_db s = p") (auto simp: get_defs deref_Inr_iff close_stats_def)
      ultimately show ?thesis by blast
    qed
  next
    case (on_commit a fn r)
    then have "w' = w \<or> (\<exists>s. w_txs w a = Some s \<and> w' = set_tx w a (s\<lparr>tx_commit_handlers := tx_commit_handlers s @ [fn]\<rparr>))"
      by (auto simp: Tx_on_commit_def upd_tx_def bindA_def get_defs deref_def split: option.splits)
    then show ?thesis by (auto simp: set_tx_def get_defs deref_Inr_iff)
  qed
  then show "get_tx w t = Inr x \<Longrightarrow> \<exists>y. get_tx w' t = Inr y \<and> tx_writable y = tx_writable x \<and> (tx_db y = tx_db x \<or> tx_db y = 0)"
    and "get_db w p = Inr d \<Longrightarrow> \<exists>d'. get_db w' p = Inr d' \<and> db_read_only d' = db_read_only d" by blast+
qed

end

text \<open>
  C4. One writer at a time. In every state reached by calls of \<^verbatim>\<open>begin\<close>, \<^verbatim>\<open>commit\<close>, \<^verbatim>\<open>rollback\<close> and
  \<^verbatim>\<open>on_commit\<close>, whether they return or throw, from a state with the invariant, at most one writable
  transaction of the database is open: the one \<^verbatim>\<open>rwtx_\<close> points to, and the writer lock is held
  while there is one. As long as every call has returned, the lock is held only then. (A \<^verbatim>\<open>begin\<close>
  whose constructor throws leaves the lock held with no writer.) It holds for every way of
  obtaining meta records that leaves transactions and databases alone.
\<close>

theorem single_writer:
  assumes "meta_source metaf" and "writer_inv p w" and "no_lock_lost p w"
    and "(\<lambda>u v. \<exists>threw. db_step metaf p threw u v)\<^sup>*\<^sup>* w w'"
  shows "\<exists>d. get_db w' p = Inr d \<and> (db_rwtx d \<noteq> 0 \<longrightarrow> db_rwlock d) \<and>
    {a. \<exists>t. get_tx w' a = Inr t \<and> tx_db t = p \<and> tx_writable t} = (if db_rwtx d \<noteq> 0 then {db_rwtx d} else {}) \<and>
    ((db_step metaf p False)\<^sup>*\<^sup>* w w' \<longrightarrow> (db_rwlock d \<longleftrightarrow> db_rwtx d \<noteq> 0) \<and> \<not> db_metalock d)"
proof -
  note st = meta_source.step_inv [OF assms(1)]
  have inv: "writer_inv p w'" using assms(4,2) by (induction rule: rtranclp_induct) (use st in blast)+
  have "writer_inv p w' \<and> no_lock_lost p w'" if "(db_step metaf p False)\<^sup>*\<^sup>* w w'"
    using that assms(2,3) by (induction rule: rtranclp_induct) (use st in blast)+
  then have nl: "(db_step metaf p False)\<^sup>*\<^sup>* w w' \<longrightarrow> no_lock_lost p w'" by blast
  obtain d where "get_db w' p = Inr d" "db_rwtx d \<noteq> 0 \<longrightarrow> db_rwlock d"
    "\<And>a. (\<exists>t. w_txs w' a = Some t \<and> tx_db t = p \<and> tx_writable t) \<longleftrightarrow> db_rwtx d \<noteq> 0 \<and> db_rwtx d = a"
    using inv by (auto simp: writer_inv_def)
  then show ?thesis using nl by (intro exI [of _ d]) (auto simp: get_defs deref_Inr_iff no_lock_lost_def)
qed

section \<open>The program's own meta records\<close>

lemma load_zeros:
  assumes "i + 8 \<le> n" and "n \<le> 2 ^ 64"
  shows "load_u64 (write_bytes m a (replicate n 0)) (a + of_nat i) = 0"
proof -
  have "read_bytes (write_bytes m a (replicate n 0)) a n = replicate n 0"
    using assms(2) by (intro read_write_same) simp_all
  then have "read_bytes (write_bytes m a (replicate n 0)) (a + of_nat i) 8 = replicate 8 0"
    using read_bytes_sub [OF assms(1), of "write_bytes m a (replicate n 0)" a] assms(1) by simp
  also have "\<dots> = read_bytes (\<lambda>_. 0) 0 8" by (simp add: read_bytes_def map_replicate_const)
  finally show ?thesis using load_zero by (simp add: load_u64_def)
qed

lemma Tx_new_own_meta: "Tx_new DB_meta raw rawb db writable w \<noteq> (Inr t, w')"
proof
  assume "Tx_new DB_meta raw rawb db writable w = (Inr t, w')"
  then obtain w1 src w2 meta w3 where i: "DB_meta w1 = (Inr src, w2)" and n: "new_addr w2 = (Inr meta, w3)"
    and nz: "Meta_root (write_bytes (w_mem w3) meta (read_bytes (w_mem w3) src Meta_sizeof)) meta \<noteq> 0"
    by (auto simp: Tx_new_def Tx_init_def bindA_Inr_iff upd_mem_def new_addr_Inr set_bucket_def split: if_splits)
  from i obtain m where "w_mem w2 = write_bytes m src (replicate Meta_sizeof 0)"
    by (auto simp: DB_meta_def bindA_Inr_iff upd_mem_def)
  then have "read_bytes (w_mem w3) src Meta_sizeof = replicate Meta_sizeof 0"
    using n by (simp add: new_addr_Inr Meta_sizeof_def read_write_same)
  then show False using nz load_zeros [of 16 Meta_sizeof] by (simp add: Meta_root_def Meta_sizeof_def)
qed

text \<open>
  C32. With the program's own \<^verbatim>\<open>DB::meta\<close>, which returns a new record of zeros, no transaction can be
  started: the constructor dereferences the record's null root pointer, so \<^verbatim>\<open>begin\<close> never returns
  a transaction, in either mode.
\<close>

theorem DB_begin_never_returns:
  "DB_begin DB_meta raw rawb p writable w \<noteq> (Inr t, w')"
proof
  assume b: "DB_begin DB_meta raw rawb p writable w = (Inr t, w')"
  have "\<exists>v v'. Tx_new DB_meta raw rawb p writable v = (Inr t, v')"
  proof (cases writable)
    case True
    with b show ?thesis unfolding DB_begin_def by (auto elim!: own_meta.begin_rwtx_Inr)
  next
    case False
    with b show ?thesis unfolding DB_begin_def by (auto elim!: own_meta.begin_tx_Inr)
  qed
  then show False using Tx_new_own_meta by blast
qed

section \<open>Ended and unended transactions\<close>

text \<open>
  \<^verbatim>\<open>commit\<close>: a managed transaction fails the assertion, a closed one and a read-only one throw their
  exceptions, and on an open writable one it returns and changes nothing at all. So it does not
  close the transaction, and a second \<^verbatim>\<open>commit\<close> returns as well instead of throwing
  \<^verbatim>\<open>TxClosedException\<close>.
\<close>

theorem Tx_commit_outcomes:
  assumes "get_tx w a = Inr t"
  shows "Tx_commit a w =
      (if tx_managed t then Inl AssertFail
       else if tx_db t = 0 then Inl (Throw TxClosedException)
       else if \<not> tx_writable t then Inl (Throw TxNotWritableException)
       else Inr (), w) \<and>
    bindA (Tx_commit a) (\<lambda>_. Tx_commit a) w = Tx_commit a w"
proof -
  have c: "Tx_commit a w =
      (if tx_managed t then Inl AssertFail
       else if tx_db t = 0 then Inl (Throw TxClosedException)
       else if \<not> tx_writable t then Inl (Throw TxNotWritableException)
       else Inr (), w)"
    using assms by (simp add: Tx_commit_def)
  then show ?thesis by (auto simp: bindA_def)
qed

text \<open>
  C23. A transaction ends once: after a \<^verbatim>\<open>rollback\<close> that returned, \<^verbatim>\<open>rollback\<close> and \<^verbatim>\<open>commit\<close> throw
  \<^verbatim>\<open>TxClosedException\<close> and \<^verbatim>\<open>close\<close> does nothing, all without changing the state; the transaction
  has no database and no dirty pages any more.
\<close>

theorem Tx_rollback_once:
  assumes "meta_source metaf" and "Tx_rollback metaf a w = (Inr (), w')"
  shows "Tx_rollback metaf a w' = (Inl (Throw TxClosedException), w') \<and>
    Tx_commit a w' = (Inl (Throw TxClosedException), w') \<and> Tx_close a w' = (Inr (), w') \<and>
    (\<exists>t. get_tx w' a = Inr t \<and> tx_db t = 0 \<and> tx_pages t = Map.empty)"
proof -
  from assms obtain t w1 where t: "get_tx w a = Inr t" "tx_db t \<noteq> 0" "\<not> tx_managed t" "w_txs w1 = w_txs w"
    and c: "Tx_close a w1 = (Inr (), w')" by (elim meta_source.Tx_rollback_Inr [OF assms(1)]) blast
  have t1: "get_tx w1 a = Inr t" using t(1,4) by (simp add: get_defs)
  have "get_tx w' a = Inr (t\<lparr>tx_db := 0, tx_pages := Map.empty\<rparr>)"
    using Tx_close_open [OF t1 t(2) c] by (simp add: get_defs)
  then show ?thesis using t(3) by (simp add: Tx_rollback_def Tx_commit_def Tx_close_def)
qed

text \<open>
  What the function handed to \<^verbatim>\<open>update\<close> may do: calls of the public interface, and work that touches
  neither the databases nor the transactions.
\<close>

inductive callback_step :: "addr act \<Rightarrow> addr \<Rightarrow> world \<Rightarrow> world \<Rightarrow> bool" for metaf p where
  call: "db_step metaf p threw u v \<Longrightarrow> callback_step metaf p u v"
| work: "w_dbs v = w_dbs u \<Longrightarrow> w_txs v = w_txs u \<Longrightarrow> w_fresh v = drop k (w_fresh u) \<Longrightarrow> callback_step metaf p u v"

context meta_source
begin

lemma callback_keeps:
  assumes "(callback_step metaf p)\<^sup>*\<^sup>* w w'" and "writer_inv p w" and "get_tx w t = Inr x" and "get_db w p = Inr d"
  shows "writer_inv p w' \<and> (\<exists>y. get_tx w' t = Inr y \<and> tx_writable y = tx_writable x \<and> (tx_db y = tx_db x \<or> tx_db y = 0)) \<and>
    (\<exists>d'. get_db w' p = Inr d' \<and> db_read_only d' = db_read_only d)"
  using assms(1)
proof (induction rule: rtranclp_induct)
  case base
  then show ?case using assms(2-4) by simp
next
  case (step u v)
  then obtain y d' where u: "writer_inv p u" and y: "get_tx u t = Inr y" "tx_writable y = tx_writable x" "tx_db y = tx_db x \<or> tx_db y = 0"
    and d': "get_db u p = Inr d'" "db_read_only d' = db_read_only d" by blast
  from step(2) show ?case
  proof cases
    case (call threw)
    have "writer_inv p v" using step_inv [OF call u] by blast
    moreover obtain z where "get_tx v t = Inr z" "tx_writable z = tx_writable y" "tx_db z = tx_db y \<or> tx_db z = 0"
      using step_keeps(1) [OF call u y(1)] by blast
    moreover obtain e where "get_db v p = Inr e" "db_read_only e = db_read_only d'"
      using step_keeps(2) [OF call u d'(1)] by blast
    ultimately show ?thesis using y d' by auto
  next
    case (work k)
    have "get_tx v t = Inr y" "get_db v p = Inr d'" using work y d' by (simp_all add: get_defs)
    moreover have "writer_inv p v" using work d'(1) calculation(2) by (intro writer_inv_same [OF u, of v d' d']) auto
    ultimately show ?thesis using y d' by auto
  qed
qed

end

text \<open>
  C35. \<^verbatim>\<open>update\<close> neither commits nor rolls back. Let the function it runs do any calls of the public
  interface and any work beside them, and return or throw: if it has not ended the transaction itself
  by \<^verbatim>\<open>rollback\<close> (a \<^verbatim>\<open>commit\<close> does not end it), then after \<^verbatim>\<open>update\<close>, which ends as the function
  does, the transaction is still open and writable, it is still the database's writer, the writer
  lock is still held, and the next \<^verbatim>\<open>update\<close> blocks whatever its function is.
\<close>

theorem DB_update_leaves_writer:
  assumes "meta_source metaf" and "writer_inv p w" and "DB_begin metaf raw rawb p True w = (Inr t, w1)"
    and "fn t w1 = (r, w2)" and "(callback_step metaf p)\<^sup>*\<^sup>* w1 w2" and "get_tx w2 t = Inr x" and "tx_db x \<noteq> 0"
  shows "DB_update metaf raw rawb p fn w = (r, w2) \<and> tx_db x = p \<and> tx_writable x \<and>
    (\<exists>d. get_db w2 p = Inr d \<and> db_rwtx d = t \<and> db_rwlock d) \<and>
    DB_update metaf raw' rawb' p fn' w2 = (Inl Block, w2)"
proof -
  have b: "DB_begin_rwtx metaf raw rawb p w = (Inr t, w1)" using assms(3) by (simp add: DB_begin_def)
  obtain d0 v y where ro: "\<not> db_read_only d0" and d1: "get_db w1 p = Inr (d0\<lparr>db_rwlock := True, db_rwtx := t\<rparr>)"
    and n: "Tx_new metaf raw rawb p True (set_db w p (d0\<lparr>db_rwlock := True, db_metalock := True\<rparr>)) = (Inr t, v)"
    and w1: "w_txs w1 = w_txs v" by (rule meta_source.begin_rwtx_Inr [OF assms(1) b]) blast
  obtain y where y: "get_tx w1 t = Inr y" "tx_db y = p" "tx_writable y"
    using meta_source.Tx_new_Inr(6) [OF assms(1) n] w1 by (auto simp: get_defs)
  have inv1: "writer_inv p w1" using meta_source.begin_inv [OF assms(1,2,3)] by blast
  note k = meta_source.callback_keeps [OF assms(1,5) inv1 y(1) d1]
  then have x: "tx_writable x" "tx_db x = p" using assms(6,7) y by auto
  obtain d where d: "get_db w2 p = Inr d" "\<not> db_read_only d" using k ro by auto
  have "w_txs w2 t = Some x" using assms(6) by (simp add: get_defs deref_Inr_iff)
  then have "db_rwtx d = t" "db_rwlock d" using k d x by (auto simp: writer_inv_def)
  then show ?thesis
    using x d assms(3,4) by (simp add: DB_update_def DB_begin_def DB_begin_rwtx_def lock_defs bindA_def)
qed

text \<open>
  A reader's traces stay: after a read transaction has been started and rolled back, the database
  still counts its shared hold on the mmap lock and still lists it among the open transactions,
  since \<^verbatim>\<open>remove_tx\<close> does nothing.
\<close>

theorem reader_not_removed:
  assumes "meta_source metaf" and "DB_begin metaf raw rawb p False w = (Inr t, w1)"
    and "Tx_rollback metaf t w1 = (Inr (), w2)" and "get_db w p = Inr d"
  shows "\<exists>d2 x. get_db w2 p = Inr d2 \<and> sm_readers (db_mmaplock d2) = sm_readers (db_mmaplock d) + 1 \<and>
    t \<in> set (db_txs d2) \<and> get_tx w2 t = Inr x \<and> tx_db x = 0"
proof -
  have b: "DB_begin_tx metaf raw rawb p w = (Inr t, w1)" using assms(2) by (simp add: DB_begin_def)
  obtain wn dl where n: "Tx_new metaf raw rawb p False (set_db w p dl) = (Inr t, wn)" and tx: "w_txs w1 = w_txs wn"
    and d1: "\<exists>d1. get_db w1 p = Inr d1 \<and> sm_readers (db_mmaplock d1) = sm_readers (db_mmaplock d) + 1 \<and> t \<in> set (db_txs d1)"
  proof (rule meta_source.begin_tx_Inr [OF assms(1) b])
    fix e :: DB and wn :: world and dl :: DB
    let ?e = "e\<lparr>db_txs := db_txs e @ [t],
        db_mmaplock := (db_mmaplock e)\<lparr>sm_readers := sm_readers (db_mmaplock e) + 1\<rparr>,
        db_stats := (db_stats e)\<lparr>tx_n := tx_n (db_stats e) + 1, open_tx_n := int_of_size (length (db_txs e) + 1)\<rparr>\<rparr>"
    assume "get_db w p = Inr e" "Tx_new metaf raw rawb p False (set_db w p dl) = (Inr t, wn)"
      "get_db w1 p = Inr ?e" "w_txs w1 = w_txs wn"
    then show thesis using assms(4) by (intro that [of dl wn]) simp_all
  qed
  from assms(3) obtain x wr where x: "get_tx w1 t = Inr x" "tx_db x \<noteq> 0" and wr: "w_txs wr = w_txs w1" "w_dbs wr = w_dbs w1"
    and c: "Tx_close t wr = (Inr (), w2)" by (elim meta_source.Tx_rollback_Inr [OF assms(1)]) blast
  have xr: "get_tx wr t = Inr x" using x(1) wr by (simp add: get_defs)
  from meta_source.Tx_new_Inr(6) [OF assms(1) n] tx x(1) have "\<not> tx_writable x"
    by (auto simp: get_defs deref_Inr_iff)
  with Tx_close_open [OF xr x(2) c] have "w_dbs w2 = w_dbs w1" "get_tx w2 t = Inr (x\<lparr>tx_db := 0, tx_pages := Map.empty\<rparr>)"
    using wr by (simp_all add: get_defs)
  then show ?thesis using d1 by (auto simp: get_defs)
qed

section \<open>A concrete database\<close>

text \<open>
  A database at 64 with its free list at 80 and a meta record at 512, whose root pointer is 600 and
  whose transaction id is 5; page 7 is pending for transaction 3, page 8 for transaction 6.
\<close>

definition life_stats :: TxStats where
  "life_stats = \<lparr>page_count = 0, page_alloc = 0, cursor_count = 0, node_count = 0, node_deref = 0,
     ts_rebalance = 0, rebalance_time = 0, ts_split = 0, ts_spill = 0, spill_time = 0,
     ts_write = 0, write_time = 0\<rparr>"

definition life_db :: DB where
  "life_db = \<lparr>db_pageSize = 4096, db_opened = False, db_strict_mode = False, db_no_sync = False,
     db_no_grow_sync = False, db_mmap_flags = 0, db_max_batch_size = 1000, db_max_batch_delay = 10,
     db_alloc_size = 16777216, db_path = ''db'', db_file = 0, db_lock_file = 0, db_dataref = 0,
     db_data = 65536, db_data_sz = 0, db_file_sz = 0, db_meta0 = 0, db_meta1 = 0, db_page_size = 4096,
     db_rwtx = 0, db_txs = [], db_freelist = 80,
     db_stats = \<lparr>free_page_n = 0, pending_page_n = 0, free_alloc = 0, freelist_inuse = 0, tx_n = 0,
       open_tx_n = 0, st_tx_stats = life_stats\<rparr>,
     db_page_pool = 0, db_rwlock = False, db_metalock = False,
     db_mmaplock = \<lparr>sm_readers = 0, sm_writer = False\<rparr>, db_statlock = \<lparr>sm_readers = 0, sm_writer = False\<rparr>,
     db_read_only = False\<rparr>"

definition life_freelist :: FreeList where
  "life_freelist = \<lparr>fl_ids = [4], fl_pending = [(3, [7]), (6, [8])], fl_cache = {4, 7, 8}\<rparr>"

definition life_mem :: mem where
  "life_mem = store_u64 (store_u64 (\<lambda>_. 0) 528 600) 552 5"

definition life_world :: world where
  "life_world = \<lparr>w_mem = life_mem, w_nodes = Map.empty, w_buckets = Map.empty, w_txs = Map.empty,
     w_dbs = [64 \<mapsto> life_db], w_freelists = [80 \<mapsto> life_freelist],
     w_files = Map.empty, w_pools = Map.empty, w_fresh = [1000, 1100, 1200, 1300, 1400, 1500, 1600, 1700]\<rparr>"

definition life_tx :: Tx where
  "life_tx = \<lparr>tx_writeFlag = 0, tx_writable = False, tx_managed = False, tx_db = 0, tx_meta = 0, tx_root = 0,
     tx_pages = Map.empty, tx_stats = life_stats, tx_commit_handlers = []\<rparr>"

definition life_bucket :: Bucket where
  "life_bucket = \<lparr>b_bucket = \<lparr>bk_root = 0, bk_sequence = 0\<rparr>, b_tx = 0, b_buckets = Map.empty,
     b_page = 0, b_rootNode = 0, b_nodes = Map.empty, b_fillPercent = DefaultFillPercent\<rparr>"

lemma life_meta:
  "Meta_root life_mem 512 = 600" "Meta_txid life_mem 512 = 5"
  by (simp_all add: life_mem_def Meta_root_def Meta_txid_def load_store_same load_store_other region_disjointI)

text \<open>A transaction constructed from the stored record has a copy of it.\<close>

lemma copied_root: "Meta_root (write_bytes m b (read_bytes m a Meta_sizeof)) b = Meta_root m a"
  using copied_u64 [of 16 Meta_sizeof m b a] by (simp add: Meta_root_def Meta_sizeof_def)

lemma copied_txid: "Meta_txid (write_bytes m b (read_bytes m a Meta_sizeof)) b = Meta_txid m a"
  using copied_u64 [of 40 Meta_sizeof m b a] by (simp add: Meta_txid_def Meta_sizeof_def)

lemma life_new_at:
  assumes "Meta_root (w_mem w) 512 \<noteq> 0" and "w_fresh w = t # a # b # fs"
  shows "\<exists>w'. Tx_new (retA 512) life_tx life_bucket 64 wr w = (Inr t, w') \<and> w_dbs w' = w_dbs w \<and>
    w_freelists w' = w_freelists w \<and> w_fresh w' = fs \<and>
    (\<exists>x. w_txs w' t = Some x \<and> tx_db x = 64 \<and> tx_writable x = wr \<and> \<not> tx_managed x) \<and>
    (\<forall>r. r \<noteq> t \<longrightarrow> w_txs w' r = w_txs w r) \<and> (\<forall>x. x \<notin> region a 56 \<longrightarrow> w_mem w' x = w_mem w x)"
proof -
  have fr: "write_bytes m a (read_bytes m 512 Meta_sizeof) x = m x"
    "Meta_incrementTxID (write_bytes m a (read_bytes m 512 Meta_sizeof)) a x = m x" if "x \<notin> region a 56" for m x
  proof -
    have "x \<notin> region (a + 40) 8" using that region_sub_field [of 40 8 56 a] by auto
    with that show "write_bytes m a (read_bytes m 512 Meta_sizeof) x = m x"
      "Meta_incrementTxID (write_bytes m a (read_bytes m 512 Meta_sizeof)) a x = m x"
      by (simp_all add: Meta_incrementTxID_def Meta_sizeof_def store_frames write_bytes_outside)
  qed
  have "new_addr (w\<lparr>w_fresh := x # xs\<rparr>) = (Inr x, w\<lparr>w_fresh := xs\<rparr>)" for w :: world and x xs
    by (simp add: new_addr_def)
  then show ?thesis
    using assms
    by (simp add: Tx_new_def Tx_init_def new_addr_def bindA_def upd_mem_def set_bucket_def set_tx_def copied_root
        life_tx_def fr)
qed

lemma life_new:
  assumes "w_mem w = life_mem" and "w_fresh w = t # a # b # fs"
  shows "\<exists>w'. Tx_new (retA 512) life_tx life_bucket 64 wr w = (Inr t, w') \<and> w_dbs w' = w_dbs w \<and>
    w_freelists w' = w_freelists w \<and> w_fresh w' = fs \<and>
    (\<exists>x. w_txs w' t = Some x \<and> tx_db x = 64 \<and> tx_writable x = wr \<and> \<not> tx_managed x) \<and>
    (\<forall>r. r \<noteq> t \<longrightarrow> w_txs w' r = w_txs w r) \<and> (\<forall>x. x \<notin> region a 56 \<longrightarrow> w_mem w' x = w_mem w x)"
  using assms life_meta(1) by (intro life_new_at) simp_all

lemma life_release: "FreeList_release life_freelist u = Inr (released life_freelist u)"
  by (simp add: FreeList_release_eq released_pages_def life_freelist_def)

lemma life_begin_rw:
  "\<exists>w' x. DB_begin (retA 512) life_tx life_bucket 64 True life_world = (Inr 1000, w') \<and>
     get_tx w' 1000 = Inr x \<and> tx_db x = 64 \<and> tx_writable x \<and> \<not> tx_managed x"
proof -
  let ?w = "set_db life_world 64 (life_db\<lparr>db_rwlock := True, db_metalock := True\<rparr>)"
  obtain w1 x where n: "Tx_new (retA 512) life_tx life_bucket 64 True ?w = (Inr 1000, w1)"
    and w1: "w_dbs w1 = w_dbs ?w" "w_freelists w1 = w_freelists ?w"
    and x: "w_txs w1 1000 = Some x" "tx_db x = 64" "tx_writable x" "\<not> tx_managed x"
    using life_new [of ?w 1000 1100 1200 "[1300, 1400, 1500, 1600, 1700]" True]
    by (auto simp: life_world_def set_db_def)
  have d: "get_db life_world 64 = Inr life_db" by (simp add: life_world_def get_defs)
  have "get_db w1 64 = Inr (life_db\<lparr>db_rwlock := True, db_metalock := True\<rparr>)"
    "get_freelist w1 80 = Inr life_freelist" "get_tx w1 1000 = Inr x"
    using w1 x(1) by (simp_all add: get_defs set_db_def life_world_def)
  then show ?thesis
    using n d x by (simp add: DB_begin_def DB_begin_rwtx_def lock_defs with_guard_def begin_rwtx_locked_def life_db_def
        bindA_def life_release)
qed

lemma life_inv: "writer_inv 64 life_world" "no_lock_lost 64 life_world"
  by (simp_all add: writer_inv_def no_lock_lost_def life_world_def life_db_def get_defs)

text \<open>
  From the concrete database a writer starts; when the allocator has no memory left for the
  transaction, the call throws and leaves the lock held with no writer.
\<close>

theorem single_writer_witness:
  "(\<exists>w' d. (db_step (retA 512) 64 False)\<^sup>*\<^sup>* life_world w' \<and> get_db w' 64 = Inr d \<and> db_rwlock d \<and>
     {a. \<exists>t. get_tx w' a = Inr t \<and> tx_db t = 64 \<and> tx_writable t} = {1000}) \<and>
   (let v = life_world\<lparr>w_fresh := []\<rparr>; v' = set_db v 64 (life_db\<lparr>db_rwlock := True\<rparr>) in
     db_step (retA 512) 64 True v v' \<and> {a. \<exists>t. get_tx v' a = Inr t \<and> tx_db t = 64 \<and> tx_writable t} = {})"
proof -
  let ?some = "\<lambda>u v. \<exists>threw. db_step (retA 512) 64 threw u v"
  obtain w' where b: "DB_begin (retA 512) life_tx life_bucket 64 True life_world = (Inr 1000, w')"
    using life_begin_rw by blast
  then have "DB_begin_rwtx (retA 512) life_tx life_bucket 64 life_world = (Inr 1000, w')" by (simp add: DB_begin_def)
  then obtain d where d: "get_db w' 64 = Inr d" "db_rwlock d" "db_rwtx d = 1000"
    by (elim stored_meta.begin_rwtx_Inr) auto
  have st: "db_step (retA 512) 64 False life_world w'" using b by (intro db_step.start) (auto simp: call_ends_def)
  then have "?some\<^sup>*\<^sup>* life_world w'" by blast
  then have open1: "{a. \<exists>t. get_tx w' a = Inr t \<and> tx_db t = 64 \<and> tx_writable t} = {1000}"
    using single_writer [OF stored_meta.meta_source_axioms life_inv, of 512 w'] d by auto
  let ?v = "life_world\<lparr>w_fresh := []\<rparr>"
  let ?v' = "set_db ?v 64 (life_db\<lparr>db_rwlock := True\<rparr>)"
  have inv: "writer_inv 64 ?v" "no_lock_lost 64 ?v"
    by (simp_all add: writer_inv_def no_lock_lost_def life_world_def life_db_def get_defs)
  have "get_db ?v 64 = Inr life_db" by (simp add: life_world_def get_defs)
  then have "DB_begin (retA 512) life_tx life_bucket 64 True ?v = (Inl (Throw BadAlloc), ?v')"
    by (simp add: DB_begin_def DB_begin_rwtx_def lock_defs with_guard_def begin_rwtx_locked_def life_db_def
        Tx_new_def new_addr_def bindA_def)
  then have t: "db_step (retA 512) 64 True ?v ?v'" by (intro db_step.start) (auto simp: call_ends_def)
  then have "?some\<^sup>*\<^sup>* ?v ?v'" by blast
  then have "{a. \<exists>t. get_tx ?v' a = Inr t \<and> tx_db t = 64 \<and> tx_writable t} = {}"
    using single_writer [OF stored_meta.meta_source_axioms inv, of 512 ?v'] by (auto simp: life_db_def)
  then show ?thesis using st d open1 t by (auto simp: Let_def)
qed

theorem Tx_commit_outcomes_witness:
  "let w = life_world\<lparr>w_txs := [48 \<mapsto> life_tx]\<rparr> in Tx_commit 48 w = (Inl (Throw TxClosedException), w)"
  using Tx_commit_outcomes [of "life_world\<lparr>w_txs := [48 \<mapsto> life_tx]\<rparr>" 48 life_tx]
  by (simp add: get_defs life_tx_def)

text \<open>A function that registers a handler and commits.\<close>

theorem DB_update_leaves_writer_witness:
  "let fn = (\<lambda>t. bindA (Tx_on_commit t 7) (\<lambda>_. Tx_commit t)) in
   \<exists>w'. DB_update (retA 512) life_tx life_bucket 64 fn life_world = (Inr (), w') \<and>
    DB_update (retA 512) life_tx life_bucket 64 fn w' = (Inl Block, w')"
proof -
  let ?fn = "\<lambda>t. bindA (Tx_on_commit t 7) (\<lambda>_. Tx_commit t)"
  obtain w1 x where b: "DB_begin (retA 512) life_tx life_bucket 64 True life_world = (Inr 1000, w1)"
    and x: "get_tx w1 1000 = Inr x" "tx_db x = 64" "tx_writable x" "\<not> tx_managed x"
    using life_begin_rw by blast
  let ?x = "x\<lparr>tx_commit_handlers := tx_commit_handlers x @ [7]\<rparr>"
  let ?w2 = "set_tx w1 1000 ?x"
  have o: "Tx_on_commit 1000 7 w1 = (Inr (), ?w2)" using x(1) by (simp add: Tx_on_commit_def)
  have x2: "get_tx ?w2 1000 = Inr ?x" by simp
  have c: "Tx_commit 1000 ?w2 = (Inr (), ?w2)" using x x2 by (simp add: Tx_commit_def)
  have f: "?fn 1000 w1 = (Inr (), ?w2)" using o c by (simp add: bindA_def)
  have "callback_step (retA 512) 64 w1 ?w2"
    by (rule callback_step.call, rule db_step.on_commit [OF o, of False]) (simp add: call_ends_def)
  then have st: "(callback_step (retA 512) 64)\<^sup>*\<^sup>* w1 ?w2" by blast
  show ?thesis
    using DB_update_leaves_writer [where fn = ?fn and fn' = ?fn and raw' = life_tx and rawb' = life_bucket,
        OF stored_meta.meta_source_axioms life_inv(1) b f st x2] x(2)
    by (auto simp: Let_def)
qed

text \<open>The read transaction at 48 of the concrete database, and its end.\<close>

definition life_reader :: world where
  "life_reader = life_world\<lparr>w_txs := [48 \<mapsto> life_tx\<lparr>tx_db := 64\<rparr>]\<rparr>"

lemma life_rollback: "\<exists>w'. Tx_rollback (retA 512) 48 life_reader = (Inr (), w')"
  by (simp add: Tx_rollback_def Tx_rollback_inner_def Tx_close_def DB_remove_tx_def life_reader_def life_tx_def
      life_world_def get_defs upd_tx_def bindA_def)

theorem Tx_rollback_once_witness:
  "\<exists>w'. Tx_rollback (retA 512) 48 life_reader = (Inr (), w') \<and>
    Tx_rollback (retA 512) 48 w' = (Inl (Throw TxClosedException), w')"
  using life_rollback Tx_rollback_once [OF stored_meta.meta_source_axioms, of 512 48 life_reader] by blast

lemma rollback_reader:
  assumes "get_tx w a = Inr t" and "tx_db t \<noteq> 0" and "\<not> tx_writable t" and "\<not> tx_managed t"
  shows "\<exists>w'. Tx_rollback metaf a w = (Inr (), w')"
proof -
  have "get_tx (w\<lparr>w_buckets := bs\<rparr>) a = Inr t" for bs using assms(1) by (simp add: get_defs)
  then show ?thesis
    using assms by (simp add: Tx_rollback_def Tx_rollback_inner_def Tx_close_def DB_remove_tx_def)
qed

lemma life_begin_ro:
  "\<exists>w1 x. DB_begin (retA 512) life_tx life_bucket 64 False life_world = (Inr 1000, w1) \<and>
    get_tx w1 1000 = Inr x \<and> tx_db x = 64 \<and> \<not> tx_writable x \<and> \<not> tx_managed x"
proof -
  let ?d = "life_db\<lparr>db_metalock := True, db_mmaplock := (db_mmaplock life_db)\<lparr>sm_readers := 1\<rparr>\<rparr>"
  let ?w = "set_db life_world 64 ?d"
  obtain w1 x where n: "Tx_new (retA 512) life_tx life_bucket 64 False ?w = (Inr 1000, w1)"
    and w1: "w_dbs w1 = w_dbs ?w" and x: "w_txs w1 1000 = Some x" "tx_db x = 64" "\<not> tx_writable x" "\<not> tx_managed x"
    using life_new [of ?w 1000 1100 1200 "[1300, 1400, 1500, 1600, 1700]" False]
    by (auto simp: life_world_def set_db_def)
  have d: "get_db life_world 64 = Inr life_db" by (simp add: life_world_def get_defs)
  have d1: "get_db w1 64 = Inr ?d" using w1 by (simp add: get_defs set_db_def)
  have t1: "get_tx w1 1000 = Inr x" using x(1) by (simp add: get_defs)
  have "DB_begin (retA 512) life_tx life_bucket 64 False life_world
     = (Inr 1000, set_db w1 64 (?d\<lparr>db_txs := [1000], db_metalock := False,
         db_stats := (db_stats ?d)\<lparr>tx_n := 1, open_tx_n := int_of_size 1\<rparr>\<rparr>))"
    using n d d1 by (simp add: DB_begin_def DB_begin_tx_def lock_defs bindA_def life_db_def)
  then show ?thesis using t1 x by simp
qed

theorem reader_not_removed_witness:
  "\<exists>w1 w2 d2. DB_begin (retA 512) life_tx life_bucket 64 False life_world = (Inr 1000, w1) \<and>
    Tx_rollback (retA 512) 1000 w1 = (Inr (), w2) \<and> get_db w2 64 = Inr d2 \<and>
    sm_readers (db_mmaplock d2) = 1 \<and> 1000 \<in> set (db_txs d2)"
proof -
  obtain w1 x where b: "DB_begin (retA 512) life_tx life_bucket 64 False life_world = (Inr 1000, w1)"
    and x: "get_tx w1 1000 = Inr x" "tx_db x = 64" "\<not> tx_writable x" "\<not> tx_managed x"
    using life_begin_ro by blast
  obtain w2 where r: "Tx_rollback (retA 512) 1000 w1 = (Inr (), w2)"
    using rollback_reader [of w1 1000 x "retA 512"] x by auto
  have "get_db life_world 64 = Inr life_db" by (simp add: life_world_def get_defs)
  from reader_not_removed [OF stored_meta.meta_source_axioms b r this] b r show ?thesis
    by (auto simp: life_db_def)
qed

end
