(* ===== verification/Opening.thy ===== *)
theory Opening
  imports DB_Open Lifecycle
begin

text \<open>
  Properties of opening a database: waiting for the file lock, the constructor's outcomes, why
  \<^verbatim>\<open>init\<close> cannot set up a new file, and the flag \<^verbatim>\<open>opened_\<close>, which nothing sets.
\<close>

unbundle bit_operations_syntax

section \<open>Waiting for the file lock\<close>

text \<open>The rounds in which \<^verbatim>\<open>flock\<close> ends.\<close>

definition flock_stops :: "OS \<Rightarrow> int res \<Rightarrow> int \<Rightarrow> int \<Rightarrow> nat \<Rightarrow> bool" where
  "flock_stops os fd flag timeout i \<longleftrightarrow>
     timeout > 0 \<and> os_elapsed os i > timeout \<or>
     (case fd of Inl _ \<Rightarrow> True
      | Inr f \<Rightarrow> fst (os_flock os i f flag) \<noteq> 0 \<and> snd (os_flock os i f flag) = EWOULDBLOCK)"

lemma flock_loop_round:
  "flock_stops os fd flag timeout i \<Longrightarrow>
     \<exists>e. flock_loop os fd flag timeout i = Some (Inl e) \<and> (fd = Inl e \<or> (\<exists>x. e = Throw x))"
  "\<not> flock_stops os fd flag timeout i \<Longrightarrow> flock_loop os fd flag timeout i = flock_loop os fd flag timeout (Suc i)"
  by (subst flock_loop.simps; auto simp: flock_stops_def split: sum.splits)+

lemma flock_loop_Some:
  assumes "flock_loop os fd flag timeout i = Some r"
  shows "(\<exists>e. r = Inl e \<and> (fd = Inl e \<or> (\<exists>x. e = Throw x))) \<and> (\<exists>j \<ge> i. flock_stops os fd flag timeout j)"
proof (rule flock_loop.raw_induct [OF _ assms])
  fix fl and os :: OS and fd :: "int res" and flag timeout :: int and i :: nat and r :: "unit res"
  assume IH: "\<And>os fd flag timeout i r. fl os fd flag timeout i = Some r \<Longrightarrow>
      (\<exists>e. r = Inl e \<and> (fd = Inl e \<or> (\<exists>x. e = Throw x))) \<and> (\<exists>j \<ge> i. flock_stops os fd flag timeout j)"
    and r: "(if timeout > 0 \<and> os_elapsed os i > timeout then Some (Inl (Throw (RuntimeError ''flock timeout'')))
      else case fd of
        Inl e \<Rightarrow> Some (Inl e)
      | Inr f \<Rightarrow>
          if fst (os_flock os i f flag) \<noteq> 0 \<and> snd (os_flock os i f flag) = EWOULDBLOCK
          then Some (Inl (Throw (RuntimeError (''fail to flock:'' @ os_strerror os EWOULDBLOCK))))
          else fl os fd flag timeout (Suc i)) = Some r"
  show "(\<exists>e. r = Inl e \<and> (fd = Inl e \<or> (\<exists>x. e = Throw x))) \<and> (\<exists>j \<ge> i. flock_stops os fd flag timeout j)"
  proof (cases "flock_stops os fd flag timeout i")
    case True
    then show ?thesis using r by (auto simp: flock_stops_def split: if_splits sum.splits)
  next
    case False
    then have "fl os fd flag timeout (Suc i) = Some r"
      using r by (auto simp: flock_stops_def split: if_splits sum.splits)
    from IH [OF this] show ?thesis using Suc_leD by blast
  qed
qed

lemma flock_loop_ends:
  assumes "flock_stops os fd flag timeout j" and "i \<le> j"
  shows "flock_loop os fd flag timeout i \<noteq> None"
  using assms
proof (induction "j - i" arbitrary: i)
  case 0
  then show ?case using flock_loop_round(1) [of os fd flag timeout i] by auto
next
  case (Suc k)
  then show ?case
    using flock_loop_round [of os fd flag timeout i]
    by (cases "flock_stops os fd flag timeout i") auto
qed

lemma flock_loop_None: "flock_loop os fd flag timeout 0 = None \<longleftrightarrow> (\<forall>i. \<not> flock_stops os fd flag timeout i)"
  using flock_loop_Some flock_loop_ends by (metis not_None_eq zero_le)

lemma DB_flock_granted: "DB_flock os this timeout w \<noteq> Some (Inr ())"
  unfolding DB_flock_def using flock_loop_Some by blast

text \<open>
  \<^verbatim>\<open>flock\<close> has no way to return: whatever the clock and the system calls do, it fails in the first
  round in which the timeout has passed or the lock would block (or the file is gone), and loops
  forever when there is no such round; when every attempt obtains the lock and no timeout is set,
  that is always.
\<close>

lemma DB_flock_never_returns:
  "DB_flock os this timeout w \<noteq> Some (Inr ()) \<and>
   (DB_flock os this timeout w = None \<longleftrightarrow>
      (\<forall>i. \<not> flock_stops os (DB_fd w this) (lock_flag w this) timeout i)) \<and>
   (DB_flock (os\<lparr>os_flock := \<lambda>_ _ _. (0, e)\<rparr>) this 0 w = None \<longleftrightarrow> (\<exists>fd. DB_fd w this = Inr fd))"
proof -
  have "(\<exists>fd. DB_fd w this = Inr fd) \<longleftrightarrow> (\<forall>i. \<not> flock_stops (os\<lparr>os_flock := \<lambda>_ _ _. (0, e)\<rparr>) (DB_fd w this) l 0 i)" for l
    by (cases "DB_fd w this") (auto simp: flock_stops_def)
  then show ?thesis
    using DB_flock_granted unfolding DB_flock_def flock_loop_None by blast
qed

section \<open>The constructor\<close>

text \<open>With a handler that throws again, only the block itself returns.\<close>

lemma catch_rethrow_Inr: "catch_rethrow body handler w = (Inr v, w') \<Longrightarrow> body w = (Inr v, w')"
  by (auto simp: catch_rethrow_def bindA_def failA_def split: prod.splits sum.splits fault.splits)

text \<open>On a database that is not marked open, \<^verbatim>\<open>close\<close> does nothing.\<close>

lemma DB_close_unopened: "get_db w this = Inr d \<Longrightarrow> \<not> db_opened d \<Longrightarrow> DB_close os this w = (Inr (), w)"
  by (simp add: DB_close_def)

lemma DB_prepare_members [simp]:
  "\<not> db_opened (DB_prepare raw path opt)" "db_path (DB_prepare raw path opt) = path"
  "db_txs (DB_prepare raw path opt) = []" "db_page_size (DB_prepare raw path opt) = db_page_size raw"
  "db_pageSize (DB_prepare raw path opt) = db_pageSize raw"
  "db_read_only (DB_prepare raw path opt) \<longleftrightarrow> o_ReadOnly opt \<or> db_read_only raw"
  by (simp_all add: DB_prepare_def Let_def)

text \<open>The world once the file is open.\<close>

definition opened_world :: "DB \<Rightarrow> addr \<Rightarrow> string \<Rightarrow> Option \<Rightarrow> addr \<Rightarrow> File \<Rightarrow> addr list \<Rightarrow> world \<Rightarrow> world" where
  "opened_world raw this path opt p f fs w =
     set_db (w\<lparr>w_fresh := fs, w_files := (w_files w)(p \<mapsto> f)\<rparr>) this ((DB_prepare raw path opt)\<lparr>db_file := p\<rparr>)"

definition open_flag :: "Option \<Rightarrow> int" where
  "open_flag opt = (if o_ReadOnly opt then O_RDONLY else O_RDWR) OR O_CREAT"

lemma opened_world_access [simp]:
  "get_db (opened_world raw this path opt p f fs w) this = Inr ((DB_prepare raw path opt)\<lparr>db_file := p\<rparr>)"
  "w_files (opened_world raw this path opt p f fs w) = (w_files w)(p \<mapsto> f)"
  "DB_fd (opened_world raw this path opt p f fs w) this = Inr (f_fd f)"
  by (simp_all add: opened_world_def DB_fd_def get_defs set_db_def deref_def)

lemma DB_open_file_Inr:
  assumes "w_fresh w = p # fs" and "os_open os path (open_flag opt) (mode OR S_IRWXU) = Inr f"
  shows "DB_open_file os raw this path mode opt w = (Inr (), opened_world raw this path opt p f fs w)"
  using assms
  by (simp add: DB_open_file_def Let_def catch_rethrow_def bindA_def new_addr_def set_db_def upd_db_def get_defs
      deref_def opened_world_def open_flag_def split: if_splits)

lemma DB_open_file_Throw:
  assumes "w_fresh w = p # fs" and "os_open os path (open_flag opt) (mode OR S_IRWXU) = Inl (Throw e)"
  shows "DB_open_file os raw this path mode opt w =
     (Inl (Throw StdException), set_db (w\<lparr>w_fresh := fs\<rparr>) this (DB_prepare raw path opt))"
proof -
  have "get_db (w\<lparr>w_dbs := (w_dbs w)(this \<mapsto> d), w_fresh := fs\<rparr>) this = Inr d" for d :: DB
    by (simp add: get_defs)
  then show ?thesis using assms
    by (simp add: DB_open_file_def Let_def catch_rethrow_def bindA_def new_addr_def set_db_def
        DB_close_unopened open_flag_def split: if_splits)
qed

text \<open>
  What the constructor needs of the lock: it relies on \<^verbatim>\<open>flock\<close> returning. A lock that is never granted
  keeps it from completing, whatever else the system does.
\<close>

locale ungranted_lock =
  fixes lock :: "addr \<Rightarrow> int \<Rightarrow> world \<Rightarrow> unit res option"
  assumes never_granted: "lock this timeout w \<noteq> Some (Inr ())"
begin

lemma ctor_never_completes: "DB_ctor os hash lock metaf raw this path mode option w \<noteq> Some (Inr (), w')"
proof
  assume "DB_ctor os hash lock metaf raw this path mode option w = Some (Inr (), w')"
  then obtain w1 r where l: "lock this (o_Timeout (DB_option option)) w1 = Some r"
    and r: "bindA (catch_rethrow (\<lambda>w. (r, w)) (DB_close os this))
       (\<lambda>_. DB_load os hash metaf this (DB_option option)) w1 = (Inr (), w')"
    by (auto simp: DB_ctor_def Let_def split: prod.splits sum.splits option.splits)
  then obtain v w2 where "catch_rethrow (\<lambda>w. (r, w)) (DB_close os this) w1 = (Inr v, w2)"
    by (auto simp: bindA_Inr_iff)
  then have "r = Inr ()" using catch_rethrow_Inr by fastforce
  then show False using l never_granted by simp
qed

end

interpretation own_lock: ungranted_lock "DB_flock os" for os
  by unfold_locales (simp add: DB_flock_granted)

text \<open>
  C33. With its own \<^verbatim>\<open>flock\<close> the constructor of \<^verbatim>\<open>DB\<close> never completes. Once the file is open it loops
  forever, or, when \<^verbatim>\<open>flock\<close> throws, it throws a plain \<^verbatim>\<open>std::exception\<close> (the type and the text of the
  error are lost by \<^verbatim>\<open>throw e\<close>) and leaves the file open: \<^verbatim>\<open>close\<close> returns at once because \<^verbatim>\<open>opened_\<close>
  is still false.
\<close>

theorem DB_ctor_never_completes:
  "DB_ctor os hash (DB_flock os) metaf raw this path mode option w \<noteq> Some (Inr (), w') \<and>
   (w_fresh w = p # fs \<longrightarrow> os_open os path (open_flag (DB_option option)) (mode OR S_IRWXU) = Inr f \<longrightarrow>
     (let opt = DB_option option; w1 = opened_world raw this path opt p f fs w in
      DB_ctor os hash (DB_flock os) metaf raw this path mode option w =
        (if \<forall>i. \<not> flock_stops os (Inr (f_fd f)) (lock_flag w1 this) (o_Timeout opt) i then None
         else Some (Inl (Throw StdException), w1)) \<and>
      get_file w1 p = Inr f))"
proof -
  have run: "DB_ctor os hash (DB_flock os) metaf raw this path mode option w =
        (if \<forall>i. \<not> flock_stops os (Inr (f_fd f)) (lock_flag w1 this) (o_Timeout opt) i then None
         else Some (Inl (Throw StdException), w1))"
    if "opt = DB_option option" and w1: "w1 = opened_world raw this path opt p f fs w"
      and op: "DB_open_file os raw this path mode opt w = (Inr (), w1)" for opt w1 p f fs
  proof -
    let ?fl = "DB_flock os this (o_Timeout opt) w1"
    have fl: "?fl = flock_loop os (Inr (f_fd f)) (lock_flag w1 this) (o_Timeout opt) 0"
      by (simp add: DB_flock_def w1)
    have "(catch_rethrow (\<lambda>w. (Inl (Throw e) :: unit res, w)) (DB_close os this)) w1 = (Inl (Throw StdException), w1)" for e
      by (simp add: catch_rethrow_def w1 DB_close_unopened [where d = "(DB_prepare raw path opt)\<lparr>db_file := p\<rparr>"])
    then show ?thesis
      using that(1) op fl flock_loop_None [of os "Inr (f_fd f)" "lock_flag w1 this" "o_Timeout opt"]
        flock_loop_Some [of os "Inr (f_fd f)" "lock_flag w1 this" "o_Timeout opt" 0]
      by (cases ?fl) (auto simp: DB_ctor_def Let_def)
  qed
  show ?thesis
    using own_lock.ctor_never_completes run DB_open_file_Inr by (auto simp: Let_def get_defs)
qed

section \<open>Initialising a new file\<close>

lemma buffer_page_empty: "str_size buf = 0 \<Longrightarrow> get_db w this = Inr d \<Longrightarrow> buffer_page this buf i w = (Inl UB, w)"
  by (simp add: buffer_page_def DB_page_in_buffer_def header_in_def Let_def)

lemma init_buffer_empty:
  "str_size buf = 0 \<Longrightarrow> get_db w this = Inr d \<Longrightarrow> init_buffer os hash this buf w = (Inl UB, w)"
  by (simp add: init_buffer_def init_meta_page_def buffer_page_empty bindA_def)

text \<open>A string of zeros instead: the header of its first page has no pointer to a meta record.\<close>

lemma init_buffer_zeros:
  assumes d: "get_db w this = Inr d" and "32 \<le> str_size buf" and z: "\<forall>x \<in> region (str_data buf) 32. w_mem w x = 0"
  shows "\<exists>w'. init_buffer os hash this buf w = (Inl UB, w')"
proof -
  have "load_u64 (w_mem w) (str_data buf + 24) = load_u64 (\<lambda>_. 0) (str_data buf + 24)"
  proof (rule u64.load_cong)
    fix x assume "x \<in> region (str_data buf + 24) 8"
    then show "w_mem w x = 0" using z region_sub_field [of 24 8 32 "str_data buf"] by auto
  qed
  then have "Page_ptr (w_mem w) (str_data buf) = 0" by (simp add: Page_ptr_def load_zero)
  moreover have "buffer_page this buf 0 w = (Inr (str_data buf), w)"
    using assms(2) d by (simp add: buffer_page_def DB_page_in_buffer_def header_in_def Let_def)
  ultimately show ?thesis
    by (simp add: init_buffer_def init_meta_page_def Page_meta_def upd_mem_def bindA_def)
qed

lemma DB_init_outcome:
  assumes "get_db w this = Inr d"
  shows "DB_init os hash this w =
    (let ps = os_getpagesize os; w0 = set_db w this (d\<lparr>db_page_size := ps\<rparr>) in
     if 2 ^ 31 \<le> \<bar>4 * ps\<bar> then (Inl UB, w0)
     else if ps < 0 then (Inl (Throw LengthError), w0)
     else if w_fresh w = [] then (Inl (Throw BadAlloc), w0)
     else (Inl UB, w0\<lparr>w_fresh := tl (w_fresh w)\<rparr>))"
proof -
  have e: "init_buffer os hash this \<lparr>str_data = a, str_size = 0\<rparr> ((set_db w this e)\<lparr>w_fresh := fs\<rparr>)
      = (Inl UB, (set_db w this e)\<lparr>w_fresh := fs\<rparr>)" for a e fs
    by (rule init_buffer_empty) simp_all
  show ?thesis
    using assms e by (cases "w_fresh w") (simp_all add: DB_init_def string_reserve_def new_addr_def bindA_def Let_def)
qed

text \<open>
  C17. \<^verbatim>\<open>init\<close> cannot set up a new file, whatever the system does. Its outcomes are these: the size of its
  buffer overflows, is negative or cannot be allocated; otherwise the behaviour is undefined from
  the first page on, because \<^verbatim>\<open>reserve\<close> has left the string empty. No byte ever gets to the file, so
  that the constructor of \<^verbatim>\<open>DB\<close> does not complete on an empty file even where the file lock is granted.
  A string of the right size filled with zeros would not help: the header of its first page points to
  no meta record, and the behaviour is undefined there.
\<close>

theorem DB_init_undefined:
  "(get_db w this = Inr d \<longrightarrow> DB_init os hash this w =
     (let ps = os_getpagesize os; w0 = set_db w this (d\<lparr>db_page_size := ps\<rparr>) in
      if 2 ^ 31 \<le> \<bar>4 * ps\<bar> then (Inl UB, w0)
      else if ps < 0 then (Inl (Throw LengthError), w0)
      else if w_fresh w = [] then (Inl (Throw BadAlloc), w0)
      else (Inl UB, w0\<lparr>w_fresh := tl (w_fresh w)\<rparr>))) \<and>
   (os_size os = (\<lambda>f. Inr 0) \<longrightarrow> DB_ctor os hash flockf metaf raw this path mode option v \<noteq> Some (Inr (), v')) \<and>
   (get_db w this = Inr d \<longrightarrow> 32 \<le> str_size buf \<longrightarrow> (\<forall>x \<in> region (str_data buf) 32. w_mem w x = 0) \<longrightarrow>
     (\<exists>w'. init_buffer os hash this buf w = (Inl UB, w')))"
proof (intro conjI impI)
  show "DB_init os hash this w =
     (let ps = os_getpagesize os; w0 = set_db w this (d\<lparr>db_page_size := ps\<rparr>) in
      if 2 ^ 31 \<le> \<bar>4 * ps\<bar> then (Inl UB, w0)
      else if ps < 0 then (Inl (Throw LengthError), w0)
      else if w_fresh w = [] then (Inl (Throw BadAlloc), w0)
      else (Inl UB, w0\<lparr>w_fresh := tl (w_fresh w)\<rparr>))" if "get_db w this = Inr d"
    using that by (rule DB_init_outcome)
  show "\<exists>w'. init_buffer os hash this buf w = (Inl UB, w')"
    if "get_db w this = Inr d" "32 \<le> str_size buf" "\<forall>x \<in> region (str_data buf) 32. w_mem w x = 0"
    using that by (rule init_buffer_zeros)
  show "DB_ctor os hash flockf metaf raw this path mode option v \<noteq> Some (Inr (), v')" if sz: "os_size os = (\<lambda>f. Inr 0)"
  proof
    assume "DB_ctor os hash flockf metaf raw this path mode option v = Some (Inr (), v')"
    then obtain u where "DB_load os hash metaf this (DB_option option) u = (Inr (), v')"
      by (auto simp: DB_ctor_def Let_def bindA_Inr_iff split: prod.splits sum.splits option.splits)
    then obtain e u' where g: "get_db u this = Inr e" and i: "DB_init os hash this u = (Inr (), u')"
      by (auto simp: DB_load_def bindA_Inr_iff bindE_Inr_iff sz)
    show False using DB_init_outcome [OF g, of os hash] i by (auto simp: Let_def split: if_splits)
  qed
qed

section \<open>A concrete system\<close>

text \<open>The lock is always obtained, the file is empty and accepts only writes of no bytes, and nothing is mapped.\<close>

definition idle_os :: OS where
  "idle_os = \<lparr>os_open = (\<lambda>path _ _. Inr \<lparr>f_fd = 3, f_name = path\<rparr>), os_size = (\<lambda>_. Inr 0),
     os_read_at = (\<lambda>_ buf _. retA buf),
     os_write_at = (\<lambda>_ bs _. if bs = [] then Inr () else Inl (Throw (SystemError ''''))),
     os_getpagesize = 4096, os_fdatasync = (\<lambda>_. 0), os_elapsed = (\<lambda>_. 0), os_flock = (\<lambda>_ _ _. (0, 0)),
     os_funlock = (\<lambda>_. 0), os_strerror = (\<lambda>_. ''''), os_mmap = (\<lambda>_ _ _ m. (MAP_FAILED, m)),
     os_madvise = (\<lambda>_ _. 0), os_munmap = (\<lambda>_ _. 0)\<rparr>"

theorem DB_ctor_never_completes_witness:
  "\<forall>hash. DB_ctor idle_os hash (DB_flock idle_os) DB_meta life_db 64 ''a.db'' 0 None life_world = None"
proof
  fix hash
  have "\<not> flock_stops idle_os (Inr fd) flag timeout i" for fd flag timeout i
    by (simp add: flock_stops_def idle_os_def)
  moreover have "w_fresh life_world = 1000 # [1100, 1200, 1300, 1400, 1500, 1600, 1700]"
    by (simp add: life_world_def)
  moreover have "os_open idle_os path x y = Inr \<lparr>f_fd = 3, f_name = path\<rparr>" for path x y
    by (simp add: idle_os_def)
  ultimately show "DB_ctor idle_os hash (DB_flock idle_os) DB_meta life_db 64 ''a.db'' 0 None life_world = None"
    using DB_ctor_never_completes [of idle_os hash DB_meta life_db 64 "''a.db''" 0 None life_world]
    by (simp add: Let_def)
qed

theorem DB_init_undefined_witness:
  "\<forall>hash. (\<exists>w'. DB_init idle_os hash 64 life_world = (Inl UB, w')) \<and>
    (\<exists>w'. init_buffer idle_os hash 64 \<lparr>str_data = 65536, str_size = 16384\<rparr> (life_world\<lparr>w_mem := \<lambda>_. 0\<rparr>) = (Inl UB, w'))"
proof
  fix hash
  let ?v = "life_world\<lparr>w_mem := \<lambda>_. 0\<rparr>"
  have d: "get_db life_world 64 = Inr life_db" "get_db ?v 64 = Inr life_db" by (simp_all add: life_world_def get_defs)
  have "os_getpagesize idle_os = 4096" "w_fresh life_world \<noteq> []" by (simp_all add: idle_os_def life_world_def)
  then show "(\<exists>w'. DB_init idle_os hash 64 life_world = (Inl UB, w')) \<and>
    (\<exists>w'. init_buffer idle_os hash 64 \<lparr>str_data = 65536, str_size = 16384\<rparr> ?v = (Inl UB, w'))"
    using DB_init_undefined [of life_world 64 life_db idle_os hash] d
      DB_init_undefined [of ?v 64 life_db idle_os hash _ _ _ _ _ _ _ _ "\<lparr>str_data = 65536, str_size = 16384\<rparr>"]
    by (simp add: Let_def)
qed

section \<open>The flag \<^verbatim>\<open>opened_\<close>\<close>

text \<open>A database that is not marked open and whose page size is \<open>ps\<close>, and actions that leave it so.\<close>

definition unopened :: "addr \<Rightarrow> int \<Rightarrow> world \<Rightarrow> bool" where
  "unopened this ps w \<longleftrightarrow> (\<exists>d. get_db w this = Inr d \<and> \<not> db_opened d \<and> db_pageSize d = ps)"

definition leaves_unopened :: "addr \<Rightarrow> int \<Rightarrow> 'a act \<Rightarrow> bool" where
  "leaves_unopened this ps x \<longleftrightarrow> (\<forall>w. unopened this ps w \<longrightarrow> unopened this ps (snd (x w)))"

lemma unopened_dbs: "w_dbs w' = w_dbs w \<Longrightarrow> unopened this ps w \<Longrightarrow> unopened this ps w'"
  by (simp add: unopened_def get_defs)

lemma leaves_basic:
  "leaves_unopened this ps (retA v)" "leaves_unopened this ps (failA e)" "leaves_unopened this ps (readA r)"
  by (simp_all add: leaves_unopened_def)

lemma leaves_new: "leaves_unopened this ps new_addr"
  by (auto simp: leaves_unopened_def new_addr_def unopened_dbs split: list.splits)

lemma leaves_bind:
  assumes "leaves_unopened this ps x" and "\<And>v. leaves_unopened this ps (f v)"
  shows "leaves_unopened this ps (bindA x f)"
  using assms by (auto simp: leaves_unopened_def bindA_def split: prod.splits sum.splits)

lemma leaves_if:
  "(b \<Longrightarrow> leaves_unopened this ps x) \<Longrightarrow> (\<not> b \<Longrightarrow> leaves_unopened this ps y) \<Longrightarrow> leaves_unopened this ps (if b then x else y)"
  by simp

lemma leaves_upd: "(\<And>w. w_dbs (f w) = w_dbs w) \<Longrightarrow> leaves_unopened this ps (updA f)"
  by (auto simp: leaves_unopened_def intro: unopened_dbs)

lemma leaves_upd_db:
  assumes "\<And>d. \<not> db_opened d \<Longrightarrow> \<not> db_opened (f d) \<and> db_pageSize (f d) = db_pageSize d"
  shows "leaves_unopened this ps (upd_db q f)"
  using assms by (auto simp: leaves_unopened_def unopened_def upd_db_def bindA_def get_defs set_db_def deref_def
      split: option.splits)

lemma leaves_upd_tx: "leaves_unopened this ps (upd_tx q f)"
  by (auto simp: leaves_unopened_def upd_tx_def bindA_def set_tx_def unopened_dbs split: sum.splits)

lemma leaves_close: "leaves_unopened this ps (DB_close os this)"
  by (auto simp: leaves_unopened_def unopened_def DB_close_unopened)

lemma leaves_catch:
  assumes "leaves_unopened this ps x" and "leaves_unopened this ps h"
  shows "leaves_unopened this ps (catch_rethrow x h)"
  unfolding leaves_unopened_def
proof (intro allI impI)
  fix w assume u: "unopened this ps w"
  obtain r w1 where x: "x w = (r, w1)" by (cases "x w")
  then have u1: "unopened this ps w1" using assms(1) u by (force simp: leaves_unopened_def)
  have "leaves_unopened this ps (bindA h (\<lambda>_. failA (Throw StdException)) :: 'a act)"
    by (intro leaves_bind assms(2) leaves_basic)
  then show "unopened this ps (snd (catch_rethrow x h w))"
    using x u1 by (auto simp: catch_rethrow_def leaves_unopened_def split: sum.splits fault.splits)
qed

lemma leavesD: "leaves_unopened this ps x \<Longrightarrow> x w = (r, w') \<Longrightarrow> unopened this ps w \<Longrightarrow> unopened this ps w'"
  by (force simp: leaves_unopened_def)

lemmas leaves_rules = leaves_basic leaves_new leaves_bind leaves_if leaves_upd_tx leaves_close leaves_catch

lemma leaves_throw_info: "leaves_unopened this ps (throw_info q what)"
  unfolding throw_info_def by (intro leaves_rules)

lemma leaves_locks:
  "leaves_unopened this ps (lock_rw q)" "leaves_unopened this ps (unlock_rw q)" "leaves_unopened this ps (lock_meta q)"
  "leaves_unopened this ps (unlock_meta q)" "leaves_unopened this ps (lock_stat q)" "leaves_unopened this ps (unlock_stat q)"
  "leaves_unopened this ps (lock_mmap_shared q)" "leaves_unopened this ps (unlock_mmap_shared q)"
  unfolding lock_defs by (intro leaves_rules leaves_upd_db; simp)+

lemma leaves_metaf:
  assumes "meta_source metaf"
  shows "leaves_unopened this ps metaf"
proof -
  have "w_dbs (snd (metaf w)) = w_dbs w" for w using meta_source.keeps [OF assms, of w] by (cases "metaf w") auto
  then show ?thesis by (auto simp: leaves_unopened_def intro: unopened_dbs)
qed

lemma leaves_ends:
  assumes "meta_source metaf"
  shows "leaves_unopened this ps (Tx_new metaf raw rawb db wr)" and "leaves_unopened this ps (Tx_close a)"
    and "leaves_unopened this ps (Tx_rollback metaf a)"
proof -
  note m = leaves_metaf [OF assms, of this ps]
  show "leaves_unopened this ps (Tx_new metaf raw rawb db wr)"
    unfolding Tx_new_def Tx_init_def
    by (intro leaves_rules m leaves_upd) (simp_all add: upd_mem_def set_bucket_def set_tx_def)
  show c: "leaves_unopened this ps (Tx_close a)" for a
    unfolding Tx_close_def DB_remove_tx_def
    by (intro leaves_rules leaves_locks leaves_upd_db leaves_upd) (simp_all add: close_stats_def)
  show "leaves_unopened this ps (Tx_rollback metaf a)"
    unfolding Tx_rollback_def Tx_rollback_inner_def
    by (intro leaves_rules m c leaves_upd) (simp_all add: set_freelist_def)
qed

lemma leaves_begin:
  assumes "meta_source metaf"
  shows "leaves_unopened this ps (DB_begin metaf raw rawb q wr)"
proof -
  note rules = leaves_rules leaves_locks leaves_ends(1) [OF assms] leaves_upd_db leaves_upd
  have l: "leaves_unopened this ps (begin_rwtx_locked metaf raw rawb q)"
    unfolding begin_rwtx_locked_def by (intro rules) (simp_all add: set_freelist_def)
  have g: "leaves_unopened this ps (with_guard q (begin_rwtx_locked metaf raw rawb q))"
    unfolding leaves_unopened_def
  proof (intro allI impI)
    fix w assume "unopened this ps w"
    then have "unopened this ps (snd (begin_rwtx_locked metaf raw rawb q w))" using l by (simp add: leaves_unopened_def)
    then have "unopened this ps (snd (unlock_meta q (snd (begin_rwtx_locked metaf raw rawb q w))))"
      using leaves_locks(4) by (simp add: leaves_unopened_def)
    then show "unopened this ps (snd (with_guard q (begin_rwtx_locked metaf raw rawb q) w))"
      by (cases "begin_rwtx_locked metaf raw rawb q w"; cases "unlock_meta q (snd (begin_rwtx_locked metaf raw rawb q w))")
        (auto simp: with_guard_def split: sum.splits)
  qed
  have "leaves_unopened this ps (DB_begin_tx metaf raw rawb q)"
    unfolding DB_begin_tx_def by (intro rules) simp_all
  moreover have "leaves_unopened this ps (DB_begin_rwtx metaf raw rawb q)"
    unfolding DB_begin_rwtx_def by (intro rules g)
  ultimately show ?thesis by (simp add: DB_begin_def)
qed

lemma leaves_step:
  assumes "meta_source metaf" and "callback_step metaf this u v" and "unopened this ps u"
  shows "unopened this ps v"
  using assms(2)
proof cases
  case (call threw)
  then show ?thesis
  proof cases
    case (start raw rawb wr r)
    then show ?thesis using leavesD [OF leaves_begin [OF assms(1)] _ assms(3)] by blast
  next
    case (commit a r)
    have "leaves_unopened this ps (Tx_commit a)" unfolding Tx_commit_def by (intro leaves_rules)
    then show ?thesis using leavesD [OF _ _ assms(3)] commit by blast
  next
    case (rollback a r)
    then show ?thesis using leavesD [OF leaves_ends(3) [OF assms(1)] _ assms(3)] by blast
  next
    case (on_commit a fn r)
    have "leaves_unopened this ps (Tx_on_commit a fn)" unfolding Tx_on_commit_def by (intro leaves_rules)
    then show ?thesis using leavesD [OF _ _ assms(3)] on_commit by blast
  qed
next
  case (work k)
  then show ?thesis using assms(3) by (intro unopened_dbs [of v u])
qed

text \<open>The constructor: whatever it has done when it ends, the flag is not set.\<close>

lemma leaves_load:
  assumes "meta_source metaf" and "\<And>f s n w. w_dbs (snd (os_read_at os f s n w)) = w_dbs w"
  shows "leaves_unopened this ps (DB_load os hash metaf this opt)"
proof -
  note rules = leaves_rules leaves_throw_info leaves_metaf [OF assms(1)] leaves_upd_db leaves_upd
  have ra: "leaves_unopened this ps (os_read_at os f s n)" for f s n
    using assms(2) by (auto simp: leaves_unopened_def intro: unopened_dbs)
  have re: "leaves_unopened this ps (string_reserve n)" for n unfolding string_reserve_def by (intro rules)
  have pg: "leaves_unopened this ps (buffer_page this buf i)" for buf i unfolding buffer_page_def by (intro rules)
  have i1: "leaves_unopened this ps (init_meta_page hash this buf i)" for buf i
    unfolding init_meta_page_def by (intro rules pg) (simp_all add: upd_mem_def)
  have i2: "leaves_unopened this ps (init_page this buf i fl)" for buf i fl
    unfolding init_page_def by (intro rules pg) (simp add: upd_mem_def)
  have ini: "leaves_unopened this ps (DB_init os hash this)"
    unfolding DB_init_def init_buffer_def write_string_def DB_fdatasync_def by (intro rules i1 i2 re) simp
  have det: "leaves_unopened this ps (DB_detect_page_size os hash this)"
    unfolding DB_detect_page_size_def
    by (intro rules pg re ra) (auto split: sum.splits fault.splits intro!: rules)
  have fre: "leaves_unopened this ps (DB_load_freelist metaf this)"
    unfolding DB_load_freelist_def by (intro rules) (simp_all add: set_freelist_def)
  have mm: "leaves_unopened this ps (DB_mmap os this sz)" for sz
    unfolding DB_mmap_def by (intro rules) (auto simp: upd_mem_def split: prod.splits intro!: rules)
  show ?thesis unfolding DB_load_def by (intro rules ini det fre mm) simp_all
qed

lemma ctor_unopened:
  assumes "meta_source metaf" and "\<And>f s n w. w_dbs (snd (os_read_at os f s n w)) = w_dbs w"
    and "DB_ctor os hash flockf metaf raw this path mode option w = Some (r, w')"
  shows "unopened this (db_pageSize raw) w'"
proof -
  let ?ps = "db_pageSize raw" and ?opt = "DB_option option"
  note rules = leaves_rules leaves_upd_db leaves_upd
  obtain r1 w1 where o: "DB_open_file os raw this path mode ?opt w = (r1, w1)" by fastforce
  have u0: "unopened this ?ps (set_db w this (DB_prepare raw path ?opt))" by (simp add: unopened_def)
  have "leaves_unopened this ?ps (catch_rethrow (bindA new_addr (\<lambda>p.
      bindA (readA (\<lambda>w. os_open os path fl md)) (\<lambda>f. bindA (updA (\<lambda>w. w\<lparr>w_files := (w_files w)(p \<mapsto> f)\<rparr>)) (\<lambda>_.
      upd_db this (\<lambda>d. d\<lparr>db_file := p\<rparr>))))) (DB_close os this))" for fl md
    by (intro rules) simp_all
  from leavesD [OF this _ u0] have u1: "unopened this ?ps w1" if "catch_rethrow (bindA new_addr (\<lambda>p.
      bindA (readA (\<lambda>w. os_open os path ((if o_ReadOnly ?opt then O_RDONLY else O_RDWR) OR O_CREAT) (mode OR S_IRWXU))) (\<lambda>f.
      bindA (updA (\<lambda>w. w\<lparr>w_files := (w_files w)(p \<mapsto> f)\<rparr>)) (\<lambda>_.
      upd_db this (\<lambda>d. d\<lparr>db_file := p\<rparr>))))) (DB_close os this) (set_db w this (DB_prepare raw path ?opt)) = (r1, w1)"
    using that .
  then have u1: "unopened this ?ps w1" using o by (simp add: DB_open_file_def Let_def)
  have c: "leaves_unopened this ?ps (catch_rethrow (\<lambda>w. (r :: unit res, w)) (DB_close os this))" for r
    by (intro rules) (simp add: leaves_unopened_def)
  have "leaves_unopened this ?ps (bindA (catch_rethrow (\<lambda>w. (r, w)) (DB_close os this))
      (\<lambda>_. DB_load os hash metaf this ?opt))" for r :: "unit res"
    by (rule leaves_bind [OF c leaves_load [OF assms(1,2)]])
  then have "unopened this ?ps (snd (bindA (catch_rethrow (\<lambda>w. (r, w)) (DB_close os this))
      (\<lambda>_. DB_load os hash metaf this ?opt) w1))" for r :: "unit res"
    using u1 by (simp add: leaves_unopened_def)
  from this [of "the (flockf this (o_Timeout ?opt) w1)"] show ?thesis
    using assms(3) o u1 by (auto simp: DB_ctor_def Let_def split: sum.splits option.splits)
qed

text \<open>
  C34. \<^verbatim>\<open>opened_\<close> is never set: whatever lock and system the constructor of \<^verbatim>\<open>DB\<close> meets and however it ends,
  by returning, by an exception or otherwise, it leaves \<^verbatim>\<open>opened_\<close> false and \<^verbatim>\<open>pageSize_\<close>, by which pages are
  found, as indeterminate as it was; and no call of \<^verbatim>\<open>begin\<close>, \<^verbatim>\<open>commit\<close>, \<^verbatim>\<open>rollback\<close> and \<^verbatim>\<open>on_commit\<close>,
  returning or throwing, in any order with any other work, changes them. So \<^verbatim>\<open>close\<close> returns at once
  at any time and does nothing: it neither unmaps, unlocks nor closes the file.
\<close>

theorem never_opened:
  assumes "meta_source metaf" and "\<And>f s n w. w_dbs (snd (os_read_at os f s n w)) = w_dbs w"
    and "DB_ctor os hash flockf metaf raw this path mode option w = Some (r, w1)"
    and "(callback_step metaf this)\<^sup>*\<^sup>* w1 w2"
  shows "\<exists>d. get_db w2 this = Inr d \<and> \<not> db_opened d \<and> db_pageSize d = db_pageSize raw \<and>
    DB_close os' this w2 = (Inr (), w2)"
proof -
  have u: "unopened this (db_pageSize raw) w1" using ctor_unopened assms(1-3) .
  have "unopened this (db_pageSize raw) w2"
    using assms(4) u by (induction rule: rtranclp_induct) (use leaves_step [OF assms(1)] in blast)+
  then show ?thesis using DB_close_unopened by (auto simp: unopened_def)
qed

text \<open>Another process holds the lock: the constructor throws and leaves the file open.\<close>

theorem never_opened_witness:
  "\<forall>hash. let os = idle_os\<lparr>os_flock := \<lambda>_ _ _. (-1, EWOULDBLOCK)\<rparr> in
    \<exists>w. DB_ctor os hash (DB_flock os) DB_meta life_db 64 ''a.db'' 0 None life_world = Some (Inl (Throw StdException), w) \<and>
      DB_close os 64 w = (Inr (), w) \<and> get_file w 1000 = Inr \<lparr>f_fd = 3, f_name = ''a.db''\<rparr>"
proof
  fix hash
  define os where "os = idle_os\<lparr>os_flock := \<lambda>_ _ _. (-1, EWOULDBLOCK)\<rparr>"
  let ?f = "\<lparr>f_fd = 3, f_name = ''a.db''\<rparr>"
  let ?w1 = "opened_world life_db 64 ''a.db'' DefaultOption 1000 ?f [1100, 1200, 1300, 1400, 1500, 1600, 1700] life_world"
  have "DB_open_file os life_db 64 ''a.db'' 0 DefaultOption life_world = (Inr (), ?w1)"
    by (rule DB_open_file_Inr) (simp_all add: life_world_def os_def idle_os_def)
  moreover have "DB_flock os 64 n w = Some (Inl (Throw (RuntimeError (''fail to flock:'' @ os_strerror os EWOULDBLOCK))))"
    if "DB_fd w 64 = Inr 3" "n = 0" for n w
    using that unfolding DB_flock_def by (subst flock_loop.simps) (simp add: os_def)
  moreover have "catch_rethrow (\<lambda>w. (Inl (Throw e) :: unit res, w)) (DB_close os 64) ?w1 = (Inl (Throw StdException), ?w1)" for e
    by (simp add: catch_rethrow_def DB_close_unopened [where d = "(DB_prepare life_db ''a.db'' DefaultOption)\<lparr>db_file := 1000\<rparr>"])
  ultimately have c: "DB_ctor os hash (DB_flock os) DB_meta life_db 64 ''a.db'' 0 None life_world = Some (Inl (Throw StdException), ?w1)"
    by (simp add: DB_ctor_def DB_option_def Let_def DefaultOption_def)
  have "w_dbs (snd (os_read_at os f s n w)) = w_dbs w" for f s n w by (simp add: os_def idle_os_def)
  from never_opened [OF own_meta.meta_source_axioms this c rtranclp.rtrancl_refl, of os] c
  show "let os = idle_os\<lparr>os_flock := \<lambda>_ _ _. (-1, EWOULDBLOCK)\<rparr> in
    \<exists>w. DB_ctor os hash (DB_flock os) DB_meta life_db 64 ''a.db'' 0 None life_world = Some (Inl (Throw StdException), w) \<and>
      DB_close os 64 w = (Inr (), w) \<and> get_file w 1000 = Inr ?f"
    unfolding os_def [symmetric] Let_def by (intro exI [of _ ?w1]) (auto simp: get_defs)
qed

end
