(* ===== verification/Threads.thy ===== *)
theory Threads
  imports Lifecycle
begin

text \<open>
  Threads inside \<^verbatim>\<open>begin_tx\<close>, \<^verbatim>\<open>begin_rwtx\<close> (\<^verbatim>\<open>db.cpp\<close>) and \<^verbatim>\<open>rollback\<close>, \<^verbatim>\<open>close\<close> (\<^verbatim>\<open>tx.cpp\<close>). A
  value of \<open>pc\<close> is the next statement of a thread with its local variables; \<open>thread_step\<close> executes
  that statement. A statement that locks a mutex held by another thread cannot be executed yet.
  Run alone, a thread does what the operation of theory \<open>DB\<close> or \<open>Tx\<close> does.
\<close>

unbundle bit_operations_syntax

section \<open>Statements\<close>

text \<open>
  \<open>Rd_\<close>: \<^verbatim>\<open>begin_tx\<close>. \<open>Wr_\<close>: \<^verbatim>\<open>begin_rwtx\<close>, with \<open>Wr_leave\<close> the end of the scope of its
  \<^verbatim>\<open>lock_guard\<close>. \<open>Rb_\<close>: \<^verbatim>\<open>rollback\<close> and \<^verbatim>\<open>_rollback\<close>. \<open>Cl_\<close>: \<^verbatim>\<open>close\<close>. Between calls a thread has no
  transaction (\<open>Idle\<close>, \<open>Ended\<close>) or one (\<open>Open\<close>); an exception ends it (\<open>Failed\<close>). The flag of \<open>Open\<close>,
  \<open>Rb_start\<close>, \<open>Rb_inner\<close> and \<open>Cl_start\<close> says whether the transaction was begun as a writer; no step
  looks at it.
\<close>

datatype pc =
    Idle
  | Rd_lock_meta | Rd_lock_mmap | Rd_opened | Rd_fail_mmap | Rd_fail_meta | Rd_new
  | Rd_push addr | Rd_unlock_meta addr | Rd_lock_stat addr | Rd_stats addr | Rd_unlock_stat addr
  | Wr_read_only | Wr_lock_rw | Wr_lock_meta | Wr_opened | Wr_fail_rw | Wr_new
  | Wr_rwtx addr | Wr_minid addr | Wr_release addr txid_t | Wr_leave "addr res"
  | Open bool addr
  | Rb_start bool addr | Rb_inner bool addr | Rb_rollback addr Tx | Rb_reload addr Tx
  | Cl_start bool addr | Cl_counts addr Tx | Cl_rwtx addr Tx FreeList | Cl_unlock_rw addr Tx FreeList
  | Cl_lock_stat addr Tx FreeList | Cl_stats addr Tx FreeList | Cl_unlock_stat addr Tx
  | Cl_remove addr Tx | Cl_clear bool addr Tx
  | Ended
  | Failed fault

text \<open>A statement that may wait, one that does not, and one inside the scope of the guard.\<close>

definition locks :: "unit act \<Rightarrow> pc \<Rightarrow> world \<Rightarrow> (pc \<times> world) option" where
  "locks x c w = (case x w of
      (Inl e, w') \<Rightarrow> if e = Block then None else Some (Failed e, w')
    | (Inr _, w') \<Rightarrow> Some (c, w'))"

definition does :: "'a act \<Rightarrow> ('a \<Rightarrow> pc) \<Rightarrow> world \<Rightarrow> (pc \<times> world) option" where
  "does x k w = (case x w of (Inl e, w') \<Rightarrow> Some (Failed e, w') | (Inr v, w') \<Rightarrow> Some (k v, w'))"

definition guarded :: "'a act \<Rightarrow> ('a \<Rightarrow> pc) \<Rightarrow> world \<Rightarrow> (pc \<times> world) option" where
  "guarded x k w = (case x w of (Inl e, w') \<Rightarrow> Some (Wr_leave (Inl e), w') | (Inr v, w') \<Rightarrow> Some (k v, w'))"

lemmas step_defs = locks_def does_def guarded_def

text \<open>\<^verbatim>\<open>DB::begin_tx\<close>.\<close>

fun begin_tx_step :: "addr act \<Rightarrow> Tx \<Rightarrow> Bucket \<Rightarrow> addr \<Rightarrow> pc \<Rightarrow> world \<Rightarrow> (pc \<times> world) option" where
  "begin_tx_step metaf raw rawb p Rd_lock_meta = locks (lock_meta p) Rd_lock_mmap"
| "begin_tx_step metaf raw rawb p Rd_lock_mmap = locks (lock_mmap_shared p) Rd_opened"
| "begin_tx_step metaf raw rawb p Rd_opened =
     does (readA (\<lambda>w. get_db w p)) (\<lambda>d. if db_opened d then Rd_fail_mmap else Rd_new)"
| "begin_tx_step metaf raw rawb p Rd_fail_mmap = does (unlock_mmap_shared p) (\<lambda>_. Rd_fail_meta)"
| "begin_tx_step metaf raw rawb p Rd_fail_meta =
     does (unlock_meta p) (\<lambda>_. Failed (Throw DatabaseNotOpenException))"
| "begin_tx_step metaf raw rawb p Rd_new = does (Tx_new metaf raw rawb p False) Rd_push"
| "begin_tx_step metaf raw rawb p (Rd_push t) =
     does (upd_db p (\<lambda>d. d\<lparr>db_txs := db_txs d @ [t]\<rparr>)) (\<lambda>_. Rd_unlock_meta t)"
| "begin_tx_step metaf raw rawb p (Rd_unlock_meta t) = does (unlock_meta p) (\<lambda>_. Rd_lock_stat t)"
| "begin_tx_step metaf raw rawb p (Rd_lock_stat t) = locks (lock_stat p) (Rd_stats t)"
| "begin_tx_step metaf raw rawb p (Rd_stats t) =
     does (upd_db p (\<lambda>d. d\<lparr>db_stats := (db_stats d)\<lparr>tx_n := tx_n (db_stats d) + 1,
        open_tx_n := int_of_size (length (db_txs d))\<rparr>\<rparr>)) (\<lambda>_. Rd_unlock_stat t)"
| "begin_tx_step metaf raw rawb p (Rd_unlock_stat t) = does (unlock_stat p) (\<lambda>_. Open False t)"
| "begin_tx_step metaf raw rawb p c = (\<lambda>w. None)"

text \<open>\<^verbatim>\<open>DB::begin_rwtx\<close>.\<close>

fun begin_rwtx_step :: "addr act \<Rightarrow> Tx \<Rightarrow> Bucket \<Rightarrow> addr \<Rightarrow> pc \<Rightarrow> world \<Rightarrow> (pc \<times> world) option" where
  "begin_rwtx_step metaf raw rawb p Wr_read_only =
     does (readA (\<lambda>w. get_db w p))
       (\<lambda>d. if db_read_only d then Failed (Throw DatabaseReadOnlyException) else Wr_lock_rw)"
| "begin_rwtx_step metaf raw rawb p Wr_lock_rw = locks (lock_rw p) Wr_lock_meta"
| "begin_rwtx_step metaf raw rawb p Wr_lock_meta = locks (lock_meta p) Wr_opened"
| "begin_rwtx_step metaf raw rawb p Wr_opened =
     guarded (readA (\<lambda>w. get_db w p)) (\<lambda>d. if db_opened d then Wr_fail_rw else Wr_new)"
| "begin_rwtx_step metaf raw rawb p Wr_fail_rw =
     guarded (unlock_rw p) (\<lambda>_. Wr_leave (Inl (Throw DatabaseNotOpenException)))"
| "begin_rwtx_step metaf raw rawb p Wr_new = guarded (Tx_new metaf raw rawb p True) Wr_rwtx"
| "begin_rwtx_step metaf raw rawb p (Wr_rwtx t) = guarded (upd_db p (\<lambda>d. d\<lparr>db_rwtx := t\<rparr>)) (\<lambda>_. Wr_minid t)"
| "begin_rwtx_step metaf raw rawb p (Wr_minid t) =
     guarded (readA (\<lambda>w. bindE (get_db w p) (\<lambda>d. min_txid w (db_txs d) 0xFFFFFFFFFFFFFFFF)))
       (\<lambda>minid. if minid > 0 then Wr_release t minid else Wr_leave (Inr t))"
| "begin_rwtx_step metaf raw rawb p (Wr_release t minid) =
     guarded (bindA (readA (\<lambda>w. bindE (get_db w p) (\<lambda>d. Inr (db_freelist d)))) (\<lambda>fp.
        bindA (readA (\<lambda>w. get_freelist w fp)) (\<lambda>fl.
        bindA (readA (\<lambda>w. FreeList_release fl (minid - 1))) (\<lambda>fl'.
        updA (\<lambda>w. set_freelist w fp fl'))))) (\<lambda>_. Wr_leave (Inr t))"
| "begin_rwtx_step metaf raw rawb p (Wr_leave r) =
     does (unlock_meta p) (\<lambda>_. case r of Inl e \<Rightarrow> Failed e | Inr t \<Rightarrow> Open True t)"
| "begin_rwtx_step metaf raw rawb p c = (\<lambda>w. None)"

text \<open>\<^verbatim>\<open>Tx::rollback\<close> and \<^verbatim>\<open>Tx::_rollback\<close>.\<close>

fun rollback_step :: "addr act \<Rightarrow> pc \<Rightarrow> world \<Rightarrow> (pc \<times> world) option" where
  "rollback_step metaf (Rb_start wr a) =
     does (readA (\<lambda>w. get_tx w a)) (\<lambda>t. if tx_managed t then Failed AssertFail
       else if tx_db t = nullptr then Failed (Throw TxClosedException) else Rb_inner wr a)"
| "rollback_step metaf (Rb_inner wr a) =
     does (readA (\<lambda>w. get_tx w a)) (\<lambda>t. if tx_db t = nullptr then Ended
       else if tx_writable t then Rb_rollback a t else Cl_start wr a)"
| "rollback_step metaf (Rb_rollback a t) =
     does (bindA (readA (\<lambda>w. get_db w (tx_db t))) (\<lambda>d.
        bindA (readA (\<lambda>w. get_freelist w (db_freelist d))) (\<lambda>fl.
        updA (\<lambda>w. set_freelist w (db_freelist d) (FreeList_rollback fl (Tx_id w t)))))) (\<lambda>_. Rb_reload a t)"
| "rollback_step metaf (Rb_reload a t) =
     does (bindA (readA (\<lambda>w. get_db w (tx_db t))) (\<lambda>d. bindA metaf (\<lambda>m.
        bindA (readA (\<lambda>w. get_freelist w (db_freelist d))) (\<lambda>fl.
        updA (\<lambda>w. set_freelist w (db_freelist d)
          (FreeList_reload (w_mem w) fl (DB_page d (Meta_freelist (w_mem w) m)))))))) (\<lambda>_. Cl_start True a)"
| "rollback_step metaf c = (\<lambda>w. None)"

text \<open>\<^verbatim>\<open>Tx::close\<close>.\<close>

fun close_step :: "pc \<Rightarrow> world \<Rightarrow> (pc \<times> world) option" where
  "close_step (Cl_start wr a) =
     does (readA (\<lambda>w. get_tx w a)) (\<lambda>t. if tx_db t = nullptr then Ended
       else if tx_writable t then Cl_counts a t else Cl_remove a t)"
| "close_step (Cl_counts a t) =
     does (readA (\<lambda>w. bindE (get_db w (tx_db t)) (\<lambda>d. get_freelist w (db_freelist d)))) (Cl_rwtx a t)"
| "close_step (Cl_rwtx a t fl) =
     does (upd_db (tx_db t) (\<lambda>d. d\<lparr>db_rwtx := nullptr\<rparr>)) (\<lambda>_. Cl_unlock_rw a t fl)"
| "close_step (Cl_unlock_rw a t fl) = does (unlock_rw (tx_db t)) (\<lambda>_. Cl_lock_stat a t fl)"
| "close_step (Cl_lock_stat a t fl) = locks (lock_stat (tx_db t)) (Cl_stats a t fl)"
| "close_step (Cl_stats a t fl) =
     does (upd_db (tx_db t) (close_stats fl t)) (\<lambda>_. Cl_unlock_stat a t)"
| "close_step (Cl_unlock_stat a t) = does (unlock_stat (tx_db t)) (\<lambda>_. Cl_clear True a t)"
| "close_step (Cl_remove a t) = does (DB_remove_tx (tx_db t) a) (\<lambda>_. Cl_clear False a t)"
| "close_step (Cl_clear wr a t) =
     does (bindA (updA (\<lambda>w. w\<lparr>w_buckets := (w_buckets w)(tx_root t := None)\<rparr>)) (\<lambda>_.
        upd_tx a (\<lambda>t. t\<lparr>tx_db := nullptr, tx_pages := Map.empty\<rparr>))) (\<lambda>_. Ended)"
| "close_step c = (\<lambda>w. None)"

text \<open>The call a thread is in, and its next step.\<close>

datatype call = No_call | Begin_tx | Begin_rwtx | Rollback | Close

fun call_of :: "pc \<Rightarrow> call" where
  "call_of Rd_lock_meta = Begin_tx" | "call_of Rd_lock_mmap = Begin_tx"
| "call_of Rd_opened = Begin_tx" | "call_of Rd_fail_mmap = Begin_tx"
| "call_of Rd_fail_meta = Begin_tx" | "call_of Rd_new = Begin_tx" | "call_of (Rd_push t) = Begin_tx"
| "call_of (Rd_unlock_meta t) = Begin_tx" | "call_of (Rd_lock_stat t) = Begin_tx"
| "call_of (Rd_stats t) = Begin_tx" | "call_of (Rd_unlock_stat t) = Begin_tx"
| "call_of Wr_read_only = Begin_rwtx" | "call_of Wr_lock_rw = Begin_rwtx"
| "call_of Wr_lock_meta = Begin_rwtx" | "call_of Wr_opened = Begin_rwtx"
| "call_of Wr_fail_rw = Begin_rwtx" | "call_of Wr_new = Begin_rwtx"
| "call_of (Wr_rwtx t) = Begin_rwtx" | "call_of (Wr_minid t) = Begin_rwtx"
| "call_of (Wr_release t minid) = Begin_rwtx" | "call_of (Wr_leave r) = Begin_rwtx"
| "call_of (Rb_start wr a) = Rollback" | "call_of (Rb_inner wr a) = Rollback"
| "call_of (Rb_rollback a t) = Rollback" | "call_of (Rb_reload a t) = Rollback"
| "call_of (Cl_start wr a) = Close" | "call_of (Cl_counts a t) = Close"
| "call_of (Cl_rwtx a t fl) = Close" | "call_of (Cl_unlock_rw a t fl) = Close"
| "call_of (Cl_lock_stat a t fl) = Close" | "call_of (Cl_stats a t fl) = Close"
| "call_of (Cl_unlock_stat a t) = Close" | "call_of (Cl_remove a t) = Close"
| "call_of (Cl_clear wr a t) = Close" | "call_of c = No_call"

definition thread_step :: "addr act \<Rightarrow> Tx \<Rightarrow> Bucket \<Rightarrow> addr \<Rightarrow> pc \<Rightarrow> world \<Rightarrow> (pc \<times> world) option" where
  "thread_step metaf raw rawb p c = (case call_of c of
      No_call \<Rightarrow> (\<lambda>w. None)
    | Begin_tx \<Rightarrow> begin_tx_step metaf raw rawb p c
    | Begin_rwtx \<Rightarrow> begin_rwtx_step metaf raw rawb p c
    | Rollback \<Rightarrow> rollback_step metaf c
    | Close \<Rightarrow> close_step c)"

lemma thread_step_call [simp]:
  "call_of c = No_call \<Longrightarrow> thread_step metaf raw rawb p c = (\<lambda>w. None)"
  "call_of c = Begin_tx \<Longrightarrow> thread_step metaf raw rawb p c = begin_tx_step metaf raw rawb p c"
  "call_of c = Begin_rwtx \<Longrightarrow> thread_step metaf raw rawb p c = begin_rwtx_step metaf raw rawb p c"
  "call_of c = Rollback \<Longrightarrow> thread_step metaf raw rawb p c = rollback_step metaf c"
  "call_of c = Close \<Longrightarrow> thread_step metaf raw rawb p c = close_step c"
  by (simp_all add: thread_step_def)

lemmas thread_step_run = thread_step_call call_of.simps begin_tx_step.simps begin_rwtx_step.simps rollback_step.simps
  close_step.simps

lemmas rwtx_step =
  thread_step_call(3) [OF call_of.simps(15), unfolded begin_rwtx_step.simps]
  thread_step_call(3) [OF call_of.simps(16), unfolded begin_rwtx_step.simps]
  thread_step_call(3) [OF call_of.simps(17), unfolded begin_rwtx_step.simps]
  thread_step_call(3) [OF call_of.simps(18), unfolded begin_rwtx_step.simps]
  thread_step_call(3) [OF call_of.simps(19), unfolded begin_rwtx_step.simps]
  thread_step_call(3) [OF call_of.simps(20), unfolded begin_rwtx_step.simps]
  thread_step_call(3) [OF call_of.simps(21), unfolded begin_rwtx_step.simps]

text \<open>The first statements of \<^verbatim>\<open>DB::begin\<close>.\<close>

definition begin_pc :: "bool \<Rightarrow> pc" where
  "begin_pc writable = (if writable then Wr_read_only else Rd_lock_meta)"

text \<open>A bound on the statements a thread still has to execute in its call.\<close>

fun steps_left :: "pc \<Rightarrow> nat" where
  "steps_left Rd_lock_meta = 10" | "steps_left Rd_lock_mmap = 9" | "steps_left Rd_opened = 8"
| "steps_left Rd_fail_mmap = 2" | "steps_left Rd_fail_meta = 1" | "steps_left Rd_new = 7"
| "steps_left (Rd_push t) = 6" | "steps_left (Rd_unlock_meta t) = 5" | "steps_left (Rd_lock_stat t) = 4"
| "steps_left (Rd_stats t) = 3" | "steps_left (Rd_unlock_stat t) = 2"
| "steps_left Wr_read_only = 9" | "steps_left Wr_lock_rw = 8" | "steps_left Wr_lock_meta = 7"
| "steps_left Wr_opened = 6" | "steps_left Wr_fail_rw = 2" | "steps_left Wr_new = 5"
| "steps_left (Wr_rwtx t) = 4" | "steps_left (Wr_minid t) = 3" | "steps_left (Wr_release t m) = 2"
| "steps_left (Wr_leave r) = 1"
| "steps_left (Rb_start wr a) = 12" | "steps_left (Rb_inner wr a) = 11" | "steps_left (Rb_rollback a t) = 10"
| "steps_left (Rb_reload a t) = 9" | "steps_left (Cl_start wr a) = 8" | "steps_left (Cl_counts a t) = 7"
| "steps_left (Cl_rwtx a t fl) = 6" | "steps_left (Cl_unlock_rw a t fl) = 5" | "steps_left (Cl_lock_stat a t fl) = 4"
| "steps_left (Cl_stats a t fl) = 3" | "steps_left (Cl_unlock_stat a t) = 2" | "steps_left (Cl_remove a t) = 2"
| "steps_left (Cl_clear wr a t) = 1"
| "steps_left Idle = 0" | "steps_left (Open wr t) = 0" | "steps_left Ended = 0" | "steps_left (Failed e) = 0"

lemma steps_left_dec:
  assumes "thread_step metaf raw rawb p c w = Some (c', w')"
  shows "steps_left c' < steps_left c"
  using assms by (cases c) (auto simp: step_defs split: prod.splits sum.splits if_splits)

section \<open>A thread that runs alone\<close>

primrec thread_run :: "addr act \<Rightarrow> Tx \<Rightarrow> Bucket \<Rightarrow> addr \<Rightarrow> nat \<Rightarrow> pc \<Rightarrow> world \<Rightarrow> pc \<times> world" where
  "thread_run metaf raw rawb p 0 c w = (c, w)"
| "thread_run metaf raw rawb p (Suc n) c w = (case thread_step metaf raw rawb p c w of
      None \<Rightarrow> (c, w)
    | Some (c', w') \<Rightarrow> thread_run metaf raw rawb p n c' w')"

lemma thread_run_stops:
  "steps_left c \<le> n \<Longrightarrow> thread_run metaf raw rawb p n c w = (c', w') \<Longrightarrow> thread_step metaf raw rawb p c' w' = None"
proof (induction n arbitrary: c w)
  case 0
  then show ?case using steps_left_dec by (cases "thread_step metaf raw rawb p c w") fastforce+
next
  case (Suc n)
  show ?case
  proof (cases "thread_step metaf raw rawb p c w")
    case (Some x)
    then obtain c1 w1 where s: "thread_step metaf raw rawb p c w = Some (c1, w1)" by (cases x) simp
    then have "steps_left c1 \<le> n" using steps_left_dec Suc.prems(1) by fastforce
    then show ?thesis using Suc.IH Suc.prems(2) s by simp
  qed (use Suc.prems in simp)
qed

lemma thread_run_rest [simp]:
  "thread_run metaf raw rawb p n (Failed e) w = (Failed e, w)" "thread_run metaf raw rawb p n Ended w = (Ended, w)"
  "thread_run metaf raw rawb p n (Open wr t) w = (Open wr t, w)"
  by (cases n; simp)+

text \<open>What a call gives: a transaction for \<^verbatim>\<open>begin\<close>, nothing for \<^verbatim>\<open>rollback\<close>; inside the call the thread waits.\<close>

fun begin_result :: "pc \<Rightarrow> addr res" where
  "begin_result (Open wr t) = Inr t"
| "begin_result (Failed e) = Inl e"
| "begin_result c = Inl Block"

fun rollback_result :: "pc \<Rightarrow> unit res" where
  "rollback_result Ended = Inr ()"
| "rollback_result (Failed e) = Inl e"
| "rollback_result c = Inl Block"

text \<open>The call as one action, for a way \<open>fin\<close> of reading the final statement.\<close>

definition run_act :: "(pc \<Rightarrow> 'a res) \<Rightarrow> addr act \<Rightarrow> Tx \<Rightarrow> Bucket \<Rightarrow> addr \<Rightarrow> nat \<Rightarrow> pc \<Rightarrow> 'a act" where
  "run_act fin metaf raw rawb p n c w = (case thread_run metaf raw rawb p n c w of (c', w') \<Rightarrow> (fin c', w'))"

text \<open>Actions that leave the world alone while they wait.\<close>

definition waits :: "'a act \<Rightarrow> bool" where
  "waits x \<longleftrightarrow> (\<forall>w w'. x w = (Inl Block, w') \<longrightarrow> w' = w)"

lemma waits_locks: "waits (lock_meta p)" "waits (lock_rw p)" "waits (lock_stat p)" "waits (lock_mmap_shared p)"
  by (auto simp: waits_def lock_defs upd_db_def bindA_def split: sum.splits prod.splits if_splits)

locale call_result =
  fixes fin :: "pc \<Rightarrow> 'a res"
  assumes failed: "fin (Failed e) = Inl e"
    and inside: "0 < steps_left c \<Longrightarrow> fin c = Inl Block"
begin

lemma run_failed: "run_act fin metaf raw rawb p n (Failed e) = failA e"
  by (rule ext) (simp add: run_act_def failed)

lemma run_locks:
  assumes "thread_step metaf raw rawb p c = locks x c'" and "0 < steps_left c" and "waits x"
  shows "run_act fin metaf raw rawb p (Suc n) c = bindA x (\<lambda>_. run_act fin metaf raw rawb p n c')"
  using assms inside [OF assms(2)]
  by (intro ext) (auto simp: run_act_def bindA_def locks_def waits_def failed split: prod.splits sum.splits)

lemma run_does:
  assumes "thread_step metaf raw rawb p c = does x k"
  shows "run_act fin metaf raw rawb p (Suc n) c = bindA x (\<lambda>v. run_act fin metaf raw rawb p n (k v))"
  using assms by (intro ext) (auto simp: run_act_def bindA_def does_def failed split: prod.splits sum.splits)

end

interpretation begin_call: call_result begin_result
proof
  fix c assume "0 < steps_left c" then show "begin_result c = Inl Block" by (cases c) simp_all
qed simp

interpretation rollback_call: call_result rollback_result
proof
  fix c assume "0 < steps_left c" then show "rollback_result c = Inl Block" by (cases c) simp_all
qed simp

text \<open>Statements in the scope of the guard, up to the end of the scope.\<close>

lemma run_leave:
  "run_act begin_result metaf raw rawb p (Suc n) (Wr_leave r) = with_guard p (\<lambda>w. (r, w))"
proof (rule ext)
  fix w
  have "run_act begin_result metaf raw rawb p n (Open True t) v = (Inr t, v)" for t v
    by (simp add: run_act_def)
  then show "run_act begin_result metaf raw rawb p (Suc n) (Wr_leave r) w = with_guard p (\<lambda>w. (r, w)) w"
    unfolding begin_call.run_does [OF rwtx_step(7)]
    by (auto simp: with_guard_def bindA_def begin_call.run_failed split: prod.splits sum.splits)
qed

lemma run_guarded:
  assumes "thread_step metaf raw rawb p c = guarded x k"
    and "\<And>v. run_act begin_result metaf raw rawb p (Suc n) (k v) = with_guard p (f v)"
  shows "run_act begin_result metaf raw rawb p (Suc (Suc n)) c = with_guard p (bindA x f)"
proof (rule ext)
  fix w
  note l = fun_cong [OF run_leave [of metaf raw rawb p n]] and a = fun_cong [OF assms(2)]
  have s: "run_act begin_result metaf raw rawb p (Suc (Suc n)) c w = (case x w of
      (Inl e, w') \<Rightarrow> run_act begin_result metaf raw rawb p (Suc n) (Wr_leave (Inl e)) w'
    | (Inr v, w') \<Rightarrow> run_act begin_result metaf raw rawb p (Suc n) (k v) w')"
    using assms(1) by (simp add: run_act_def [of _ _ _ _ _ "Suc (Suc n)"] guarded_def split: prod.splits sum.splits)
       (auto simp: run_act_def)
  show "run_act begin_result metaf raw rawb p (Suc (Suc n)) c w = with_guard p (bindA x f) w"
    unfolding s l a by (auto simp: with_guard_def bindA_def split: prod.splits sum.splits)
qed

lemma bindA_ret [simp]: "bindA (retA v) f = f v" and retA_fun: "retA v = (\<lambda>w. (Inr v, w))" and failA_fun: "failA e = (\<lambda>w. (Inl e, w))"
  by (auto intro!: ext)

lemma run_open: "run_act begin_result metaf raw rawb p n (Open wr t) = retA t"
  by (rule ext) (simp add: run_act_def)

lemma run_begin_tx:
  "run_act begin_result metaf raw rawb p (Suc (Suc (Suc (Suc (Suc (Suc (Suc (Suc (Suc (Suc n)))))))))) Rd_lock_meta
    = DB_begin_tx metaf raw rawb p"
  unfolding DB_begin_tx_def
  by (simp add: begin_call.run_locks waits_locks begin_call.run_does begin_call.run_failed run_open if_distrib
      cong: if_cong)

lemma run_if: "run_act fin metaf raw rawb p n (if b then c else c')
    = (if b then run_act fin metaf raw rawb p n c else run_act fin metaf raw rawb p n c')"
  by simp

lemma bindA_if: "bindA (if b then x else y) f = (if b then bindA x f else bindA y f)"
  by simp

lemma run_rwtx_locked:
  "run_act begin_result metaf raw rawb p (Suc (Suc (Suc (Suc (Suc (Suc n)))))) Wr_opened
    = with_guard p (begin_rwtx_locked metaf raw rawb p)"
proof -
  let ?run = "run_act begin_result metaf raw rawb p"
  let ?rel = "\<lambda>minid. bindA (readA (\<lambda>w. bindE (get_db w p) (\<lambda>d. Inr (db_freelist d)))) (\<lambda>fp.
      bindA (readA (\<lambda>w. get_freelist w fp)) (\<lambda>fl. bindA (readA (\<lambda>w. FreeList_release fl (minid - 1))) (\<lambda>fl'.
      updA (\<lambda>w. set_freelist w fp fl'))))"
  have l: "?run (Suc m) (Wr_leave (Inr t)) = with_guard p (retA t)"
    "?run (Suc m) (Wr_leave (Inl e)) = with_guard p (failA e)" for m t e
    by (simp_all add: run_leave retA_fun failA_fun)
  have "?run (Suc (Suc n)) (if minid > 0 then Wr_release t minid else Wr_leave (Inr t))
      = with_guard p (bindA (if minid > 0 then ?rel minid else retA ()) (\<lambda>_. retA t))" for t minid
    by (simp only: run_if bindA_if bindA_ret run_guarded [OF rwtx_step(6) l(1)] l(1) if_distrib [of "with_guard p"])
  note m = run_guarded [OF rwtx_step(5) this]
  note r = run_guarded [OF rwtx_step(4) m]
  note x = run_guarded [OF rwtx_step(3) r]
  note f = run_guarded [OF rwtx_step(2) l(2)]
  show ?thesis
    unfolding begin_rwtx_locked_def
  proof (rule run_guarded [OF rwtx_step(1)])
    fix d
    show "?run (Suc (Suc (Suc (Suc (Suc n))))) (if db_opened d then Wr_fail_rw else Wr_new) = with_guard p
      (if db_opened d then bindA (unlock_rw p) (\<lambda>_. failA (Throw DatabaseNotOpenException))
       else bindA (Tx_new metaf raw rawb p True) (\<lambda>t. bindA (upd_db p (\<lambda>d. d\<lparr>db_rwtx := t\<rparr>)) (\<lambda>_.
         bindA (readA (\<lambda>w. bindE (get_db w p) (\<lambda>d. min_txid w (db_txs d) 0xFFFFFFFFFFFFFFFF))) (\<lambda>minid.
         bindA (if minid > 0 then ?rel minid else retA ()) (\<lambda>_. retA t)))))"
      using f x by simp
  qed
qed

lemma run_begin_rwtx:
  "run_act begin_result metaf raw rawb p (Suc (Suc (Suc (Suc (Suc (Suc (Suc (Suc (Suc n))))))))) Wr_read_only
    = DB_begin_rwtx metaf raw rawb p"
  unfolding DB_begin_rwtx_def
  by (simp add: begin_call.run_does begin_call.run_locks waits_locks begin_call.run_failed run_rwtx_locked if_distrib
      cong: if_cong)

lemma run_ended: "run_act rollback_result metaf raw rawb p n Ended = retA ()"
  by (rule ext) (simp add: run_act_def)

lemma bindA_assoc: "bindA (bindA x f) g = bindA x (\<lambda>v. bindA (f v) g)"
  by (rule ext) (auto simp: bindA_def split: prod.splits sum.splits)

lemma bindA_unit: "bindA x (\<lambda>_. retA ()) = (x :: unit act)"
  by (rule ext) (auto simp: bindA_def split: prod.splits sum.splits)

lemma run_close:
  "run_act rollback_result metaf raw rawb p (Suc (Suc (Suc (Suc (Suc (Suc (Suc (Suc n)))))))) (Cl_start wr a)
    = Tx_close a"
  unfolding Tx_close_def
  by (simp only: rollback_call.run_does rollback_call.run_locks waits_locks run_ended run_if bindA_assoc bindA_if
      bindA_unit thread_step_run steps_left.simps zero_less_numeral)

text \<open>The database read before and after an update of the free list is the same.\<close>

lemma reread_db:
  "bindA (readA (\<lambda>w. get_db w q)) (\<lambda>d. bindA (readA (\<lambda>w. get_freelist w (db_freelist d))) (\<lambda>fl.
     bindA (updA (\<lambda>w. set_freelist w (db_freelist d) (g fl w))) (\<lambda>_. bindA (readA (\<lambda>w. get_db w q)) f)))
   = bindA (readA (\<lambda>w. get_db w q)) (\<lambda>d. bindA (readA (\<lambda>w. get_freelist w (db_freelist d))) (\<lambda>fl.
     bindA (updA (\<lambda>w. set_freelist w (db_freelist d) (g fl w))) (\<lambda>_. f d)))"
  by (rule ext) (auto simp: bindA_def split: sum.splits)

lemma run_rollback_inner:
  "run_act rollback_result metaf raw rawb p
     (Suc (Suc (Suc (Suc (Suc (Suc (Suc (Suc (Suc (Suc (Suc n))))))))))) (Rb_inner wr a) = Tx_rollback_inner metaf a"
  unfolding Tx_rollback_inner_def
  by (simp only: rollback_call.run_does run_ended run_if bindA_assoc bindA_if bindA_ret run_close thread_step_run reread_db)

lemma run_rollback:
  "run_act rollback_result metaf raw rawb p
     (Suc (Suc (Suc (Suc (Suc (Suc (Suc (Suc (Suc (Suc (Suc (Suc n)))))))))))) (Rb_start wr a) = Tx_rollback metaf a"
  unfolding Tx_rollback_def
  by (simp only: rollback_call.run_does rollback_call.run_failed run_if run_rollback_inner thread_step_run)

text \<open>
  A thread that runs alone does what the operation does as one action: \<^verbatim>\<open>begin\<close> and \<^verbatim>\<open>rollback\<close>, executed
  one statement after the other, end with the result and in the world that \<open>DB_begin\<close> and
  \<open>Tx_rollback\<close> give, whether they return, throw, or wait for a mutex (the result \<open>Block\<close>). Twelve
  statements are enough: after them the thread has left the call or waits.
\<close>

theorem thread_alone_is_atomic:
  "(case thread_run metaf raw rawb p 12 (begin_pc writable) w of (c, w') \<Rightarrow>
      DB_begin metaf raw rawb p writable w = (begin_result c, w') \<and> thread_step metaf raw rawb p c w' = None) \<and>
   (case thread_run metaf raw rawb p 12 (Rb_start wr a) v of (c, v') \<Rightarrow>
      Tx_rollback metaf a v = (rollback_result c, v') \<and> thread_step metaf raw rawb p c v' = None)"
proof
  have "run_act begin_result metaf raw rawb p 12 (begin_pc writable) = DB_begin metaf raw rawb p writable"
    using run_begin_tx [of metaf raw rawb p 2] run_begin_rwtx [of metaf raw rawb p 3]
    by (simp add: begin_pc_def DB_begin_def eval_nat_numeral)
  moreover have "steps_left (begin_pc writable) \<le> 12" by (simp add: begin_pc_def)
  ultimately show "case thread_run metaf raw rawb p 12 (begin_pc writable) w of (c, w') \<Rightarrow>
     DB_begin metaf raw rawb p writable w = (begin_result c, w') \<and> thread_step metaf raw rawb p c w' = None"
    using thread_run_stops by (auto simp: run_act_def fun_eq_iff split: prod.splits)
  have "run_act rollback_result metaf raw rawb p 12 (Rb_start wr a) = Tx_rollback metaf a"
    using run_rollback [of metaf raw rawb p 0] by (simp add: eval_nat_numeral)
  then show "case thread_run metaf raw rawb p 12 (Rb_start wr a) v of (c, v') \<Rightarrow>
     Tx_rollback metaf a v = (rollback_result c, v') \<and> thread_step metaf raw rawb p c v' = None"
    using thread_run_stops [of "Rb_start wr a" 12] by (auto simp: run_act_def fun_eq_iff split: prod.splits)
qed

end
