(* ===== verification/Schedules.thy ===== *)
theory Schedules
  imports Interleaving
begin

text \<open>
  What holds in every interleaving of threads: mutual exclusion, where accesses to shared members
  can meet, progress, and what an exception in \<^verbatim>\<open>begin_tx\<close> does to the other threads. The last part
  runs schedules of two threads on the concrete database of theory \<open>Lifecycle\<close>.
\<close>

unbundle bit_operations_syntax

section \<open>Mutual exclusion\<close>

text \<open>
  C12. Mutual exclusion, for every interleaving of \<^verbatim>\<open>begin\<close> and \<^verbatim>\<open>rollback\<close> calls of any number of threads
  that starts with all mutexes free: no two threads are inside the sections of \<^verbatim>\<open>metalock_\<close>, of
  \<^verbatim>\<open>statlock_\<close>, or between locking and unlocking \<^verbatim>\<open>rwlock_\<close>; a thread inside a section has the mutex
  locked; so at most one thread has an open writable transaction, and \<^verbatim>\<open>rwtx_\<close> points to it.
\<close>

theorem threads_exclusive:
  assumes "meta_source metaf" and "sys_start p s" and "(sys_step metaf p)\<^sup>*\<^sup>* s (T, w)"
  shows "\<exists>d. get_db w p = Inr d \<and>
    (\<forall>i j. (holds_meta (T i) \<and> holds_meta (T j) \<or> holds_stat (T i) \<and> holds_stat (T j) \<or>
       holds_rw (T i) \<and> holds_rw (T j)) \<longrightarrow> i = j) \<and>
    (\<forall>i. (holds_meta (T i) \<longrightarrow> db_metalock d) \<and> (holds_stat (T i) \<longrightarrow> sm_writer (db_statlock d)) \<and>
       (holds_rw (T i) \<longrightarrow> db_rwlock d)) \<and>
    (\<forall>i a. T i = Open True a \<longrightarrow> db_rwtx d = a \<and> db_rwlock d \<and>
       (\<exists>x. get_tx w a = Inr x \<and> tx_db x = p \<and> tx_writable x) \<and> (\<forall>j b. T j = Open True b \<longrightarrow> j = i))"
proof -
  have "sys_inv p (T, w)" using meta_source.reach_inv [OF assms(1,3) start_inv [OF assms(2)]] .
  then obtain d where d: "get_db w p = Inr d" and l: "locks_inv d T" and o: "owner_inv p T w"
    by (auto simp: sys_inv_def)
  have u: "H (T i) \<Longrightarrow> H (T j) \<Longrightarrow> i = j" if "H = holds_meta \<or> H = holds_stat \<or> H = holds_rw" for H i j
    using l that by (auto simp: locks_inv_def lock_inv_def)
  have op: "db_rwtx d = a \<and> db_rwlock d \<and> (\<exists>x. get_tx w a = Inr x \<and> tx_db x = p \<and> tx_writable x) \<and>
      (\<forall>j b. T j = Open True b \<longrightarrow> j = i)" if "T i = Open True a" for i a
  proof (intro conjI allI impI)
    show "db_rwtx d = a" "db_rwlock d" using locks_inv_holds [OF l, of i] that by (auto simp: holds_ok_def)
    have "thread_ok p w (T i)" using o by (simp add: owner_inv_def)
    then show "\<exists>x. get_tx w a = Inr x \<and> tx_db x = p \<and> tx_writable x" using that by (auto simp: thread_ok_def get_defs)
    show "j = i" if "T j = Open True b" for j b using u [of holds_rw j i] \<open>T i = Open True a\<close> that by simp
  qed
  show ?thesis
    using d u op locks_inv_holds [OF l] by (intro exI [of _ d]) (auto simp: holds_ok_def)
qed

section \<open>Accesses to shared members\<close>

text \<open>
  The members several threads use: \<^verbatim>\<open>txs_\<close>, \<^verbatim>\<open>rwtx_\<close>, \<^verbatim>\<open>freelist_\<close> and \<^verbatim>\<open>stats_\<close> of the database, and the
  meta record of each transaction, which \<^verbatim>\<open>begin_rwtx\<close> reads for all of \<^verbatim>\<open>txs_\<close> and \<^verbatim>\<open>close\<close> deletes.
  \<^verbatim>\<open>opened_\<close> and \<^verbatim>\<open>read_only_\<close> are only read. Two statements conflict when one writes what the other
  reads or writes.
\<close>

datatype shared = S_txs | S_rwtx | S_freelist | S_stats | S_meta addr

fun writes :: "pc \<Rightarrow> shared set" where
  "writes (Rd_push t) = {S_txs}"
| "writes (Rd_stats t) = {S_stats}"
| "writes (Wr_rwtx t) = {S_rwtx}"
| "writes (Wr_release t m) = {S_freelist}"
| "writes (Rb_rollback a t) = {S_freelist}"
| "writes (Rb_reload a t) = {S_freelist}"
| "writes (Cl_rwtx a t fl) = {S_rwtx}"
| "writes (Cl_stats a t fl) = {S_stats}"
| "writes (Cl_clear wr a t) = {S_meta a}"
| "writes c = {}"

fun reads :: "DB \<Rightarrow> pc \<Rightarrow> shared set" where
  "reads d (Rd_push t) = {S_txs}"
| "reads d (Rd_stats t) = {S_stats, S_txs}"
| "reads d (Wr_minid t) = {S_txs} \<union> S_meta ` set (db_txs d)"
| "reads d (Wr_release t m) = {S_freelist}"
| "reads d (Rb_rollback a t) = {S_freelist, S_meta a}"
| "reads d (Rb_reload a t) = {S_freelist}"
| "reads d (Cl_counts a t) = {S_freelist}"
| "reads d (Cl_stats a t fl) = {S_stats}"
| "reads d c = {}"

definition conflict :: "DB \<Rightarrow> pc \<Rightarrow> pc \<Rightarrow> bool" where
  "conflict d c c' \<longleftrightarrow> writes c \<inter> (reads d c' \<union> writes c') \<noteq> {}"

text \<open>What protects each member.\<close>

lemma access_protected:
  assumes "v \<in> reads d c \<union> writes c"
  shows "case v of S_txs \<Rightarrow> holds_meta c \<or> (\<exists>u. c = Rd_stats u) | S_rwtx \<Rightarrow> holds_rw c | S_freelist \<Rightarrow> holds_rw c
    | S_stats \<Rightarrow> holds_stat c | S_meta a \<Rightarrow> (\<exists>wr. owned c = Some (a, wr)) \<or> (\<exists>u. c = Wr_minid u) \<and> a \<in> set (db_txs d)"
  using assms by (cases c) auto

lemma write_protected:
  assumes "v \<in> writes c"
  shows "case v of S_txs \<Rightarrow> \<exists>t. c = Rd_push t | S_rwtx \<Rightarrow> holds_rw c | S_freelist \<Rightarrow> holds_rw c
    | S_stats \<Rightarrow> holds_stat c | S_meta a \<Rightarrow> \<exists>wr t. c = Cl_clear wr a t"
  using assms by (cases c) auto

text \<open>
  C16. In every interleaving two different threads are at conflicting statements in two situations only:
  one appends to \<^verbatim>\<open>txs_\<close> (under \<^verbatim>\<open>metalock_\<close>) while the other, in \<^verbatim>\<open>begin_tx\<close>, reads \<^verbatim>\<open>txs_.size()\<close> (under
  \<^verbatim>\<open>statlock_\<close>); or one deletes the meta record of its transaction, which is still in \<^verbatim>\<open>txs_\<close>, while
  the other runs the loop of \<^verbatim>\<open>begin_rwtx\<close> over \<^verbatim>\<open>txs_\<close>. The free list, \<^verbatim>\<open>rwtx_\<close> and the statistics are
  never accessed by two threads at once.
\<close>

theorem threads_races:
  assumes "meta_source metaf" and "sys_start p s" and "(sys_step metaf p)\<^sup>*\<^sup>* s (T, w)"
    and "get_db w p = Inr d" and "i \<noteq> j" and "conflict d (T i) (T j)"
  shows "(\<exists>t u. T i = Rd_push t \<and> T j = Rd_stats u) \<or>
    (\<exists>wr a t u. T i = Cl_clear wr a t \<and> T j = Wr_minid u \<and> a \<in> set (db_txs d))"
proof -
  have "sys_inv p (T, w)" using meta_source.reach_inv [OF assms(1,3) start_inv [OF assms(2)]] .
  then have l: "locks_inv d T" and o: "owner_inv p T w" using assms(4) by (auto simp: sys_inv_def)
  have ex: "\<not> (holds_meta (T i) \<and> holds_meta (T j))" "\<not> (holds_stat (T i) \<and> holds_stat (T j))"
    "\<not> (holds_rw (T i) \<and> holds_rw (T j))" using l assms(5) by (auto simp: locks_inv_def lock_inv_def)
  have ow: "owned (T i) = Some (a, wr) \<Longrightarrow> owned (T j) \<noteq> Some (a, wr')" for a wr wr'
    using o assms(5) by (auto simp: owner_inv_def)
  from assms(6) obtain v where v: "v \<in> writes (T i)" "v \<in> reads d (T j) \<union> writes (T j)" by (auto simp: conflict_def)
  note W = write_protected [OF v(1)] and R = access_protected [OF v(2)]
  show ?thesis
  proof (cases v)
    case S_txs
    with W R ex(1) show ?thesis by auto
  next
    case (S_meta a)
    with W obtain wr t where "T i = Cl_clear wr a t" by auto
    with R ow [of a wr] S_meta show ?thesis by auto
  qed (use W R ex in auto)
qed

section \<open>Progress\<close>

text \<open>A thread inside a call is stopped only by a mutex that is locked.\<close>

lemma stopped_waits:
  assumes "thread_step metaf raw rawb p c w = None" and "get_db w p = Inr d" and "thread_ok p w c" and "\<not> resting c"
    and "sm_readers (db_statlock d) = 0" and "\<not> sm_writer (db_mmaplock d)"
  shows "(c = Rd_lock_meta \<or> c = Wr_lock_meta) \<and> db_metalock d \<or> c = Wr_lock_rw \<and> db_rwlock d \<or>
    ((\<exists>t. c = Rd_lock_stat t) \<or> (\<exists>a t fl. c = Cl_lock_stat a t fl)) \<and> sm_writer (db_statlock d)"
  using assms carried_db [OF assms(3)]
  by (cases c) (auto simp: resting_def step_defs lock_runs split: prod.splits sum.splits if_splits)

text \<open>
  C15. No deadlock: in every interleaving in which no thread has thrown, whenever a thread is inside a
  call some thread can execute a statement, unless a thread keeps a writable transaction open
  between calls. And every statement executed brings its thread closer to the end of the call,
  which is at most twelve statements away.
\<close>

theorem threads_progress:
  assumes "meta_source metaf" and "sys_start p s" and "(sys_step metaf p)\<^sup>*\<^sup>* s (T, w)"
    and "\<forall>j. \<not> failed (T j)" and "\<forall>j a. T j \<noteq> Open True a" and "\<not> resting (T i)"
  shows "\<exists>j c w'. \<not> resting (T j) \<and> thread_step metaf raw rawb p (T j) w = Some (c, w') \<and>
    steps_left c < steps_left (T j) \<and> steps_left (T j) \<le> 12"
proof -
  have "sys_inv p (T, w)" using meta_source.reach_inv [OF assms(1,3) start_inv [OF assms(2)]] .
  then obtain d where d: "get_db w p = Inr d" and l: "locks_inv d T" and o: "owner_inv p T w" by (auto simp: sys_inv_def)
  have st: "sm_readers (db_statlock d) = 0" "\<not> sm_writer (db_mmaplock d)" using l by (auto simp: locks_inv_def)
  have ok: "thread_ok p w (T j)" for j using o by (simp add: owner_inv_def)
  have holder: "db_metalock d \<Longrightarrow> \<exists>j. holds_meta (T j)" "sm_writer (db_statlock d) \<Longrightarrow> \<exists>j. holds_stat (T j)"
    "db_rwlock d \<Longrightarrow> \<exists>j. holds_rw (T j)" using l assms(4) by (auto simp: locks_inv_def lock_inv_def)
  note wt = stopped_waits [OF _ d ok _ st]
  have "\<exists>j. \<not> resting (T j) \<and> thread_step metaf raw rawb p (T j) w \<noteq> None"
  proof (rule ccontr)
    assume n: "\<not> ?thesis"
    have stop: "(T j = Rd_lock_meta \<or> T j = Wr_lock_meta) \<and> db_metalock d \<or> T j = Wr_lock_rw \<and> db_rwlock d \<or>
      ((\<exists>t. T j = Rd_lock_stat t) \<or> (\<exists>a t fl. T j = Cl_lock_stat a t fl)) \<and> sm_writer (db_statlock d)"
      if "\<not> resting (T j)" for j using n wt that by blast
    have "\<not> holds_stat (T j)" for j using stop [of j] by (cases "T j") (auto simp: resting_def)
    then have stat: "\<not> sm_writer (db_statlock d)" using holder by blast
    have "\<not> holds_meta (T j)" for j using stop [of j] by (cases "T j") (auto simp: resting_def)
    then have meta: "\<not> db_metalock d" using holder by blast
    have "\<not> holds_rw (T j)" for j using stop [of j] stat meta assms(5) by (cases "T j") (auto simp: resting_def)
    then have "\<not> db_rwlock d" using holder by blast
    then show False using stop [OF assms(6)] stat meta by auto
  qed
  then obtain j c w' where j: "\<not> resting (T j)" "thread_step metaf raw rawb p (T j) w = Some (c, w')" by auto
  have "steps_left (T j) \<le> 12" by (cases "T j") simp_all
  then show ?thesis using j steps_left_dec [OF j(2)] by blast
qed

section \<open>A mutex that is never unlocked\<close>

text \<open>Once \<^verbatim>\<open>metalock_\<close> is locked and no thread holds it, it stays so.\<close>

definition meta_lost :: "addr \<Rightarrow> addr list \<Rightarrow> sys \<Rightarrow> bool" where
  "meta_lost p xs s \<longleftrightarrow> (case s of (T, w) \<Rightarrow>
     \<exists>d. get_db w p = Inr d \<and> db_metalock d \<and> db_txs d = xs \<and> (\<forall>j. \<not> holds_meta (T j)))"

context meta_source
begin

lemma meta_lost_step:
  assumes "sys_step metaf p s s'" and "sys_inv p s" and "meta_lost p xs s"
  shows "meta_lost p xs s'"
  using assms
proof (induction rule: sys_step.induct)
  case (move raw rawb T i w c w')
  obtain d where p: "p \<noteq> 0" and d: "get_db w p = Inr d" and l: "locks_inv d T" and o: "owner_inv p T w"
    and m: "db_metalock d" "db_txs d = xs" "\<forall>j. \<not> holds_meta (T j)"
    using move.prems by (auto simp: sys_inv_def meta_lost_def)
  have ok: "thread_ok p w (T i)" using o by (simp add: owner_inv_def)
  obtain d' where "get_db w' p = Inr d'" and ch: "locks_change d (T i) d' c"
    using step_locks [OF move.hyps d ok p locks_inv_holds [OF l]] by blast
  moreover have "db_metalock d'" "\<not> holds_meta c" "db_txs d' = xs"
    using ch m by (auto simp: locks_change_def lock_change_def)
  ultimately show ?case using m(3) by (auto simp: meta_lost_def)
next
  case (call_begin T i w writable)
  then show ?case by (auto simp: meta_lost_def begin_pc_def)
next
  case (call_rollback T i wr a w)
  then show ?case by (auto simp: meta_lost_def)
qed

lemma meta_lost_reach:
  assumes "(sys_step metaf p)\<^sup>*\<^sup>* s s'" and "sys_inv p s" and "meta_lost p xs s"
  shows "meta_lost p xs s'"
proof -
  have "sys_inv p s' \<and> meta_lost p xs s'"
    using assms by (induction rule: rtranclp_induct) (auto intro: sys_step_inv meta_lost_step)
  then show ?thesis by simp
qed

end

text \<open>
  C31. \<^verbatim>\<open>begin_tx\<close> locks \<^verbatim>\<open>metalock_\<close> by hand: when the construction of the transaction throws (for want of
  memory, say), the mutex stays locked although no thread is in its section. From then on, in
  every interleaving, no thread enters the section again: each \<^verbatim>\<open>begin\<close> waits forever at the mutex,
  for reading as for writing, and no transaction is ever added to \<^verbatim>\<open>txs_\<close>.
\<close>

theorem begin_tx_throw_locks_out:
  assumes "meta_source metaf" and "sys_start p s" and "(sys_step metaf p)\<^sup>*\<^sup>* s (T, w)" and "get_db w p = Inr d"
    and "T i = Rd_new" and "Tx_new metaf raw rawb p False w = (Inl e, w1)"
    and "(sys_step metaf p)\<^sup>*\<^sup>* (T(i := Failed e), w1) (T', w')"
  shows "sys_step metaf p (T, w) (T(i := Failed e), w1) \<and>
    (\<exists>d'. get_db w' p = Inr d' \<and> db_metalock d' \<and> db_txs d' = db_txs d) \<and> (\<forall>j. \<not> holds_meta (T' j)) \<and>
    (\<forall>j raw' rawb'. T' j = Rd_lock_meta \<or> T' j = Wr_lock_meta \<longrightarrow> thread_step metaf raw' rawb' p (T' j) w' = None)"
proof -
  have st: "sys_step metaf p (T, w) (T(i := Failed e), w1)"
    using assms(5,6) by (intro sys_step.move [where raw = raw and rawb = rawb]) (simp add: does_def)
  have inv: "sys_inv p (T, w)" using meta_source.reach_inv [OF assms(1,3) start_inv [OF assms(2)]] .
  then have l: "locks_inv d T" using assms(4) by (auto simp: sys_inv_def)
  have "get_db w1 p = Inr d" using assms(4) meta_source.Tx_new_Inl(1) [OF assms(1,6)] by (simp add: get_defs)
  moreover have "db_metalock d" using locks_inv_holds [OF l, of i] assms(5) by (simp add: holds_ok_def)
  moreover have "\<not> holds_meta (T j)" if "j \<noteq> i" for j
    using l assms(5) that unfolding locks_inv_def lock_inv_def by (metis holds_meta.simps(5))
  ultimately have "meta_lost p (db_txs d) (T(i := Failed e), w1)" by (auto simp: meta_lost_def)
  from meta_source.meta_lost_reach [OF assms(1,7) meta_source.sys_step_inv [OF assms(1) st inv] this]
  show ?thesis using st by (auto simp: meta_lost_def step_defs lock_runs)
qed

section \<open>Schedules of the concrete database\<close>

lemma run_reach:
  "thread_run metaf raw rawb p n (T i) w = (c, w') \<Longrightarrow> (sys_step metaf p)\<^sup>*\<^sup>* (T, w) (T(i := c), w')"
proof (induction n arbitrary: T w)
  case (Suc n)
  show ?case
  proof (cases "thread_step metaf raw rawb p (T i) w")
    case (Some x)
    then obtain c1 w1 where s: "thread_step metaf raw rawb p (T i) w = Some (c1, w1)" by (cases x) simp
    then have "thread_run metaf raw rawb p n ((T(i := c1)) i) w1 = (c, w')" using Suc.prems by simp
    from Suc.IH [of "T(i := c1)", OF this] have "(sys_step metaf p)\<^sup>*\<^sup>* (T(i := c1), w1) (T(i := c), w')" by (simp only: fun_upd_upd)
    then show ?thesis by (rule converse_rtranclp_into_rtranclp [where r = "sys_step metaf p", OF sys_step.move [where T = T and i = i, OF s]])
  next
    case None
    then have "c = T i" "w' = w" using Suc.prems by simp_all
    then show ?thesis by (simp only: fun_upd_triv rtranclp.rtrancl_refl)
  qed
next
  case 0
  then have "c = T i" "w' = w" by simp_all
  then show ?case by (simp only: fun_upd_triv rtranclp.rtrancl_refl)
qed


abbreviation life_run where "life_run \<equiv> thread_run (retA 512) life_tx life_bucket 64"

text \<open>A database in a state in which a transaction can be constructed.\<close>

definition life_ready :: "world \<Rightarrow> DB \<Rightarrow> addr \<Rightarrow> addr list \<Rightarrow> bool" where
  "life_ready w d t fs \<longleftrightarrow> get_db w 64 = Inr d \<and> \<not> db_metalock d \<and> \<not> sm_writer (db_mmaplock d) \<and> \<not> db_opened d \<and>
     Meta_root (w_mem w) 512 \<noteq> 0 \<and> w_fresh w = t # (t + 100) # (t + 200) # fs"

lemma Meta_root_kept:
  assumes "\<And>x. x \<notin> region b 56 \<Longrightarrow> m' x = m x" and "region b 56 \<inter> region 528 8 = {}"
  shows "Meta_root m' 512 = Meta_root m 512"
  unfolding Meta_root_def using assms by (intro u64.load_cong) auto

lemma life_reader_new:
  assumes "life_ready w d t fs" and "region (t + 100) 56 \<inter> region 528 8 = {}"
  obtains w1 x where "life_run 4 Rd_lock_meta w = (Rd_push t, w1)"
    and "get_db w1 64 = Inr (d\<lparr>db_metalock := True, db_mmaplock := (db_mmaplock d)\<lparr>sm_readers := sm_readers (db_mmaplock d) + 1\<rparr>\<rparr>)"
    and "w_fresh w1 = fs" and "Meta_root (w_mem w1) 512 \<noteq> 0"
    and "get_tx w1 t = Inr x" and "tx_db x = 64" and "\<not> tx_writable x" and "\<not> tx_managed x"
    and "\<forall>r. r \<noteq> t \<longrightarrow> get_tx w1 r = get_tx w r" and "w_freelists w1 = w_freelists w"
proof -
  let ?d = "d\<lparr>db_metalock := True, db_mmaplock := (db_mmaplock d)\<lparr>sm_readers := sm_readers (db_mmaplock d) + 1\<rparr>\<rparr>"
  let ?w = "set_db w 64 ?d"
  have r: "get_db w 64 = Inr d" "\<not> db_metalock d" "\<not> sm_writer (db_mmaplock d)" "\<not> db_opened d"
    "Meta_root (w_mem ?w) 512 \<noteq> 0" "w_fresh ?w = t # (t + 100) # (t + 200) # fs"
    using assms(1) by (simp_all add: life_ready_def)
  from life_new_at [OF r(5,6), of False] obtain w1 where
    n: "Tx_new (retA 512) life_tx life_bucket 64 False ?w = (Inr t, w1)" and w1: "w_dbs w1 = w_dbs ?w" "w_fresh w1 = fs"
      "w_freelists w1 = w_freelists ?w"
    and x: "\<exists>x. w_txs w1 t = Some x \<and> tx_db x = 64 \<and> \<not> tx_writable x \<and> \<not> tx_managed x"
    and o: "\<And>r. r \<noteq> t \<Longrightarrow> w_txs w1 r = w_txs ?w r" and m: "\<And>x. x \<notin> region (t + 100) 56 \<Longrightarrow> w_mem w1 x = w_mem ?w x"
    by auto
  have run: "life_run 4 Rd_lock_meta w = (Rd_push t, w1)"
    using r n by (simp add: eval_nat_numeral step_defs lock_runs)
  have "Meta_root (w_mem w1) 512 \<noteq> 0" using Meta_root_kept [OF m assms(2)] r(5) by simp
  moreover have "get_db w1 64 = Inr ?d" using w1(1) by (simp add: get_defs set_db_def)
  moreover have "\<forall>r. r \<noteq> t \<longrightarrow> get_tx w1 r = get_tx w r" using o by (simp add: get_defs deref_def)
  moreover obtain x where "get_tx w1 t = Inr x" "tx_db x = 64" "\<not> tx_writable x" "\<not> tx_managed x" using x by (auto simp: get_defs)
  ultimately show thesis using that [OF run] w1 by simp
qed

lemma life_ready_start: "life_ready life_world life_db 1000 [1300, 1400, 1500, 1600, 1700]"
  using life_meta(1) by (simp add: life_ready_def life_world_def life_db_def get_defs)

lemma life_start: "sys_start 64 (\<lambda>_. Idle, life_world)"
  by (auto simp: sys_start_def life_world_def life_db_def get_defs)

text \<open>Two threads; the others have not started.\<close>

definition two :: "pc \<Rightarrow> pc \<Rightarrow> nat \<Rightarrow> pc" where
  "two c c' i = (if i = 0 then c else if i = 1 then c' else Idle)"

lemma two_upd: "(two c c')(0 := b) = two b c'" "(two c c')(1 := b) = two c b" "two Idle Idle = (\<lambda>_. Idle)"
  by (auto simp: two_def)

lemma two_run:
  assumes "(sys_step metaf p)\<^sup>*\<^sup>* s (two c c', w)"
  shows "thread_run metaf raw rawb p n c w = (b, w') \<Longrightarrow> (sys_step metaf p)\<^sup>*\<^sup>* s (two b c', w')"
    and "thread_run metaf raw rawb p n c' w = (b, w') \<Longrightarrow> (sys_step metaf p)\<^sup>*\<^sup>* s (two c b, w')"
  using assms run_reach [of metaf raw rawb p n "two c c'" 0 w b w'] run_reach [of metaf raw rawb p n "two c c'" 1 w b w']
  by (simp_all only: two_upd) (auto simp: two_def intro: rtranclp_trans)

lemma two_call:
  assumes "(sys_step metaf p)\<^sup>*\<^sup>* s (two c c', w)"
  shows "c = Idle \<Longrightarrow> (sys_step metaf p)\<^sup>*\<^sup>* s (two (begin_pc wr) c', w)"
    and "c' = Idle \<Longrightarrow> (sys_step metaf p)\<^sup>*\<^sup>* s (two c (begin_pc wr), w)"
    and "c = Open b a \<Longrightarrow> (sys_step metaf p)\<^sup>*\<^sup>* s (two (Rb_start b a) c', w)"
  using assms sys_step.call_begin [of "two c c'" 0 metaf p w wr] sys_step.call_begin [of "two c c'" 1 metaf p w wr]
    sys_step.call_rollback [of "two c c'" 0 b a metaf p w]
  by (simp_all only: two_upd) (auto simp: two_def intro: rtranclp.rtrancl_into_rtrancl)

lemma life_regions: "region (1000 + 100 :: addr) 56 \<inter> region 528 8 = {}" "region (1300 + 100 :: addr) 56 \<inter> region 528 8 = {}"
  by (simp_all add: region_disjointI)

text \<open>
  Thread 0 has pushed its transaction and is about to update the statistics; thread 1 has
  constructed the next transaction and is about to push it.
\<close>

lemma life_push_stats:
  "\<exists>w d. (sys_step (retA 512) 64)\<^sup>*\<^sup>* (\<lambda>_. Idle, life_world) (two (Rd_stats 1000) (Rd_push 1300), w) \<and> get_db w 64 = Inr d"
proof -
  let ?R = "(sys_step (retA 512) 64)\<^sup>*\<^sup>* (\<lambda>_. Idle, life_world)"
  have r0: "?R (two Rd_lock_meta Idle, life_world)"
    using two_call(1) [of _ _ _ Idle Idle life_world False] by (simp add: begin_pc_def two_upd)
  let ?d = "life_db\<lparr>db_metalock := True, db_mmaplock := (db_mmaplock life_db)\<lparr>sm_readers := sm_readers (db_mmaplock life_db) + 1\<rparr>\<rparr>"
  obtain w1 where c1: "life_run 4 Rd_lock_meta life_world = (Rd_push 1000, w1)" and d1: "get_db w1 64 = Inr ?d"
    and f1: "w_fresh w1 = [1300, 1400, 1500, 1600, 1700]" and m1: "Meta_root (w_mem w1) 512 \<noteq> 0"
    using life_reader_new [OF life_ready_start life_regions(1)] by blast
  let ?e = "?d\<lparr>db_txs := [1000], db_metalock := False, db_statlock := (db_statlock life_db)\<lparr>sm_writer := True\<rparr>\<rparr>"
  have c2: "life_run 3 (Rd_push 1000) w1 = (Rd_stats 1000, set_db w1 64 ?e)"
    using d1 by (simp add: eval_nat_numeral step_defs lock_runs life_db_def)
  have "life_ready (set_db w1 64 ?e) ?e 1300 [1600, 1700]" using f1 m1 by (simp add: life_ready_def life_db_def)
  from life_reader_new [OF this life_regions(2)] obtain w3 d3 where
    c3: "life_run 4 Rd_lock_meta (set_db w1 64 ?e) = (Rd_push 1300, w3)" and d3: "get_db w3 64 = Inr d3" by blast
  have "?R (two (Rd_stats 1000) Idle, set_db w1 64 ?e)" by (rule two_run(1) [OF two_run(1) [OF r0 c1] c2])
  then have "?R (two (Rd_stats 1000) (begin_pc False), set_db w1 64 ?e)" by (rule two_call(2)) simp
  then have "?R (two (Rd_stats 1000) Rd_lock_meta, set_db w1 64 ?e)" by (simp only: begin_pc_def if_False)
  then have "?R (two (Rd_stats 1000) (Rd_push 1300), w3)" by (rule two_run(2)) (rule c3)
  then show ?thesis using d3 by blast
qed

text \<open>
  Thread 0 has begun and rolled back a read transaction and is about to delete its meta record;
  thread 1 is in the loop of \<^verbatim>\<open>begin_rwtx\<close> that reads the meta records of \<^verbatim>\<open>txs_\<close>.
\<close>

lemma life_writer_new:
  assumes "life_ready w d t fs" and "\<not> db_read_only d" and "\<not> db_rwlock d"
  obtains w1 where "life_run 6 Wr_read_only w = (Wr_minid t, w1)"
    and "get_db w1 64 = Inr (d\<lparr>db_rwlock := True, db_metalock := True, db_rwtx := t\<rparr>)"
proof -
  let ?d = "d\<lparr>db_rwlock := True, db_metalock := True\<rparr>"
  let ?w = "set_db w 64 ?d"
  have r: "get_db w 64 = Inr d" "\<not> db_metalock d" "\<not> db_opened d"
    "Meta_root (w_mem ?w) 512 \<noteq> 0" "w_fresh ?w = t # (t + 100) # (t + 200) # fs"
    using assms(1) by (simp_all add: life_ready_def)
  from life_new_at [OF r(4,5), of True] obtain w1 where
    n: "Tx_new (retA 512) life_tx life_bucket 64 True ?w = (Inr t, w1)" and w1: "w_dbs w1 = w_dbs ?w" by auto
  have d1: "get_db w1 64 = Inr ?d" using w1 by (simp add: get_defs set_db_def)
  have "life_run 6 Wr_read_only w = (Wr_minid t, set_db w1 64 (?d\<lparr>db_rwtx := t\<rparr>))"
    using r n d1 assms(2,3) by (simp add: eval_nat_numeral step_defs lock_runs)
  then show thesis by (rule that) simp
qed

lemma life_clear_minid:
  "\<exists>x w d. (sys_step (retA 512) 64)\<^sup>*\<^sup>* (\<lambda>_. Idle, life_world) (two (Cl_clear False 1000 x) (Wr_minid 1300), w) \<and>
    get_db w 64 = Inr d \<and> db_txs d = [1000]"
proof -
  let ?R = "(sys_step (retA 512) 64)\<^sup>*\<^sup>* (\<lambda>_. Idle, life_world)"
  have r0: "?R (two Rd_lock_meta Idle, life_world)"
    using two_call(1) [of _ _ _ Idle Idle life_world False] by (simp add: begin_pc_def two_upd)
  let ?d = "life_db\<lparr>db_metalock := True, db_mmaplock := (db_mmaplock life_db)\<lparr>sm_readers := sm_readers (db_mmaplock life_db) + 1\<rparr>\<rparr>"
  obtain w1 x where c1: "life_run 4 Rd_lock_meta life_world = (Rd_push 1000, w1)" and d1: "get_db w1 64 = Inr ?d"
    and f1: "w_fresh w1 = [1300, 1400, 1500, 1600, 1700]" and m1: "Meta_root (w_mem w1) 512 \<noteq> 0"
    and x: "get_tx w1 1000 = Inr x" "tx_db x = 64" "\<not> tx_writable x" "\<not> tx_managed x"
    using life_reader_new [OF life_ready_start life_regions(1)] by blast
  let ?e = "?d\<lparr>db_txs := [1000], db_metalock := False, db_statlock := (db_statlock life_db)\<lparr>sm_writer := False\<rparr>,
     db_stats := (db_stats life_db)\<lparr>tx_n := 1, open_tx_n := int_of_size 1\<rparr>\<rparr>"
  let ?w = "set_db w1 64 ?e"
  have c2: "life_run 6 (Rd_push 1000) w1 = (Open False 1000, ?w)"
    using d1 by (simp add: eval_nat_numeral step_defs lock_runs life_db_def)
  have "tx_db x \<noteq> 0" using x(2) by simp
  then have c3: "life_run 4 (Rb_start False 1000) ?w = (Cl_clear False 1000 x, ?w)"
    using x(1,3,4) by (simp add: eval_nat_numeral step_defs DB_remove_tx_def)
  have "life_ready ?w ?e 1300 [1600, 1700]" "\<not> db_read_only ?e" "\<not> db_rwlock ?e"
    using f1 m1 by (simp_all add: life_ready_def life_db_def)
  from life_writer_new [OF this] obtain w2 where c4: "life_run 6 Wr_read_only ?w = (Wr_minid 1300, w2)"
    and d2: "get_db w2 64 = Inr (?e\<lparr>db_rwlock := True, db_metalock := True, db_rwtx := 1300\<rparr>)" by blast
  have "?R (two (Open False 1000) Idle, ?w)" by (rule two_run(1) [OF two_run(1) [OF r0 c1] c2])
  then have "?R (two (Rb_start False 1000) Idle, ?w)" by (rule two_call(3)) simp
  then have "?R (two (Cl_clear False 1000 x) Idle, ?w)" by (rule two_run(1)) (rule c3)
  then have "?R (two (Cl_clear False 1000 x) (begin_pc True), ?w)" by (rule two_call(2)) simp
  then have "?R (two (Cl_clear False 1000 x) Wr_read_only, ?w)" by (simp only: begin_pc_def if_True)
  then have "?R (two (Cl_clear False 1000 x) (Wr_minid 1300), w2)" by (rule two_run(2)) (rule c4)
  moreover have "db_txs (?e\<lparr>db_rwlock := True, db_metalock := True, db_rwtx := 1300\<rparr>) = [1000]" by simp
  ultimately show ?thesis using d2 by blast
qed

text \<open>
  Both situations of conflicting accesses occur without any exception, once transactions can be
  constructed (here from a stored meta record). In one, thread 1
  is about to append to \<^verbatim>\<open>txs_\<close> while thread 0 is about to read its size in \<^verbatim>\<open>begin_tx\<close>; in the other,
  thread 0 is about to delete the meta record of a transaction it has rolled back while thread 1
  is in the loop of \<^verbatim>\<open>begin_rwtx\<close> that reads this record through \<^verbatim>\<open>txs_\<close>.
\<close>

theorem races_reachable:
  "(\<exists>T w d. (sys_step (retA 512) 64)\<^sup>*\<^sup>* (\<lambda>_. Idle, life_world) (T, w) \<and> get_db w 64 = Inr d \<and>
      T 0 = Rd_stats 1000 \<and> T 1 = Rd_push 1300 \<and> conflict d (T 1) (T 0)) \<and>
   (\<exists>T w d x. (sys_step (retA 512) 64)\<^sup>*\<^sup>* (\<lambda>_. Idle, life_world) (T, w) \<and> get_db w 64 = Inr d \<and>
      T 0 = Cl_clear False 1000 x \<and> T 1 = Wr_minid 1300 \<and> conflict d (T 0) (T 1))"
proof (rule conjI)
  obtain w d where "(sys_step (retA 512) 64)\<^sup>*\<^sup>* (\<lambda>_. Idle, life_world) (two (Rd_stats 1000) (Rd_push 1300), w)" "get_db w 64 = Inr d"
    using life_push_stats by blast
  then show "\<exists>T w d. (sys_step (retA 512) 64)\<^sup>*\<^sup>* (\<lambda>_. Idle, life_world) (T, w) \<and> get_db w 64 = Inr d \<and>
      T 0 = Rd_stats 1000 \<and> T 1 = Rd_push 1300 \<and> conflict d (T 1) (T 0)"
    by (intro exI [of _ "two (Rd_stats 1000) (Rd_push 1300)"] exI [of _ w] exI [of _ d]) (simp add: two_def conflict_def)
  obtain x w d where "(sys_step (retA 512) 64)\<^sup>*\<^sup>* (\<lambda>_. Idle, life_world) (two (Cl_clear False 1000 x) (Wr_minid 1300), w)"
    "get_db w 64 = Inr d" "db_txs d = [1000]" using life_clear_minid by blast
  then show "\<exists>T w d x. (sys_step (retA 512) 64)\<^sup>*\<^sup>* (\<lambda>_. Idle, life_world) (T, w) \<and> get_db w 64 = Inr d \<and>
      T 0 = Cl_clear False 1000 x \<and> T 1 = Wr_minid 1300 \<and> conflict d (T 0) (T 1)"
    by (intro exI [of _ "two (Cl_clear False 1000 x) (Wr_minid 1300)"] exI [of _ w] exI [of _ d] exI [of _ x])
      (simp add: two_def conflict_def)
qed

section \<open>Instances\<close>

theorem threads_exclusive_witness:
  "\<exists>w d. (sys_step (retA 512) 64)\<^sup>*\<^sup>* (\<lambda>_. Idle, life_world) (two (Rd_stats 1000) (Rd_push 1300), w) \<and>
    get_db w 64 = Inr d \<and> db_metalock d \<and> sm_writer (db_statlock d)"
proof -
  obtain w where r: "(sys_step (retA 512) 64)\<^sup>*\<^sup>* (\<lambda>_. Idle, life_world) (two (Rd_stats 1000) (Rd_push 1300), w)"
    using life_push_stats by blast
  have "holds_stat (two (Rd_stats 1000) (Rd_push 1300) 0)" "holds_meta (two (Rd_stats 1000) (Rd_push 1300) 1)"
    by (simp_all add: two_def)
  then show ?thesis using threads_exclusive [OF stored_meta.meta_source_axioms life_start r] r by blast
qed

theorem threads_races_witness:
  "\<exists>w. (sys_step (retA 512) 64)\<^sup>*\<^sup>* (\<lambda>_. Idle, life_world) (two (Rd_stats 1000) (Rd_push 1300), w) \<and>
    (\<exists>t u. two (Rd_stats 1000) (Rd_push 1300) 1 = Rd_push t \<and> two (Rd_stats 1000) (Rd_push 1300) 0 = Rd_stats u)"
proof -
  let ?T = "two (Rd_stats 1000) (Rd_push 1300)"
  obtain w d where r: "(sys_step (retA 512) 64)\<^sup>*\<^sup>* (\<lambda>_. Idle, life_world) (?T, w)" and d: "get_db w 64 = Inr d"
    using life_push_stats by blast
  have "conflict d (?T 1) (?T 0)" "?T 1 \<noteq> Cl_clear wr a t" for wr a t by (simp_all add: two_def conflict_def)
  then show ?thesis
    using threads_races [OF stored_meta.meta_source_axioms life_start r d, of 1 0] r by auto
qed

theorem threads_progress_witness:
  "\<exists>w j c w'. (sys_step (retA 512) 64)\<^sup>*\<^sup>* (\<lambda>_. Idle, life_world) (two (Rd_stats 1000) (Rd_push 1300), w) \<and>
    thread_step (retA 512) life_tx life_bucket 64 (two (Rd_stats 1000) (Rd_push 1300) j) w = Some (c, w')"
proof -
  obtain w where r: "(sys_step (retA 512) 64)\<^sup>*\<^sup>* (\<lambda>_. Idle, life_world) (two (Rd_stats 1000) (Rd_push 1300), w)"
    using life_push_stats by blast
  have "\<forall>j. \<not> failed (two (Rd_stats 1000) (Rd_push 1300) j)" "\<forall>j a. two (Rd_stats 1000) (Rd_push 1300) j \<noteq> Open True a"
    "\<not> resting (two (Rd_stats 1000) (Rd_push 1300) 0)" by (simp_all add: two_def resting_def)
  from threads_progress [OF stored_meta.meta_source_axioms life_start r this, of life_tx life_bucket] r
  show ?thesis by blast
qed

text \<open>The concrete database without any memory left: thread 0 fails, and thread 1 waits.\<close>

theorem begin_tx_throw_locks_out_witness:
  "\<exists>w' d'. (sys_step (retA 512) 64)\<^sup>*\<^sup>* (\<lambda>_. Idle, life_world\<lparr>w_fresh := []\<rparr>)
      (two (Failed (Throw BadAlloc)) Rd_lock_meta, w') \<and>
    get_db w' 64 = Inr d' \<and> db_metalock d' \<and> thread_step (retA 512) life_tx life_bucket 64 Rd_lock_meta w' = None"
proof -
  let ?w = "life_world\<lparr>w_fresh := []\<rparr>" and ?I = "\<lambda>_ :: nat. Idle"
  let ?d = "life_db\<lparr>db_metalock := True, db_mmaplock := (db_mmaplock life_db)\<lparr>sm_readers := 1\<rparr>\<rparr>"
  let ?w1 = "set_db ?w 64 ?d"
  have s: "sys_start 64 (?I, ?w)" by (auto simp: sys_start_def life_world_def life_db_def get_defs)
  have "(sys_step (retA 512) 64)\<^sup>*\<^sup>* (?I, ?w) (two Idle Idle, ?w)" by (simp only: two_upd rtranclp.rtrancl_refl)
  then have "(sys_step (retA 512) 64)\<^sup>*\<^sup>* (?I, ?w) (two (begin_pc False) Idle, ?w)" by (rule two_call(1)) simp
  moreover have "get_db ?w 64 = Inr life_db" by (simp add: life_world_def get_defs)
  then have "life_run 3 (begin_pc False) ?w = (Rd_new, ?w1)"
    by (simp add: eval_nat_numeral step_defs lock_runs begin_pc_def life_db_def)
  ultimately have r: "(sys_step (retA 512) 64)\<^sup>*\<^sup>* (?I, ?w) (two Rd_new Idle, ?w1)" by (rule two_run(1))
  have d: "get_db ?w1 64 = Inr ?d" by simp
  have n: "Tx_new (retA 512) life_tx life_bucket 64 False ?w1 = (Inl (Throw BadAlloc), ?w1)"
    by (simp add: Tx_new_def new_addr_def bindA_def)
  let ?T = "(two Rd_new Idle)(0 := Failed (Throw BadAlloc))"
  have "(sys_step (retA 512) 64)\<^sup>*\<^sup>* (?T, ?w1) (two (Failed (Throw BadAlloc)) Idle, ?w1)"
    by (simp only: two_upd rtranclp.rtrancl_refl)
  then have "(sys_step (retA 512) 64)\<^sup>*\<^sup>* (?T, ?w1) (two (Failed (Throw BadAlloc)) (begin_pc False), ?w1)"
    by (rule two_call(2)) simp
  then have c: "(sys_step (retA 512) 64)\<^sup>*\<^sup>* (?T, ?w1) (two (Failed (Throw BadAlloc)) Rd_lock_meta, ?w1)"
    by (simp only: begin_pc_def if_False)
  have i: "two Rd_new Idle 0 = Rd_new" "two (Failed (Throw BadAlloc)) Rd_lock_meta 1 = Rd_lock_meta" by (simp_all add: two_def)
  note L = begin_tx_throw_locks_out [OF stored_meta.meta_source_axioms s r d i(1) n c]
  have "(sys_step (retA 512) 64)\<^sup>*\<^sup>* (?I, ?w) (two (Failed (Throw BadAlloc)) Rd_lock_meta, ?w1)"
    using rtranclp_trans [OF rtranclp.rtrancl_into_rtrancl [OF r conjunct1 [OF L]] c] .
  then show ?thesis using L i(2) by metis
qed

end
