(* ===== verification/Meta_Frame.thy ===== *)
theory Meta_Frame
  imports Interleaving
begin

text \<open>
  What a step of a thread leaves alone in memory. The constructor of \<^verbatim>\<open>Tx\<close> writes to objects it has just
  allocated; a provider of meta records that does the same (\<open>meta_frame\<close>, which extends \<open>meta_source\<close>)
  keeps the meta records of all other transactions, and with them their ids.
\<close>

unbundle bit_operations_syntax

section \<open>Memory outside new objects\<close>

text \<open>Addresses are taken from the allocator in order; only memory of objects taken may change.\<close>

definition mem_frame :: "world \<Rightarrow> world \<Rightarrow> bool" where
  "mem_frame w w' \<longleftrightarrow> (\<exists>k. w_fresh w' = drop k (w_fresh w) \<and>
     (\<forall>x. (\<forall>a \<in> set (take k (w_fresh w)). x \<notin> region a Meta_sizeof) \<longrightarrow> w_mem w' x = w_mem w x))"

lemma mem_frame_same: "w_fresh w' = w_fresh w \<Longrightarrow> w_mem w' = w_mem w \<Longrightarrow> mem_frame w w'"
  by (auto simp: mem_frame_def intro: exI [of _ 0])

lemma mem_frame_trans:
  assumes "mem_frame u v" and "mem_frame v w"
  shows "mem_frame u w"
proof -
  obtain j where j: "w_fresh v = drop j (w_fresh u)"
    and m: "\<forall>x. (\<forall>a \<in> set (take j (w_fresh u)). x \<notin> region a Meta_sizeof) \<longrightarrow> w_mem v x = w_mem u x"
    using assms(1) by (auto simp: mem_frame_def)
  obtain k where k: "w_fresh w = drop k (w_fresh v)"
    and n: "\<forall>x. (\<forall>a \<in> set (take k (w_fresh v)). x \<notin> region a Meta_sizeof) \<longrightarrow> w_mem w x = w_mem v x"
    using assms(2) by (auto simp: mem_frame_def)
  have "set (take (j + k) (w_fresh u)) = set (take j (w_fresh u)) \<union> set (take k (w_fresh v))"
    by (simp add: take_add j)
  then show ?thesis
    using j k m n by (auto simp: mem_frame_def add.commute intro!: exI [of _ "j + k"])
qed

lemma mem_frame_cong:
  assumes "mem_frame u v" and "w_fresh u = w_fresh u'" and "w_mem u = w_mem u'" and "w_fresh v = w_fresh v'" and "w_mem v = w_mem v'"
  shows "mem_frame u' v'"
  using assms by (simp add: mem_frame_def)

lemma mem_frame_new: "new_addr w = (r, w') \<Longrightarrow> mem_frame w w'"
  by (cases "w_fresh w") (auto simp: new_addr_def mem_frame_def intro: exI [of _ 0] exI [of _ 1])

text \<open>Writing to the meta record just allocated.\<close>

lemma meta_writes_frame:
  assumes "x \<notin> region a Meta_sizeof"
  shows "write_bytes m a (read_bytes m' b Meta_sizeof) x = m x" and "Meta_incrementTxID m a x = m x"
proof -
  have "x \<notin> region (a + 40) 8" using assms region_sub_field [of 40 8 56 a] by (auto simp: Meta_sizeof_def)
  then show "write_bytes m a (read_bytes m' b Meta_sizeof) x = m x" "Meta_incrementTxID m a x = m x"
    using assms by (simp_all add: Meta_incrementTxID_def Meta_sizeof_def store_frames write_bytes_outside)
qed

lemma Tx_init_frame:
  assumes "Tx_init raw rawb db writable this src w = (r, w')"
  shows "mem_frame w w'"
proof (cases "w_fresh w")
  case Nil
  then show ?thesis using assms by (simp add: Tx_init_def new_addr_def bindA_def mem_frame_same)
next
  case (Cons a as)
  have "w_mem w' x = w_mem w x" if "x \<notin> region a Meta_sizeof" for x
    using assms Cons that by (cases as) (auto simp: Tx_init_def new_addr_def bindA_def upd_mem_def set_bucket_def set_tx_def
        meta_writes_frame split: if_splits)
  moreover have "w_fresh w' = drop 1 (w_fresh w) \<or> w_fresh w' = drop 2 (w_fresh w)"
    using assms Cons by (cases as) (auto simp: Tx_init_def new_addr_def bindA_def upd_mem_def set_bucket_def set_tx_def split: if_splits)
  ultimately show ?thesis
    using Cons by (auto simp: mem_frame_def intro: exI [of _ 1] exI [of _ 2])
qed

section \<open>Providers of meta records that keep memory\<close>

locale meta_frame = meta_source +
  assumes frame: "metaf w = (r, w') \<Longrightarrow> mem_frame w w'"
begin

lemma Tx_new_frame:
  assumes "Tx_new metaf raw rawb db writable w = (r, w')"
  shows "mem_frame w w'"
proof -
  obtain r1 w1 where n: "new_addr w = (r1, w1)" by (cases "new_addr w")
  note f1 = mem_frame_new [OF n]
  show ?thesis
  proof (cases r1)
    case (Inl e)
    then show ?thesis using assms n f1 by (simp add: Tx_new_def)
  next
    case (Inr this)
    obtain r2 w2 where m: "metaf w1 = (r2, w2)" by (cases "metaf w1")
    note f2 = mem_frame_trans [OF f1 frame [OF m]]
    show ?thesis
    proof (cases r2)
      case (Inl e)
      then show ?thesis using assms n m f2 Inr by (simp add: Tx_new_def)
    next
      case src: (Inr src)
      then have "Tx_init raw rawb db writable this src w2 = (r, w')" using assms n m Inr by (simp add: Tx_new_def)
      then show ?thesis using mem_frame_trans [OF f2 Tx_init_frame] by blast
    qed
  qed
qed

end

interpretation own_meta_frame: meta_frame DB_meta
proof
  fix w r w' assume m: "DB_meta w = (r, w')"
  show "mem_frame w w'"
  proof (cases "w_fresh w")
    case Nil
    then show ?thesis using m by (simp add: DB_meta_def new_addr_def bindA_def mem_frame_same)
  next
    case (Cons a as)
    then have "w' = upd_mem (\<lambda>m. write_bytes m a (replicate Meta_sizeof 0)) (w\<lparr>w_fresh := as\<rparr>)"
      using m by (simp add: DB_meta_def new_addr_def bindA_def)
    then show ?thesis using Cons by (auto simp: mem_frame_def upd_mem_def write_bytes_outside Meta_sizeof_def intro!: exI [of _ 1])
  qed
qed

interpretation stored_meta_frame: meta_frame "retA a" for a
  by unfold_locales (auto intro: mem_frame_same)

section \<open>Transactions and the allocator\<close>

text \<open>
  The meta records of the transactions and the objects the allocator will give out do not overlap, and no
  transaction is at the null address.
\<close>

definition heap_apart :: "world \<Rightarrow> bool" where
  "heap_apart w \<longleftrightarrow> sorted_wrt (\<lambda>a b. region a Meta_sizeof \<inter> region b Meta_sizeof = {}) (w_fresh w) \<and>
     (\<forall>a \<in> set (w_fresh w). \<forall>r x. w_txs w r = Some x \<longrightarrow> region (tx_meta x) Meta_sizeof \<inter> region a Meta_sizeof = {}) \<and>
     0 \<notin> set (w_fresh w) \<and> w_txs w 0 = None"

text \<open>Transactions keep their meta records; new ones are made of new objects.\<close>

definition txs_grow :: "world \<Rightarrow> world \<Rightarrow> bool" where
  "txs_grow w w' \<longleftrightarrow> (\<exists>k. w_fresh w' = drop k (w_fresh w) \<and>
     (\<forall>r x. w_txs w r = Some x \<longrightarrow> (\<exists>y. w_txs w' r = Some y \<and> tx_meta y = tx_meta x)) \<and>
     (\<forall>r y. w_txs w r = None \<and> w_txs w' r = Some y \<longrightarrow> r \<in> set (take k (w_fresh w)) \<and> tx_meta y \<in> set (take k (w_fresh w))))"

lemma txs_grow_keep:
  "w_txs w' = w_txs w \<Longrightarrow> \<exists>k. w_fresh w' = drop k (w_fresh w) \<Longrightarrow> txs_grow w w'"
  by (auto simp: txs_grow_def)

lemma apart_step:
  assumes "heap_apart w" and "txs_grow w w'"
  shows "heap_apart w'"
proof -
  from assms(2) obtain k where f: "w_fresh w' = drop k (w_fresh w)"
    and old: "\<And>r x. w_txs w r = Some x \<Longrightarrow> \<exists>y. w_txs w' r = Some y \<and> tx_meta y = tx_meta x"
    and new: "\<And>r y. w_txs w r = None \<Longrightarrow> w_txs w' r = Some y \<Longrightarrow>
      r \<in> set (take k (w_fresh w)) \<and> tx_meta y \<in> set (take k (w_fresh w))" by (auto simp: txs_grow_def)
  let ?R = "\<lambda>a b. region a Meta_sizeof \<inter> region b Meta_sizeof = {}"
  have "sorted_wrt ?R (take k (w_fresh w) @ drop k (w_fresh w))" using assms(1) by (simp add: heap_apart_def)
  then have s: "sorted_wrt ?R (drop k (w_fresh w))"
    and c: "\<And>a b. a \<in> set (take k (w_fresh w)) \<Longrightarrow> b \<in> set (drop k (w_fresh w)) \<Longrightarrow> ?R a b"
    unfolding sorted_wrt_append by blast+
  have sub: "set (drop k (w_fresh w)) \<subseteq> set (w_fresh w)" "set (take k (w_fresh w)) \<subseteq> set (w_fresh w)"
    by (rule set_drop_subset set_take_subset)+
  have "?R (tx_meta y) a" if "w_txs w' r = Some y" "a \<in> set (drop k (w_fresh w))" for r y a
  proof (cases "w_txs w r")
    case None
    then show ?thesis using new that c by blast
  next
    case (Some x)
    then have "tx_meta y = tx_meta x" using old that by fastforce
    moreover have "a \<in> set (w_fresh w)" using that(2) sub(1) by blast
    then have "?R (tx_meta x) a" using assms(1) Some unfolding heap_apart_def by blast
    ultimately show ?thesis by simp
  qed
  moreover have "w_txs w' 0 = None"
  proof (rule ccontr)
    assume "w_txs w' 0 \<noteq> None"
    moreover have "w_txs w 0 = None" using assms(1) by (simp add: heap_apart_def)
    ultimately have "0 \<in> set (take k (w_fresh w))" using new by blast
    then show False using assms(1) sub(2) by (auto simp: heap_apart_def)
  qed
  moreover have "0 \<notin> set (drop k (w_fresh w))" using assms(1) sub(1) by (auto simp: heap_apart_def)
  ultimately show ?thesis using s f by (auto simp: heap_apart_def)
qed

text \<open>So a transaction's id does not change.\<close>

lemma Tx_id_kept:
  assumes "heap_apart w" and "txs_grow w w'" and "mem_frame w w'" and "w_txs w r = Some x"
  obtains y where "w_txs w' r = Some y" and "Tx_id w' y = Tx_id w x"
proof -
  obtain y where y: "w_txs w' r = Some y" "tx_meta y = tx_meta x" using assms(2,4) unfolding txs_grow_def by blast
  obtain k where m: "\<And>z. (\<And>a. a \<in> set (take k (w_fresh w)) \<Longrightarrow> z \<notin> region a Meta_sizeof) \<Longrightarrow> w_mem w' z = w_mem w z"
    using assms(3) unfolding mem_frame_def by blast
  have "Meta_txid (w_mem w') (tx_meta x) = Meta_txid (w_mem w) (tx_meta x)"
    unfolding Meta_txid_def
  proof (rule u64.load_cong, rule m)
    fix z a assume "z \<in> region (tx_meta x + 40) 8" "a \<in> set (take k (w_fresh w))"
    moreover have "region (tx_meta x + 40) 8 \<subseteq> region (tx_meta x) Meta_sizeof"
      using region_sub_field [of 40 8 56 "tx_meta x"] by (simp add: Meta_sizeof_def)
    ultimately show "z \<notin> region a Meta_sizeof"
      using assms(1,4) set_take_subset [of k "w_fresh w"] unfolding heap_apart_def by blast
  qed
  then show thesis using y by (intro that [of y]) (simp_all add: Tx_id_def)
qed

section \<open>Steps of threads\<close>

lemma Tx_init_meta:
  assumes "Tx_init raw rawb db writable this src w = (Inr t, w')"
  obtains a b fs x where "w_fresh w = a # b # fs" and "w_fresh w' = fs" and "w_txs w' = (w_txs w)(t \<mapsto> x)" and "tx_meta x = a"
proof -
  obtain a b fs where f: "w_fresh w = a # b # fs"
    using assms by (cases "w_fresh w"; cases "tl (w_fresh w)") (auto simp: Tx_init_def new_addr_def bindA_def upd_mem_def)
  then have "w_fresh w' = fs" using Tx_init_Inr(3) [OF assms] by simp
  moreover have "\<exists>x. w_txs w' = (w_txs w)(t \<mapsto> x) \<and> tx_meta x = a"
    using assms f by (auto simp: Tx_init_def new_addr_def bindA_def upd_mem_def set_bucket_def set_tx_def
        split: if_splits intro: exI)
  ultimately show thesis using f that by blast
qed

lemma plain_mem:
  assumes "thread_step metaf raw rawb p c w = Some (c', w')" and "plain c"
  shows "w_mem w' = w_mem w"
  using assms
  by (cases c) (auto simp: step_defs lock_defs upd_db_def set_db_def set_freelist_def bindA_def DB_remove_tx_def
      split: if_splits sum.splits)

context meta_frame
begin

lemma Tx_new_grow:
  assumes n: "Tx_new metaf raw rawb db writable w = (r, w')" and fr: "set (w_fresh w) \<inter> dom (w_txs w) = {}"
  shows "txs_grow w w'"
proof (cases r)
  case (Inl e)
  then show ?thesis using Tx_new_Inl(2,3) n by (intro txs_grow_keep) simp_all
next
  case (Inr t)
  have "Tx_new metaf raw rawb db writable w = (Inr t, w')" using n Inr by simp
  then obtain w1 src w2 where a: "new_addr w = (Inr t, w1)" and m: "metaf w1 = (Inr src, w2)"
    and i: "Tx_init raw rawb db writable t src w2 = (Inr t, w')"
    unfolding Tx_new_def bindA_Inr_iff using Tx_init_Inr(4) by metis
  obtain as where w1: "w_fresh w = t # as" "w1 = w\<lparr>w_fresh := as\<rparr>" using a by (cases "w_fresh w") (auto simp: new_addr_def)
  obtain j where j: "w_fresh w2 = drop j as" and t2: "w_txs w2 = w_txs w" using keeps [OF m] w1(2) by auto
  obtain b b' fs x where x: "w_fresh w2 = b # b' # fs" "w_fresh w' = fs" "w_txs w' = (w_txs w)(t \<mapsto> x)" "tx_meta x = b"
    using Tx_init_meta [OF i] unfolding t2 by blast
  let ?used = "t # take j as @ [b, b']"
  have "take j as @ b # b' # fs = as" using append_take_drop_id [of j as] unfolding j [symmetric] x(1) .
  then have f: "w_fresh w = ?used @ fs" using w1(1) by simp
  have "w_fresh w' = drop (length ?used) (w_fresh w)" "take (length ?used) (w_fresh w) = ?used"
    unfolding f by (simp_all only: x(2) drop_append drop_all order_refl diff_self_eq_0 drop0 append_Nil take_append take_all
        take0 append_Nil2)
  moreover have "w_txs w t = None" using fr w1(1) by auto
  ultimately show ?thesis
    unfolding txs_grow_def using x(3,4) by (intro exI [of _ "length ?used"]) auto
qed

lemma step_frame:
  assumes s: "thread_step metaf raw rawb p c w = Some (c', w')" and d: "get_db w p = Inr d" and ok: "thread_ok p w c"
    and p: "p \<noteq> 0" and fr: "set (w_fresh w) \<inter> dom (w_txs w) = {}"
  shows "mem_frame w w' \<and> txs_grow w w'"
proof (cases "plain c")
  case True
  have q: "w_txs w' = w_txs w" "w_fresh w' = w_fresh w" using plain_step [OF s True d ok p] by simp_all
  then have "\<exists>k. w_fresh w' = drop k (w_fresh w)" by (intro exI [of _ 0]) simp
  then show ?thesis using mem_frame_same [OF q(2) plain_mem [OF s True]] txs_grow_keep q(1) by blast
next
  case False
  then consider (new) "c = Rd_new \<or> c = Wr_new" | (reload) a t where "c = Rb_reload a t" | (clear) wr a t where "c = Cl_clear wr a t"
    by (cases c) auto
  then show ?thesis
  proof cases
    case new
    with s obtain wr r where "Tx_new metaf raw rawb p wr w = (r, w')"
      by (auto simp: step_defs split: prod.splits sum.splits)
    then show ?thesis using Tx_new_frame Tx_new_grow fr by blast
  next
    case (reload a t)
    then have "tx_db t = p" using ok by (simp add: thread_ok_def)
    moreover obtain r w1 where m: "metaf w = (r, w1)" by (cases "metaf w")
    ultimately have q: "w_txs w' = w_txs w1 \<and> w_fresh w' = w_fresh w1 \<and> w_mem w' = w_mem w1"
      using s d reload by (auto simp: does_def bindA_def split: sum.splits prod.splits)
    then have "mem_frame w w'" using mem_frame_cong [OF frame [OF m]] by simp
    moreover have "txs_grow w w'" using keeps [OF m] q by (intro txs_grow_keep) simp_all
    ultimately show ?thesis by simp
  next
    case (clear wr a t)
    then obtain x where x: "w_txs w a = Some x" using ok by (auto simp: thread_ok_def)
    have "get_tx (w\<lparr>w_buckets := bs\<rparr>) a = Inr x" for bs using x by (simp add: get_defs)
    then have q: "w_fresh w' = w_fresh w" "w_mem w' = w_mem w" "w_txs w' = (w_txs w)(a \<mapsto> x\<lparr>tx_db := 0, tx_pages := Map.empty\<rparr>)"
      using s clear by (auto simp: does_def set_tx_def)
    then have "txs_grow w w'" using x unfolding txs_grow_def by (intro exI [of _ 0]) auto
    then show ?thesis using mem_frame_same [OF q(1,2)] by simp
  qed
qed

end

end
