(* ===== verification/Manager.thy ===== *)
theory Manager
  imports Meta_Frame
begin

text \<open>
  What the transaction calls of a database promise, as an abstract transition system, and the proof that
  threads in any interleaving keep the promise: every statement of every thread is a step of the
  abstract system or changes nothing in it. Safety is proved on the abstract system and carried over.
\<close>

unbundle bit_operations_syntax

section \<open>The abstract transaction manager\<close>

text \<open>
  Registered read transactions with their ids, the writer if there is one, the pages that may be used,
  and the pages pending for each transaction id.
\<close>

record manager =
  m_readers :: "(addr \<times> txid_t) list"
  m_writer :: "addr option"
  m_avail :: "pgid_t set"
  m_pending :: "txid_t \<Rightarrow> pgid_t set"

text \<open>
  A reader registers; a writer starts when there is none; the writer makes the pages of ids up to a
  bound available that is below the ids of all readers; the writer ends.
\<close>

inductive m_step :: "manager \<Rightarrow> manager \<Rightarrow> bool" where
  m_register: "r \<notin> fst ` set (m_readers m) \<Longrightarrow> m_step m (m\<lparr>m_readers := m_readers m @ [(r, u)]\<rparr>)"
| m_start: "m_writer m = None \<Longrightarrow> m_step m (m\<lparr>m_writer := Some t\<rparr>)"
| m_release: "m_writer m = Some t \<Longrightarrow> \<forall>(r, u) \<in> set (m_readers m). n < u \<Longrightarrow>
    m_step m (m\<lparr>m_avail := m_avail m \<union> \<Union> (m_pending m ` {..n}),
      m_pending := (\<lambda>u. if u \<le> n then {} else m_pending m u)\<rparr>)"
| m_finish: "m_writer m = Some t \<Longrightarrow> m_step m (m\<lparr>m_writer := None\<rparr>)"

text \<open>
  The promise to a reader: once registered, it stays so, the pages pending for its id or newer ones stay
  pending, and what becomes available was pending for older ids.
\<close>

definition m_safe :: "manager \<Rightarrow> manager \<Rightarrow> bool" where
  "m_safe m m' \<longleftrightarrow> (\<forall>(r, u) \<in> set (m_readers m). (r, u) \<in> set (m_readers m') \<and>
       (\<forall>v \<ge> u. m_pending m' v = m_pending m v) \<and>
       m_avail m' \<subseteq> m_avail m \<union> \<Union> (m_pending m ` {..<u})) \<and>
     (\<forall>v. m_pending m' v \<subseteq> m_pending m v) \<and>
     m_avail m' \<union> \<Union> (range (m_pending m')) = m_avail m \<union> \<Union> (range (m_pending m))"

lemma m_safe_refl: "m_safe m m"
  by (auto simp: m_safe_def)

lemma m_safe_trans:
  assumes "m_safe l m" and "m_safe m n"
  shows "m_safe l n"
proof -
  have per: "(r, u) \<in> set (m_readers n) \<and> (\<forall>v \<ge> u. m_pending n v = m_pending l v) \<and>
      m_avail n \<subseteq> m_avail l \<union> \<Union> (m_pending l ` {..<u})" if r: "(r, u) \<in> set (m_readers l)" for r u
  proof -
    have 1: "(r, u) \<in> set (m_readers m)" "\<forall>v \<ge> u. m_pending m v = m_pending l v"
      "m_avail m \<subseteq> m_avail l \<union> \<Union> (m_pending l ` {..<u})" "\<forall>v. m_pending m v \<subseteq> m_pending l v"
      using assms(1) r by (auto simp: m_safe_def)
    then have 2: "(r, u) \<in> set (m_readers n)" "\<forall>v \<ge> u. m_pending n v = m_pending m v"
      "m_avail n \<subseteq> m_avail m \<union> \<Union> (m_pending m ` {..<u})"
      using assms(2) by (auto simp: m_safe_def)
    have "\<Union> (m_pending m ` {..<u}) \<subseteq> \<Union> (m_pending l ` {..<u})" using 1(4) by (intro UN_mono) auto
    note order_trans [OF 2(3) Un_least [OF 1(3) order_trans [OF this Un_upper2]]]
    moreover have "\<forall>v \<ge> u. m_pending n v = m_pending l v" using 1(2) 2(2) by simp
    ultimately show ?thesis using 2(1) by (intro conjI)
  qed
  have "\<forall>(r, u) \<in> set (m_readers l). (r, u) \<in> set (m_readers n) \<and> (\<forall>v \<ge> u. m_pending n v = m_pending l v) \<and>
      m_avail n \<subseteq> m_avail l \<union> \<Union> (m_pending l ` {..<u})" by (intro ballI, clarify, rule per)
  moreover have "\<forall>v. m_pending n v \<subseteq> m_pending l v" using assms unfolding m_safe_def by (meson order_trans)
  moreover have "m_avail n \<union> \<Union> (range (m_pending n)) = m_avail l \<union> \<Union> (range (m_pending l))"
    using assms by (simp add: m_safe_def)
  ultimately show ?thesis unfolding m_safe_def by (intro conjI) assumption+
qed

lemma m_step_safe: "m_step m m' \<Longrightarrow> m_safe m m'"
proof (induction rule: m_step.induct)
  case (m_release m t n)
  have "{..n} \<subseteq> {..<u}" if "(r, u) \<in> set (m_readers m)" for r u using m_release.hyps(2) that by auto
  then show ?case using m_release.hyps(2) by (auto simp: m_safe_def)
qed (auto simp: m_safe_def)

lemma m_steps_safe: "m_step\<^sup>*\<^sup>* m m' \<Longrightarrow> m_safe m m'"
  by (induction rule: rtranclp_induct) (auto intro: m_safe_refl m_safe_trans m_step_safe)

section \<open>The manager of a database\<close>

definition reader_id :: "world \<Rightarrow> addr \<Rightarrow> txid_t" where
  "reader_id w r = (case get_tx w r of Inl e \<Rightarrow> 0 | Inr x \<Rightarrow> Tx_id w x)"

definition manager_view :: "world \<Rightarrow> DB \<Rightarrow> FreeList \<Rightarrow> manager" where
  "manager_view w d fl = \<lparr>m_readers = map (\<lambda>r. (r, reader_id w r)) (db_txs d),
     m_writer = (if db_rwtx d = 0 then None else Some (db_rwtx d)),
     m_avail = set (fl_ids fl), m_pending = pending_of fl\<rparr>"

definition manager_of :: "addr \<Rightarrow> world \<Rightarrow> manager res" where
  "manager_of p w = bindE (get_db w p) (\<lambda>d. bindE (get_freelist w (db_freelist d)) (\<lambda>fl. Inr (manager_view w d fl)))"

lemma manager_of_Inr [simp]:
  "get_db w p = Inr d \<Longrightarrow> get_freelist w (db_freelist d) = Inr fl \<Longrightarrow> manager_of p w = Inr (manager_view w d fl)"
  by (simp add: manager_of_def)

text \<open>What safety of the manager says of a reader of the database.\<close>

lemma m_safe_reader:
  assumes "m_safe (manager_view w d fl) (manager_view w' d' fl')" and "r \<in> set (db_txs d)"
  shows "r \<in> set (db_txs d')" and "reader_id w' r = reader_id w r"
    and "\<forall>u \<ge> reader_id w r. pending_of fl' u = pending_of fl u"
    and "set (fl_ids fl') \<subseteq> set (fl_ids fl) \<union> \<Union> (pending_of fl ` {u. u < reader_id w r})"
    and "set (fl_ids fl') \<union> \<Union> (range (pending_of fl')) = set (fl_ids fl) \<union> \<Union> (range (pending_of fl))"
proof -
  have "(r, reader_id w r) \<in> set (m_readers (manager_view w d fl))" using assms(2) by (simp add: manager_view_def)
  then have a: "(r, reader_id w r) \<in> set (m_readers (manager_view w' d' fl'))"
    and b: "\<forall>u \<ge> reader_id w r. m_pending (manager_view w' d' fl') u = m_pending (manager_view w d fl) u"
    and c: "m_avail (manager_view w' d' fl') \<subseteq> m_avail (manager_view w d fl) \<union>
      \<Union> (m_pending (manager_view w d fl) ` {..<reader_id w r})"
    using assms(1) by (auto simp: m_safe_def)
  show "r \<in> set (db_txs d')" "reader_id w' r = reader_id w r" using a by (auto simp: manager_view_def)
  show "\<forall>u \<ge> reader_id w r. pending_of fl' u = pending_of fl u" using b by (simp add: manager_view_def)
  show "set (fl_ids fl') \<subseteq> set (fl_ids fl) \<union> \<Union> (pending_of fl ` {u. u < reader_id w r})"
    using c by (simp add: manager_view_def lessThan_def)
  show "set (fl_ids fl') \<union> \<Union> (range (pending_of fl')) = set (fl_ids fl) \<union> \<Union> (range (pending_of fl))"
    using assms(1) by (simp add: m_safe_def manager_view_def)
qed

section \<open>One statement\<close>

text \<open>What a statement does to the members the manager is about.\<close>

definition shared_change :: "DB \<Rightarrow> FreeList \<Rightarrow> pc \<Rightarrow> DB \<Rightarrow> FreeList \<Rightarrow> bool" where
  "shared_change d fl c d' fl' \<longleftrightarrow> db_freelist d' = db_freelist d \<and>
     db_txs d' = db_txs d @ (case c of Rd_push t \<Rightarrow> [t] | _ \<Rightarrow> []) \<and>
     db_rwtx d' = (case c of Wr_rwtx t \<Rightarrow> t | Cl_rwtx a x f \<Rightarrow> 0 | _ \<Rightarrow> db_rwtx d) \<and>
     (fl' = fl \<or> (\<exists>t n. c = Wr_release t n \<and> fl' = released fl (n - 1)))"

text \<open>While no writer is between locking \<^verbatim>\<open>rwlock_\<close> and setting \<^verbatim>\<open>rwtx_\<close> back, \<^verbatim>\<open>rwtx_\<close> is null.\<close>

definition rwtx_ok :: "DB \<Rightarrow> pc \<Rightarrow> bool" where
  "rwtx_ok d c \<longleftrightarrow> (\<not> db_rwlock d \<longrightarrow> db_rwtx d = 0) \<and> (holds_rw c \<and> rwtx_of c = None \<longrightarrow> db_rwtx d = 0)"

lemma close_stats_freelist [simp]: "db_freelist (close_stats fl t d) = db_freelist d"
  by (simp add: close_stats_def)

lemma plain_shared:
  assumes s: "thread_step metaf raw rawb p c w = Some (c', w')" and "plain c" and d: "get_db w p = Inr d"
    and f: "get_freelist w (db_freelist d) = Inr fl" and ok: "thread_ok p w c"
  shows "case get_db w' p of Inl e \<Rightarrow> False | Inr d' \<Rightarrow> case get_freelist w' (db_freelist d) of Inl e \<Rightarrow> False
    | Inr fl' \<Rightarrow> shared_change d fl c d' fl'"
  using assms carried_db [OF ok]
  by (cases c) (simp_all add: step_defs lock_runs bindA_def DB_remove_tx_def FreeList_rollback_def split: if_split_asm sum.split_asm,
    safe, simp_all add: shared_change_def FreeList_release_Inr split: if_splits sum.splits)

text \<open>The order of the two checks on \<^verbatim>\<open>rwtx_\<close> and the lock.\<close>

lemma plain_rwtx:
  assumes s: "thread_step metaf raw rawb p c w = Some (c', w')" and "plain c" and d: "get_db w p = Inr d"
    and ok: "thread_ok p w c" and h: "holds_ok d c" and r: "rwtx_ok d c"
  shows "case get_db w' p of Inl e \<Rightarrow> False | Inr d' \<Rightarrow> rwtx_ok d' c'"
  using assms carried_db [OF ok] owned_get [OF ok]
  by (cases c) (simp_all add: step_defs lock_runs bindA_def DB_remove_tx_def split: if_split_asm sum.split_asm,
    safe, simp_all add: rwtx_ok_def holds_ok_def split: if_splits sum.splits)

context meta_frame
begin

lemma Tx_new_heaps:
  assumes n: "Tx_new metaf raw rawb db writable w = (r, w')"
  shows "w_dbs w' = w_dbs w \<and> w_freelists w' = w_freelists w"
proof (cases r)
  case (Inl e)
  show ?thesis using Tx_new_Inl(1,4) [OF n [unfolded Inl]] by simp
next
  case (Inr t)
  show ?thesis using Tx_new_Inr(1,2) [OF n [unfolded Inr]] by simp
qed

lemma step_shared:
  assumes s: "thread_step metaf raw rawb p c w = Some (c', w')" and d: "get_db w p = Inr d"
    and f: "get_freelist w (db_freelist d) = Inr fl" and ok: "thread_ok p w c" and h: "holds_ok d c" and r: "rwtx_ok d c"
  obtains d' fl' where "get_db w' p = Inr d'" and "get_freelist w' (db_freelist d) = Inr fl'"
    and "shared_change d fl c d' fl'" and "rwtx_ok d' c'"
proof (cases "plain c")
  case True
  then show thesis using plain_shared [OF s True d f ok] plain_rwtx [OF s True d ok h r] that by (auto split: sum.splits)
next
  case False
  then consider (new) "c = Rd_new \<or> c = Wr_new" | (reload) a t where "c = Rb_reload a t" | (clear) wr a t where "c = Cl_clear wr a t"
    by (cases c) auto
  then have "get_db w' p = Inr d \<and> get_freelist w' (db_freelist d) = Inr fl \<and> rwtx_ok d c'"
  proof cases
    case new
    with s obtain wr ri where n: "Tx_new metaf raw rawb p wr w = (ri, w')"
      and c': "(case ri of Inl e \<Rightarrow> c' = (if wr then Wr_leave (Inl e) else Failed e) | Inr t \<Rightarrow> c' = (if wr then Wr_rwtx t else Rd_push t))
        \<and> c = (if wr then Wr_new else Rd_new)"
      by (auto simp: step_defs split: prod.splits sum.splits)
    have "w_dbs w' = w_dbs w \<and> w_freelists w' = w_freelists w" by (rule Tx_new_heaps [OF n])
    then show ?thesis using d f c' r by (cases ri; cases wr) (simp_all add: get_defs rwtx_ok_def)
  next
    case (reload a t)
    then have "tx_db t = p" using ok by (simp add: thread_ok_def)
    moreover obtain ri w1 where m: "metaf w = (ri, w1)" by (cases "metaf w")
    moreover have "get_freelist w1 (db_freelist d) = Inr fl" using get_keeps(3) [OF m] f by simp
    moreover have "get_db w1 p = Inr d" using get_keeps(1) [OF m] d by simp
    ultimately have "w' = w1 \<and> (c' = Cl_start True a \<or> (\<exists>e. c' = Failed e))"
      using s d reload by (auto simp: does_def bindA_def FreeList_reload_def split: sum.splits prod.splits)
    then show ?thesis using r reload \<open>get_db w1 p = Inr d\<close> \<open>get_freelist w1 (db_freelist d) = Inr fl\<close>
      by (auto simp: rwtx_ok_def)
  next
    case (clear wr a t)
    then obtain x where x: "w_txs w a = Some x" using ok by (auto simp: thread_ok_def)
    have "get_tx (w\<lparr>w_buckets := bs\<rparr>) a = Inr x" for bs using x by (simp add: get_defs)
    then show ?thesis using s clear d f r by (auto simp: does_def set_tx_def get_defs rwtx_ok_def)
  qed
  moreover have "shared_change d fl c d fl" using False by (cases c) (simp_all add: shared_change_def)
  ultimately show thesis using that by blast
qed

end

section \<open>The simulation\<close>

lemma readers_kept:
  assumes "heap_apart w" and "txs_grow w w'" and "mem_frame w w'" and "\<forall>r \<in> set ps. w_txs w r \<noteq> None"
  shows "map (\<lambda>r. (r, reader_id w' r)) ps = map (\<lambda>r. (r, reader_id w r)) ps"
proof (rule map_cong [OF refl])
  fix r assume "r \<in> set ps"
  then obtain x where x: "w_txs w r = Some x" using assms(4) by blast
  obtain y where "w_txs w' r = Some y" "Tx_id w' y = Tx_id w x" by (rule Tx_id_kept [OF assms(1-3) x])
  then show "(r, reader_id w' r) = (r, reader_id w r)" using x by (simp add: reader_id_def get_defs)
qed

lemma release_simulated:
  assumes "db_rwtx d = t" and "t \<noteq> 0" and m: "minid_ok w (db_txs d) n" and d': "db_txs d' = db_txs d \<and> db_rwtx d' = db_rwtx d"
    and ids: "map (\<lambda>r. (r, reader_id w' r)) (db_txs d) = map (\<lambda>r. (r, reader_id w r)) (db_txs d)"
  shows "m_step (manager_view w d fl) (manager_view w' d' (released fl (n - 1)))"
proof -
  let ?m = "manager_view w d fl" and ?fl = "released fl (n - 1)"
  have rw: "m_writer ?m = Some t" using assms(1,2) by (simp add: manager_view_def)
  have "n - 1 < reader_id w q" if "q \<in> set (db_txs d)" for q
    using m that word_pred_less by (auto simp: minid_ok_def list_all_iff reader_id_def)
  then have "\<forall>(q, u) \<in> set (m_readers ?m). n - 1 < u" by (auto simp: manager_view_def)
  note st = m_step.m_release [OF rw this]
  have "pending_of ?fl = (\<lambda>u. if u \<le> n - 1 then {} else pending_of fl u)"
    "set (fl_ids ?fl) = set (fl_ids fl) \<union> \<Union> (pending_of fl ` {..n - 1})"
    by (auto simp: pending_release ids_release atMost_def)
  moreover have "m_pending ?m = pending_of fl" "m_avail ?m = set (fl_ids fl)" by (simp_all add: manager_view_def)
  ultimately have "manager_view w' d' ?fl = ?m\<lparr>m_avail := m_avail ?m \<union> \<Union> (m_pending ?m ` {..n - 1}),
      m_pending := (\<lambda>u. if u \<le> n - 1 then {} else m_pending ?m u)\<rparr>"
    using d' ids by (simp add: manager_view_def cong: if_cong)
  then show ?thesis using st by simp
qed

lemma shared_simulated:
  assumes ch: "shared_change d fl c d' fl'" and ids: "map (\<lambda>r. (r, reader_id w' r)) (db_txs d) = map (\<lambda>r. (r, reader_id w r)) (db_txs d)"
    and push: "\<And>t. c = Rd_push t \<Longrightarrow> t \<notin> set (db_txs d)"
    and nz: "\<And>a wr. owned c = Some (a, wr) \<Longrightarrow> a \<noteq> 0" and r: "rwtx_ok d c" and h: "holds_ok d c"
    and rel: "\<And>t n. c = Wr_release t n \<Longrightarrow> minid_ok w (db_txs d) n"
  shows "manager_view w' d' fl' = manager_view w d fl \<or> m_step (manager_view w d fl) (manager_view w' d' fl')"
proof -
  let ?m = "manager_view w d fl"
  consider (push) t where "c = Rd_push t" | (start) t where "c = Wr_rwtx t" | (release) t n where "c = Wr_release t n"
    | (finish) a x f where "c = Cl_rwtx a x f"
    | (other) "db_txs d' = db_txs d" "db_rwtx d' = db_rwtx d" "fl' = fl"
    using ch by (cases c) (auto simp: shared_change_def)
  then show ?thesis
  proof cases
    case push
    then have "manager_view w' d' fl' = ?m\<lparr>m_readers := m_readers ?m @ [(t, reader_id w' t)]\<rparr>"
      using ch ids by (simp add: manager_view_def shared_change_def)
    moreover have "t \<notin> fst ` set (m_readers ?m)" using assms(3) push by (auto simp: manager_view_def)
    ultimately show ?thesis using m_register by simp
  next
    case start
    then have "db_rwtx d = 0" "t \<noteq> 0" using r nz by (simp_all add: rwtx_ok_def)
    then have "manager_view w' d' fl' = ?m\<lparr>m_writer := Some t\<rparr>" "m_writer ?m = None"
      using ch ids start by (simp_all add: manager_view_def shared_change_def)
    then show ?thesis using m_start by simp
  next
    case release
    then have "db_rwtx d = t" "t \<noteq> 0" using h nz by (simp_all add: holds_ok_def)
    moreover have "minid_ok w (db_txs d) n" using rel release by simp
    moreover have d': "db_txs d' = db_txs d \<and> db_rwtx d' = db_rwtx d" using ch release by (simp add: shared_change_def)
    ultimately have "m_step ?m (manager_view w' d' (released fl (n - 1)))" using release_simulated [OF _ _ _ _ ids] by blast
    moreover have "manager_view w' d' fl = ?m" using d' ids by (simp add: manager_view_def)
    ultimately show ?thesis using ch release by (auto simp: shared_change_def)
  next
    case finish
    then have "m_writer ?m = Some a" using h nz by (auto simp: manager_view_def holds_ok_def)
    moreover have "manager_view w' d' fl' = ?m\<lparr>m_writer := None\<rparr>"
      using ch ids finish by (simp add: manager_view_def shared_change_def)
    ultimately show ?thesis using m_finish by simp
  next
    case other
    then show ?thesis using ids by (simp add: manager_view_def)
  qed
qed

section \<open>All statements of all threads\<close>

text \<open>
  Listed transactions are live objects; one that is about to be listed is not listed yet; \<^verbatim>\<open>rwtx_\<close> is null
  while no writer has set it.
\<close>

definition listed_inv :: "world \<Rightarrow> DB \<Rightarrow> (nat \<Rightarrow> pc) \<Rightarrow> bool" where
  "listed_inv w d T \<longleftrightarrow> (\<forall>i. rwtx_ok d (T i)) \<and> (\<forall>r \<in> set (db_txs d). w_txs w r \<noteq> None) \<and>
     (\<forall>i t. T i = Rd_push t \<longrightarrow> t \<notin> set (db_txs d))"

definition manager_inv :: "addr \<Rightarrow> sys \<Rightarrow> bool" where
  "manager_inv p s \<longleftrightarrow> sys_inv p s \<and> minid_inv p s \<and> (case s of (T, w) \<Rightarrow> heap_apart w \<and>
     (\<exists>d fl. get_db w p = Inr d \<and> get_freelist w (db_freelist d) = Inr fl \<and> listed_inv w d T))"

text \<open>
  No call is running, all mutexes are free, the free list exists, and the transactions that are listed, if
  any, are live objects apart from the memory the allocator will give out.
\<close>

definition manager_start :: "addr \<Rightarrow> sys \<Rightarrow> bool" where
  "manager_start p s \<longleftrightarrow> sys_start p s \<and> (case s of (T, w) \<Rightarrow> heap_apart w \<and>
     (\<exists>d fl. get_db w p = Inr d \<and> get_freelist w (db_freelist d) = Inr fl \<and> db_rwtx d = 0 \<and>
        (\<forall>r \<in> set (db_txs d). w_txs w r \<noteq> None)))"

lemma manager_start_inv: "manager_start p s \<Longrightarrow> manager_inv p s"
  using start_inv [of p s]
  by (auto simp: manager_start_def manager_inv_def listed_inv_def rwtx_ok_def sys_start_def minid_inv_def)

lemma into_push: "thread_step metaf raw rawb p c w = Some (Rd_push t, w') \<Longrightarrow> c = Rd_new"
  by (cases c) (auto simp: step_defs split: prod.splits sum.splits if_splits)

lemma listed_inv_step:
  assumes inv: "listed_inv w d T" and l: "locks_inv d T" and o: "owner_inv p T w"
    and ch: "locks_change d (T i) d' c" and hc: "heap_change p w (T i) w' c" and sc: "shared_change d fl (T i) d' fl'"
    and g: "txs_grow w w'" and r: "rwtx_ok d' c" and new: "\<And>t. c = Rd_push t \<Longrightarrow> T i = Rd_new"
  shows "listed_inv w' d' (T(i := c))"
proof -
  have fr: "set (w_fresh w) \<inter> dom (w_txs w) = {}" and ok: "thread_ok p w (T i)" using o by (simp_all add: owner_inv_def)
  have live: "w_txs w q \<noteq> None" if "q \<in> set (db_txs d)" for q using inv that by (simp add: listed_inv_def)
  have rw: "rwtx_ok d' (T j)" if "j \<noteq> i" for j
  proof -
    have "db_rwtx d' = db_rwtx d" if "holds_rw (T j)"
      using l ch that \<open>j \<noteq> i\<close> unfolding locks_inv_def lock_inv_def locks_change_def by metis
    moreover have "rwtx_ok d (T j)" using inv by (simp add: listed_inv_def)
    ultimately show ?thesis using r by (auto simp: rwtx_ok_def)
  qed
  have grow: "w_txs w' q \<noteq> None" if q: "w_txs w q \<noteq> None" for q
  proof -
    obtain x where "w_txs w q = Some x" using q by blast
    then show ?thesis using g unfolding txs_grow_def by fastforce
  qed
  have "w_txs w' q \<noteq> None" if "q \<in> set (db_txs d')" for q
  proof (rule grow, cases "q \<in> set (db_txs d)")
    case False
    then have "T i = Rd_push q" using sc that by (auto simp: shared_change_def split: pc.splits)
    then show "w_txs w q \<noteq> None" using ok by (auto simp: thread_ok_def)
  qed (rule live)
  moreover have "t \<notin> set (db_txs d')" if t: "(T(i := c)) j = Rd_push t" for j t
  proof (cases "j = i")
    case True
    then have c: "c = Rd_push t" "T i = Rd_new" using t new by simp_all
    then have "t \<in> set (w_fresh w)" using hc by (auto simp: heap_change_def)
    then show ?thesis using live fr sc c(2) by (auto simp: shared_change_def)
  next
    case False
    then have Tj: "T j = Rd_push t" using t by simp
    then have "holds_meta (T j)" by simp
    then have "\<not> holds_meta (T i)" using l False unfolding locks_inv_def lock_inv_def by metis
    then have "db_txs d' = db_txs d" using ch by (simp add: locks_change_def)
    then show ?thesis using inv Tj by (auto simp: listed_inv_def)
  qed
  ultimately show ?thesis using rw r by (auto simp: listed_inv_def)
qed

context meta_frame
begin

lemma move_simulated:
  assumes s: "thread_step metaf raw rawb p (T i) w = Some (c, w')" and inv: "manager_inv p (T, w)"
    and I: "sys_inv p (T(i := c), w')" "minid_inv p (T(i := c), w')"
  shows "manager_inv p (T(i := c), w') \<and> (\<exists>m m'. manager_of p w = Inr m \<and> manager_of p w' = Inr m' \<and> m_step\<^sup>=\<^sup>= m m')"
proof -
  obtain d fl where p: "p \<noteq> 0" and d: "get_db w p = Inr d" and f: "get_freelist w (db_freelist d) = Inr fl"
    and l: "locks_inv d T" and o: "owner_inv p T w" and li: "listed_inv w d T" and a: "heap_apart w"
    using inv by (auto simp: manager_inv_def sys_inv_def)
  have ok: "thread_ok p w (T i)" and fr: "set (w_fresh w) \<inter> dom (w_txs w) = {}" using o by (simp_all add: owner_inv_def)
  have r: "rwtx_ok d (T i)" and live: "\<forall>r \<in> set (db_txs d). w_txs w r \<noteq> None"
    and push: "\<And>t. T i = Rd_push t \<Longrightarrow> t \<notin> set (db_txs d)" using li by (simp_all add: listed_inv_def)
  note h = locks_inv_holds [OF l, of i]
  obtain d' where "get_db w' p = Inr d'" and ch: "locks_change d (T i) d' c" using step_locks [OF s d ok p h] by blast
  moreover obtain d'' fl' where "get_db w' p = Inr d''" and f': "get_freelist w' (db_freelist d) = Inr fl'"
    and "shared_change d fl (T i) d'' fl'" and "rwtx_ok d'' c" using step_shared [OF s d f ok h r] by blast
  ultimately have d': "get_db w' p = Inr d'" and sc: "shared_change d fl (T i) d' fl'" and r': "rwtx_ok d' c" by simp_all
  have mf: "mem_frame w w'" and g: "txs_grow w w'" using step_frame [OF s d ok p fr] by simp_all
  have f'': "get_freelist w' (db_freelist d') = Inr fl'" using f' sc by (simp add: shared_change_def)
  have "T i = Rd_new" if "c = Rd_push t" for t using into_push s that by blast
  note listed_inv_step [OF li l o ch step_heap [OF s d ok p] sc g r' this]
  then have "manager_inv p (T(i := c), w')" using I apart_step [OF a g] d' f'' by (auto simp: manager_inv_def)
  moreover have nz: "b \<noteq> 0" if "owned (T i) = Some (b, wr)" for b wr
    using ok that a by (auto simp: thread_ok_def heap_apart_def)
  have mi: "minid_ok w (db_txs d) n" if "T i = Wr_release t n" for t n
    using inv d that by (auto simp: manager_inv_def minid_inv_def)
  have "m_step\<^sup>=\<^sup>= (manager_view w d fl) (manager_view w' d' fl')"
    using shared_simulated [OF sc readers_kept [OF a g mf live] push nz r h mi] by auto
  ultimately show ?thesis using d f d' f'' by simp
qed

lemma step_simulated:
  assumes "sys_step metaf p s s'" and "manager_inv p s"
  shows "manager_inv p s' \<and> (\<exists>m m'. manager_of p (snd s) = Inr m \<and> manager_of p (snd s') = Inr m' \<and> m_step\<^sup>=\<^sup>= m m')"
proof -
  have I: "sys_inv p s'" "minid_inv p s'"
    using assms sys_step_inv [OF assms(1)] minid_step [OF assms(1)] by (simp_all add: manager_inv_def)
  show ?thesis
    using assms I
  proof (induction rule: sys_step.induct)
    case (move raw rawb T i w c w')
    then show ?case using move_simulated [of raw rawb p T i w c w'] by simp
  next
    case (call_begin T i w writable)
    then show ?case by (auto simp: manager_inv_def listed_inv_def rwtx_ok_def begin_pc_def)
  next
    case (call_rollback T i wr a w)
    then obtain d where "get_db w p = Inr d" "\<forall>j. rwtx_ok d (T j)" by (auto simp: manager_inv_def listed_inv_def)
    then have "rwtx_ok d (T i)" by blast
    then show ?case using call_rollback by (auto simp: manager_inv_def listed_inv_def rwtx_ok_def)
  qed
qed

lemma run_simulated:
  assumes "(sys_step metaf p)\<^sup>*\<^sup>* s s'" and "manager_inv p s"
  shows "manager_inv p s' \<and> (\<exists>m m'. manager_of p (snd s) = Inr m \<and> manager_of p (snd s') = Inr m' \<and> m_step\<^sup>*\<^sup>* m m')"
  using assms
proof (induction rule: rtranclp_induct)
  case base
  then obtain d fl where "get_db (snd s) p = Inr d" "get_freelist (snd s) (db_freelist d) = Inr fl"
    by (auto simp: manager_inv_def)
  then show ?case using base by simp
next
  case (step y z)
  then obtain m m' where y: "manager_inv p y" "manager_of p (snd s) = Inr m" "manager_of p (snd y) = Inr m'" "m_step\<^sup>*\<^sup>* m m'"
    by blast
  obtain k k' where z: "manager_inv p z" "manager_of p (snd y) = Inr k" "manager_of p (snd z) = Inr k'" "m_step\<^sup>=\<^sup>= k k'"
    using step_simulated [OF step.hyps(2) y(1)] by blast
  have "m_step\<^sup>=\<^sup>= m' k'" using y(3) z(2,4) by simp
  then have "m_step\<^sup>*\<^sup>* m k'" using y(4) by (elim disjE sup2E) auto
  then show ?case using y(2) z(1,3) by blast
qed

end

section \<open>A closed reader\<close>

text \<open>
  A transaction that is closed stays closed, and it stays listed. From then on the loop of
  \<^verbatim>\<open>begin_rwtx\<close> reads the deleted meta record.
\<close>

lemma min_txid_closed:
  assumes "r \<in> set ps" and "w_txs w r = Some x" and "tx_db x = nullptr"
  shows "min_txid w ps a = Inl UB"
  using assms(1)
proof (induction ps arbitrary: a)
  case (Cons p ps)
  show ?case
  proof (cases "p = r")
    case True
    then show ?thesis using assms(2,3) by (simp add: get_defs Tx_meta_txid_def)
  next
    case False
    then show ?thesis using Cons by (cases "w_txs w p") (simp_all add: get_defs deref_def Tx_meta_txid_def)
  qed
qed simp

definition closed_listed :: "addr \<Rightarrow> addr \<Rightarrow> world \<Rightarrow> bool" where
  "closed_listed p r w \<longleftrightarrow> (\<exists>d x. get_db w p = Inr d \<and> r \<in> set (db_txs d) \<and> w_txs w r = Some x \<and> tx_db x = nullptr)"

lemma closed_kept:
  assumes hc: "heap_change p w (T i) w' c" and o: "owner_inv p T w" and p: "p \<noteq> 0" and x: "w_txs w r = Some x" "tx_db x = nullptr"
  shows "w_txs w' r = Some x"
proof (rule ccontr)
  assume "w_txs w' r \<noteq> Some x"
  then obtain wr where "owned (T i) = Some (r, wr) \<or> owned c = Some (r, wr)" using hc x(1) unfolding heap_change_def by metis
  moreover have "thread_ok p w (T i)" using o by (simp add: owner_inv_def)
  then have n: "owned (T i) \<noteq> Some (r, v)" for v using x p unfolding thread_ok_def by fastforce
  ultimately have c: "owned c = Some (r, wr)" by simp
  then have "r = hd (w_fresh w)" "w_fresh w \<noteq> []" using hc n [of wr] by (auto simp: heap_change_def)
  then have "r \<in> set (w_fresh w)" by simp
  then show False using o x(1) by (auto simp: owner_inv_def)
qed

context meta_frame
begin

lemma closed_listed_step:
  assumes "sys_step metaf p s s'" and "manager_inv p s" and "closed_listed p r (snd s)"
  shows "closed_listed p r (snd s')"
  using assms
proof (induction rule: sys_step.induct)
  case (move raw rawb T i w c w')
  obtain d fl where p: "p \<noteq> 0" and d: "get_db w p = Inr d" and f: "get_freelist w (db_freelist d) = Inr fl"
    and l: "locks_inv d T" and o: "owner_inv p T w" and li: "listed_inv w d T"
    using move.prems(1) by (auto simp: manager_inv_def sys_inv_def)
  have ok: "thread_ok p w (T i)" using o by (simp add: owner_inv_def)
  have ri: "rwtx_ok d (T i)" using li by (simp add: listed_inv_def)
  obtain d' fl' where d': "get_db w' p = Inr d'" and "shared_change d fl (T i) d' fl'"
    using step_shared [OF move.hyps d f ok locks_inv_holds [OF l] ri] by blast
  then have sub: "set (db_txs d) \<subseteq> set (db_txs d')" by (auto simp: shared_change_def)
  obtain x where x: "r \<in> set (db_txs d)" "w_txs w r = Some x" "tx_db x = nullptr"
    using move.prems(2) d by (auto simp: closed_listed_def)
  note closed_kept [OF step_heap [OF move.hyps d ok p] o p x(2,3)]
  then show ?case using d' sub x by (auto simp: closed_listed_def)
qed simp_all

lemma closed_listed_run:
  assumes "(sys_step metaf p)\<^sup>*\<^sup>* s s'" and "manager_inv p s" and "closed_listed p r (snd s)"
  shows "closed_listed p r (snd s')"
proof -
  have "manager_inv p s' \<and> closed_listed p r (snd s')"
    using assms
  proof (induction rule: rtranclp_induct)
    case (step y z)
    then show ?case using step_simulated [OF step.hyps(2)] closed_listed_step [OF step.hyps(2)] by blast
  qed simp
  then show ?thesis by simp
qed

lemma closed_listed_begin:
  assumes "closed_listed p r w" and "set (w_fresh w) \<inter> dom (w_txs w) = {}"
  shows "DB_begin metaf raw rawb p True w \<noteq> (Inr t, w')"
proof
  assume "DB_begin metaf raw rawb p True w = (Inr t, w')"
  then have b: "DB_begin_rwtx metaf raw rawb p w = (Inr t, w')" by (simp add: DB_begin_def)
  from assms(1) obtain d x where d: "get_db w p = Inr d" "r \<in> set (db_txs d)" and x: "w_txs w r = Some x" "tx_db x = nullptr"
    by (auto simp: closed_listed_def)
  show False
  proof (rule begin_rwtx_Inr [OF b])
    fix e w1 m
    assume "get_db w p = Inr e" and n: "Tx_new metaf raw rawb p True (set_db w p (e\<lparr>db_rwlock := True, db_metalock := True\<rparr>)) = (Inr t, w1)"
      and m: "min_txid w' (db_txs e) 0xFFFFFFFFFFFFFFFF = Inr m" and t: "w_txs w' = w_txs w1"
    then have "r \<in> set (db_txs e)" using d by simp
    moreover have "r \<noteq> t" using Tx_new_Inr(3) [OF n] x(1) assms(2) by auto
    then have "w_txs w' r = Some x" using Tx_new_Inr(6) [OF n] t x(1) by auto
    ultimately show False using min_txid_closed x(2) m by fastforce
  qed
qed

end

end
