(* ===== verification/Spec2Isabelle.thy ===== *)
theory Spec2Isabelle
  imports Page_Scan Cursor_Seek Node_Tree Opening Schedules Manager
begin

text \<open>
  A model of bolt-cpp, an embedded key-value store: a C++ translation, in progress, of Bolt. This
  header describes the program, which theory models which part of it, what is proved, and what is
  left out. File names are those under \<^verbatim>\<open>src/bolt/\<close>.

  \<^bold>\<open>The program.\<close> A database is one file of fixed-size pages, mapped into memory (class \<^verbatim>\<open>DB\<close>). Two of
  its pages hold meta records (\<^verbatim>\<open>Meta\<close>), one the ids of free pages (\<^verbatim>\<open>FreeList\<close>), the others the
  branches and leaves of trees. A transaction (\<^verbatim>\<open>Tx\<close>) works on a copy of the current meta record;
  a reader pins the pages of its transaction id, the single writer holds a lock. A \<^verbatim>\<open>Bucket\<close> is one
  tree of a transaction; it resolves a page id to a page of the map or to a \<^verbatim>\<open>Node\<close>, the in-memory
  form of a page, which is changed by \<^verbatim>\<open>put\<close> and \<^verbatim>\<open>del\<close> and written back to a page. A \<^verbatim>\<open>Cursor\<close> walks
  over the tree of a bucket. Keys and values are \<^verbatim>\<open>Slice\<close>s, pointers with a length; \<^verbatim>\<open>PagePool\<close>
  keeps page buffers and \<^verbatim>\<open>Stats\<close> counts.

  \<^bold>\<open>Conventions.\<close> Integers have the width of the source: \<^typ>\<open>u16\<close>, \<^typ>\<open>u32\<close> and \<^typ>\<open>u64\<close> wrap;
  an \<^verbatim>\<open>int\<close> is an \<^typ>\<open>int\<close> with the conversions and the overflow written out where they can
  matter. Memory is a function from addresses to bytes (\<open>Memory\<close>): pages, elements, meta records
  and the bytes behind slices live there in the layout of the x86-64 ABI, so that aliasing and
  overlapping are part of the statements. Objects with C++ containers live in one typed heap per
  class, and all heaps with the allocator's next addresses form a \<^typ>\<open>world\<close> (\<open>Objects\<close>). A call
  gives \<^term>\<open>Inr\<close> a result or \<^term>\<open>Inl\<close> a \<^typ>\<open>fault\<close>: an exit code, an abort, a failed assertion, a
  C++ exception, undefined behaviour (a dead pointer, an index outside a vector) or waiting for a
  lock that is held. Operations of \<^verbatim>\<open>Tx\<close> and \<^verbatim>\<open>DB\<close> are actions: they return the world also with a
  fault, so that what a failing call has done stays visible. Loops and recursions that need not
  end (\<^verbatim>\<open>Node::root\<close>, the loops of \<^verbatim>\<open>Cursor\<close>, \<^verbatim>\<open>DB::flock\<close>) are partial functions into \<open>option\<close> with
  the value \<open>None\<close> for a call that does not return; there is no fuel, and that a call returns is
  proved (C1, C6, C9, C19, C22) or refuted (C33) as such.

  \<^bold>\<open>Parameters.\<close> Code outside the repository is an argument of the definitions that use it: the
  hash of \<^verbatim>\<open>molly::hash\<close> (\<open>hash\<close>); the operating system and \<^verbatim>\<open>molly::os::File\<close> (the record \<open>OS\<close>,
  see \<open>DB_File\<close>); the callback of the page pool. Members that a constructor leaves
  indeterminate come from an arbitrary object \<open>raw\<close>. The transaction code takes the call of
  \<^verbatim>\<open>DB::meta\<close> as an argument \<open>metaf\<close>, because with the program's own (\<^const>\<open>DB_meta\<close>) no
  transaction can be started (C32) and nothing more could be said; in the same way the constructor
  of \<^verbatim>\<open>DB\<close> takes the call of \<^verbatim>\<open>DB::flock\<close>.

  \<^bold>\<open>Theories.\<close>
  \<^item> \<open>Bolt_Prelude\<close>: \<^verbatim>\<open>types.h\<close>, \<^verbatim>\<open>exception.h\<close>, results and faults, the loop of \<^verbatim>\<open>std::lower_bound\<close>
    with the locale \<open>keyed_range\<close> (comparisons that follow a key order), which inodes and page
    elements interpret.
  \<^item> \<open>Memory\<close>: regions, byte strings, little-endian cells; locale \<open>cell\<close>, interpreted for 16, 32
    and 64 bits.
  \<^item> \<open>Slice\<close>: \<^verbatim>\<open>slice.h\<close>, \<^verbatim>\<open>slice.cpp\<close>. Comparison decides the lexicographic order (C11), hexadecimal
    printing and parsing are inverse (C21) and parsing accepts exactly the hexadecimal strings of
    even length (C24).
  \<^item> \<open>Page\<close>: \<^verbatim>\<open>page.h\<close>, \<^verbatim>\<open>page.cpp\<close>, page headers and elements as bytes. \<open>Page_Pool\<close>: \<^verbatim>\<open>page_pool.h\<close>,
    \<^verbatim>\<open>page_pool.cpp\<close> with the locale \<open>buffer_pool\<close>. \<open>Stats\<close>: \<^verbatim>\<open>stats.h\<close>.
  \<^item> \<open>FreeList\<close>: \<^verbatim>\<open>freelist.h\<close>, \<^verbatim>\<open>freelist.cpp\<close>. When \<^verbatim>\<open>release\<close> is defined, and that
    it loses and invents no page then (C8); reading a freelist page (C26; the overflow form loses its last id). The
    locale \<open>pending_store\<close> is what the transaction code relies on.
  \<^item> \<open>Objects\<close>: the classes of \<^verbatim>\<open>node.h\<close>, \<^verbatim>\<open>bucket.h\<close>, \<^verbatim>\<open>tx.h\<close>, \<^verbatim>\<open>db.h\<close> as records, the heaps.
  \<^item> \<open>Meta\<close>: \<^verbatim>\<open>meta.h\<close>, \<^verbatim>\<open>meta.cpp\<close>. Round trip through a page (C7), what validation rejects (C25),
    alternation of the two meta pages.
  \<^item> \<open>Bucket\<close>: \<^verbatim>\<open>bucket.h\<close>, \<^verbatim>\<open>bucket.cpp\<close>, \<^verbatim>\<open>DB::page\<close> and \<^verbatim>\<open>Tx::page\<close>; pages are disjoint blocks of the
    map (C28), which fails beyond 2 GB.
  \<^item> \<open>Node\<close>, \<open>Node_Map\<close>, \<open>Node_Page\<close>, \<open>Node_Tree\<close>: \<^verbatim>\<open>node.h\<close>, \<^verbatim>\<open>node.cpp\<close>. A node refines a finite map
    (C2, through the locale \<open>kv_store\<close>; C27 for a key renamed at will); a leaf survives writing and reading
    (C3) within bounds (C10), branches do not (C39, C40); its binary searches equal linear ones (C18);
    \<^verbatim>\<open>root\<close> ends exactly without a cycle (C19); well-typed nodes stay so (C20).
  \<^item> \<open>Cursor\<close>, \<open>Cursor_Walk\<close>, \<open>Cursor_Seek\<close>: \<^verbatim>\<open>cursor.h\<close>, \<^verbatim>\<open>cursor.cpp\<close>. On any tree of pages and nodes
    \<^verbatim>\<open>first\<close> and \<^verbatim>\<open>next\<close> enumerate the entries (C1) and \<^verbatim>\<open>last\<close> finds the last one (C22); on an ordered
    tree of nodes \<^verbatim>\<open>seek\<close> finds its place (C6). What the search on pages and \<^verbatim>\<open>deleteCurrent\<close>
    do instead of what they mean to: C36, C29; \<^verbatim>\<open>seek\<close> reports nil (C37) and \<^verbatim>\<open>prev\<close> lands where
    \<^verbatim>\<open>last\<close> does (C38).
  \<^item> \<open>Page_Scan\<close>: nodes, pages and cursors together; what is written is what is scanned (C9).
  \<^item> \<open>Tx\<close>, \<open>DB\<close>, \<open>Lifecycle\<close>: \<^verbatim>\<open>tx.h\<close>, \<^verbatim>\<open>tx.cpp\<close> and the transaction part of \<^verbatim>\<open>db.cpp\<close>. Whatever calls return or
    throw, there is one writer at most, \<^verbatim>\<open>rwtx_\<close> points to it and it holds the lock (C4); a transaction is
    rolled back once (C23); \<^verbatim>\<open>begin\<close> with the program's own \<^verbatim>\<open>meta\<close> (C32);
    what \<^verbatim>\<open>update\<close> leaves behind, whatever its function does (C35). The locale \<open>meta_source\<close>, the
    contract of \<^verbatim>\<open>DB::meta\<close>, is interpreted on \<^const>\<open>DB_meta\<close> and on a stored record.
  \<^item> \<open>DB_File\<close>, \<open>DB_Open\<close>, \<open>Opening\<close>: the file part of \<^verbatim>\<open>db.h\<close> and \<^verbatim>\<open>db.cpp\<close>: system calls, \<^verbatim>\<open>close\<close>, \<^verbatim>\<open>init\<close>,
    the constructor and the destructor. \<^verbatim>\<open>init\<close> cannot set up a new file (C17); \<^verbatim>\<open>flock\<close> does not return, so
    the constructor does not complete (C33, through the locale \<open>ungranted_lock\<close>); nothing ever sets
    \<^verbatim>\<open>opened_\<close>, so \<^verbatim>\<open>close\<close> never does anything (C34).
  \<^item> \<open>Threads\<close>, \<open>Interleaving\<close>, \<open>Schedules\<close>: threads that interleave inside \<^verbatim>\<open>begin\<close>, \<^verbatim>\<open>rollback\<close> and \<^verbatim>\<open>close\<close>.
    Each statement is one step; a step relation lets any thread move. Alone, a thread does what the
    operation does as one action, in at most twelve steps (through the locale \<open>call_result\<close>).
    In every interleaving the mutexes exclude (C12), nobody is deadlocked while nothing is thrown
    (C15), and two threads can meet at a shared member in two places only (C16). An
    exception in \<^verbatim>\<open>begin_tx\<close> locks all threads out (C31).
  \<^item> \<open>Meta_Frame\<close>, \<open>Manager\<close>: the abstract contract of the transaction calls. A transaction manager (\<open>manager\<close>,
    \<open>m_step\<close>) has readers with ids, a writer, available and pending pages; it is safe for its readers
    (\<open>m_safe\<close>). \<open>manager_of\<close> reads it off a database, and one statement of a thread is at most one of its
    steps. For this, providers of meta records are to write to new objects only (locale \<open>meta_frame\<close>, which
    extends \<open>meta_source\<close>, with the same two interpretations), so that the ids of transactions stay.
  \<^item> This theory: starting a writer releases no page that an open reader may use (C5). Interleaved
    threads refine the transaction manager (C13), so that a listed reader is isolated for ever (C14).
    Once a reader has been closed, no write transaction can be started any more (C30).

  \<^bold>\<open>Modelling choices.\<close> An operation is one action; outside \<open>Threads\<close>
  operations run one at a time. A mutex is a flag; locking a held one is the fault \<open>Block\<close> in an
  action, and a step that cannot be taken yet in \<open>Threads\<close>, where a construction of a
  transaction, a search of the loop over \<^verbatim>\<open>txs_\<close> and an update of the free list are
  single steps, and memory is sequentially consistent. In C13 and C14 a reader counts until it leaves
  \<^verbatim>\<open>txs_\<close>, which it never does, as \<^verbatim>\<open>remove_tx\<close> is empty. A
  \<^verbatim>\<open>std::map\<close> with an order that matters is an association list in key order, others
  are maps. A local \<^verbatim>\<open>std::string\<close> is an address and a size;
  \<^verbatim>\<open>operator[]\<close> beyond the size, and the use of a page header that does not lie within the characters,
  have undefined behaviour, as have \<^verbatim>\<open>std::inplace_merge\<close> on ranges that are not sorted and a
  null pointer. Deleting an object removes it from its heap; bytes of deleted meta
  records and of unmapped files keep their values; the loop of \<^verbatim>\<open>begin_rwtx\<close>, which
  reads deleted records, has undefined behaviour then. \<^verbatim>\<open>double\<close> occurs only as a
  constant and is rational here.

  \<^bold>\<open>Not modelled.\<close> \<^verbatim>\<open>bolt_unix.cpp\<close> is one comment and \<^verbatim>\<open>bolt_unix.h\<close> declares its two functions. Operations that are
  declared but have no definition in the source: \<^verbatim>\<open>Node::minKeys\<close>, \<^verbatim>\<open>spill\<close>, \<^verbatim>\<open>rebalance\<close>, \<^verbatim>\<open>removeChild\<close>,
  \<^verbatim>\<open>dereference\<close>, \<^verbatim>\<open>free\<close>, \<^verbatim>\<open>split\<close>, \<^verbatim>\<open>splitTwo\<close>, \<^verbatim>\<open>splitIndex\<close>; \<^verbatim>\<open>Bucket::get\<close>, \<^verbatim>\<open>put\<close>, \<^verbatim>\<open>sequence\<close>, \<^verbatim>\<open>set_sequence\<close>,
  \<^verbatim>\<open>next_sequence\<close>, \<^verbatim>\<open>open_bucket\<close>; \<^verbatim>\<open>FreeList::all_free_pgids\<close>, \<^verbatim>\<open>write\<close>; the function \<^verbatim>\<open>open\<close> of \<^verbatim>\<open>db.h\<close>.
  Operations whose body is empty or a constant are modelled as that. The libraries \<^verbatim>\<open>molly\<close> and
  \<^verbatim>\<open>gsl\<close> are submodules that are not part of the repository. The contents of the file are seen only
  through the map, so crash recovery is out of reach. Threads interleave in the operations that
  take the mutexes of \<^verbatim>\<open>DB\<close>; the constructor, \<^verbatim>\<open>close\<close> of \<^verbatim>\<open>DB\<close> and the work inside a transaction belong to one
  thread.
\<close>

section \<open>Readers and the free list\<close>

text \<open>
  C5. Starting a writer is safe for the readers: whenever \<^verbatim>\<open>begin(true)\<close> returns, no page is lost from
  the free list, every page that is newly available was pending for a transaction older than
  every open read transaction, and the pages pending for the ids from a reader's own on are still
  pending.
\<close>

theorem begin_protects_readers:
  assumes "meta_source metaf" and "DB_begin metaf raw rawb p True w = (Inr t, w')"
    and "get_db w p = Inr d" and "get_freelist w (db_freelist d) = Inr fl"
  shows "\<exists>fl'. get_freelist w' (db_freelist d) = Inr fl' \<and> all_pages fl' = all_pages fl \<and>
    list_all (\<lambda>r. \<exists>x. get_tx w' r = Inr x \<and>
      (\<forall>u \<ge> Tx_id w' x. pending_of fl' u = pending_of fl u) \<and>
      set (fl_ids fl') \<subseteq> set (fl_ids fl) \<union> \<Union> (pending_of fl ` {u. u < Tx_id w' x})) (db_txs d)"
proof -
  have b: "DB_begin_rwtx metaf raw rawb p w = (Inr t, w')" using assms(2) by (simp add: DB_begin_def)
  obtain minid where m: "min_txid w' (db_txs d) 0xFFFFFFFFFFFFFFFF = Inr minid"
    and f: "get_freelist w' (db_freelist d) = Inr (if minid > 0 then released fl (minid - 1) else fl)"
  proof (rule meta_source.begin_rwtx_Inr [OF assms(1) b])
    fix e :: DB and w1 minid
    assume "get_db w p = Inr e" "min_txid w' (db_txs e) 0xFFFFFFFFFFFFFFFF = Inr minid"
      "if minid > 0 then \<exists>fl. get_freelist w (db_freelist e) = Inr fl
         \<and> FreeList_release fl (minid - 1) = Inr (released fl (minid - 1))
         \<and> get_freelist w' (db_freelist e) = Inr (released fl (minid - 1))
       else get_freelist w' (db_freelist e) = get_freelist w (db_freelist e)"
    then show thesis using assms(3,4) by (intro that [of minid]) (auto split: if_splits)
  qed
  show ?thesis using f release_protects [OF m, of fl] by (auto simp: Let_def)
qed

text \<open>The concrete database with a reader of id 5: page 7 becomes available, page 8 stays pending.\<close>

definition read_world :: world where
  "read_world = life_world\<lparr>w_txs := [48 \<mapsto> life_tx\<lparr>tx_db := 64, tx_meta := 512\<rparr>],
     w_dbs := [64 \<mapsto> life_db\<lparr>db_txs := [48]\<rparr>]\<rparr>"

abbreviation read_locked :: DB where
  "read_locked \<equiv> life_db\<lparr>db_txs := [48], db_rwlock := True, db_metalock := True\<rparr>"

lemma read_world_new:
  obtains w1 where "Tx_new (retA 512) life_tx life_bucket 64 True (set_db read_world 64 read_locked) = (Inr 1000, w1)"
    and "get_db w1 64 = Inr read_locked" and "get_freelist w1 80 = Inr life_freelist"
    and "get_tx w1 48 = Inr (life_tx\<lparr>tx_db := 64, tx_meta := 512\<rparr>)" and "Meta_txid (w_mem w1) 512 = 5"
proof -
  let ?w = "set_db read_world 64 read_locked" and ?r = "life_tx\<lparr>tx_db := 64, tx_meta := 512\<rparr>"
  obtain w1 where n: "Tx_new (retA 512) life_tx life_bucket 64 True ?w = (Inr 1000, w1)"
    and w1: "w_dbs w1 = w_dbs ?w" "w_freelists w1 = w_freelists ?w" "\<forall>r. r \<noteq> 1000 \<longrightarrow> w_txs w1 r = w_txs ?w r"
    and m: "\<forall>x. x \<notin> region 1100 56 \<longrightarrow> w_mem w1 x = w_mem ?w x"
    using life_new [of ?w 1000 1100 1200 "[1300, 1400, 1500, 1600, 1700]" True]
    by (auto simp: read_world_def life_world_def set_db_def)
  have "Meta_txid (w_mem w1) 512 = Meta_txid life_mem 512"
    unfolding Meta_txid_def
  proof (rule u64.load_cong)
    fix x assume "x \<in> region (512 + 40) 8"
    then have "x \<notin> region 1100 56" using region_disjointI [of 8 1100 "512 + 40" 56] by auto
    then show "w_mem w1 x = life_mem x" using m by (simp add: read_world_def life_world_def set_db_def)
  qed
  then have "Meta_txid (w_mem w1) 512 = 5" by (simp add: life_meta)
  moreover have "get_tx w1 48 = Inr ?r" using w1(3) by (simp add: get_defs read_world_def set_db_def)
  moreover have "get_db w1 64 = Inr read_locked" "get_freelist w1 80 = Inr life_freelist"
    using w1 by (simp_all add: get_defs set_db_def read_world_def life_world_def)
  ultimately show thesis using that n by blast
qed

lemma read_world_begin:
  "\<exists>w' x. DB_begin (retA 512) life_tx life_bucket 64 True read_world = (Inr 1000, w') \<and>
    get_tx w' 48 = Inr x \<and> Tx_id w' x = 5"
proof -
  obtain w1 where n: "Tx_new (retA 512) life_tx life_bucket 64 True (set_db read_world 64 read_locked) = (Inr 1000, w1)"
    and d1: "get_db w1 64 = Inr read_locked" "get_freelist w1 80 = Inr life_freelist"
    and t: "get_tx w1 48 = Inr (life_tx\<lparr>tx_db := 64, tx_meta := 512\<rparr>)" and id5: "Meta_txid (w_mem w1) 512 = 5"
    by (rule read_world_new)
  have d: "get_db read_world 64 = Inr (life_db\<lparr>db_txs := [48]\<rparr>)" by (simp add: read_world_def get_defs)
  let ?f = "set_freelist (set_db w1 64 (read_locked\<lparr>db_rwtx := 1000\<rparr>)) 80 (released life_freelist 4)"
  have "DB_begin (retA 512) life_tx life_bucket 64 True read_world
      = (Inr 1000, set_db ?f 64 (read_locked\<lparr>db_rwtx := 1000, db_metalock := False\<rparr>))"
    using n d d1 t id5
    by (simp add: DB_begin_def DB_begin_rwtx_def lock_defs with_guard_def begin_rwtx_locked_def life_db_def
        bindA_def Tx_meta_txid_def Tx_id_def life_release)
  then show ?thesis using t id5 by (simp add: Tx_id_def)
qed

theorem begin_protects_readers_witness:
  "\<exists>w' fl'. DB_begin (retA 512) life_tx life_bucket 64 True read_world = (Inr 1000, w') \<and>
    get_freelist w' 80 = Inr fl' \<and> pending_of fl' 6 = {8}"
proof -
  obtain w' x where b: "DB_begin (retA 512) life_tx life_bucket 64 True read_world = (Inr 1000, w')"
    and x: "get_tx w' 48 = Inr x" "Tx_id w' x = 5" using read_world_begin by blast
  have d: "get_db read_world 64 = Inr (life_db\<lparr>db_txs := [48]\<rparr>)" by (simp add: read_world_def get_defs)
  have f: "get_freelist read_world (db_freelist (life_db\<lparr>db_txs := [48]\<rparr>)) = Inr life_freelist"
    by (simp add: read_world_def life_world_def life_db_def get_defs)
  have "pending_of life_freelist 6 = {8}" by (auto simp: pending_of_def life_freelist_def)
  with begin_protects_readers [OF stored_meta.meta_source_axioms b d f] b x show ?thesis
    by (auto simp: life_db_def)
qed

section \<open>Readers and the free list in interleavings\<close>

text \<open>
  C13. Threads in any interleaving refine the abstract transaction manager. From a start in which no call
  is running, every run of \<^verbatim>\<open>begin\<close> and \<^verbatim>\<open>rollback\<close> calls is a run of the manager on the listed readers
  with their ids, the writer, the free ids and the pending pages; and one statement of one thread is
  one step of the manager or leaves it as it is.
\<close>

theorem threads_refine_manager:
  assumes "meta_frame metaf" and "manager_start p s" and "(sys_step metaf p)\<^sup>*\<^sup>* s (T, w)"
  shows "\<exists>m m'. manager_of p (snd s) = Inr m \<and> manager_of p w = Inr m' \<and> m_step\<^sup>*\<^sup>* m m' \<and>
    (\<forall>T' w'. sys_step metaf p (T, w) (T', w') \<longrightarrow> (\<exists>m''. manager_of p w' = Inr m'' \<and> m_step\<^sup>=\<^sup>= m' m''))"
proof -
  note run = meta_frame.run_simulated [OF assms(1,3) manager_start_inv [OF assms(2)]]
  then obtain m m' where m: "manager_of p (snd s) = Inr m" "manager_of p w = Inr m'" "m_step\<^sup>*\<^sup>* m m'" by auto
  have "\<exists>m''. manager_of p w' = Inr m'' \<and> m_step\<^sup>=\<^sup>= m' m''" if s: "sys_step metaf p (T, w) (T', w')" for T' w'
    using meta_frame.step_simulated [OF assms(1) s] run m(2) by auto
  then show ?thesis using m by blast
qed

text \<open>
  C14. A registered reader is isolated from every writer, for ever and in every interleaving: at all
  later times its transaction is listed, with the same id as long as it is open, the pages pending for
  this id and newer ones are still pending, what has become available since was pending for older ids, and no page is lost
  from the free list or added to it.
\<close>

theorem readers_isolated:
  assumes "meta_frame metaf" and "manager_start p s" and "(sys_step metaf p)\<^sup>*\<^sup>* s (T, w)"
    and "get_db w p = Inr d" and "get_freelist w (db_freelist d) = Inr fl" and "r \<in> set (db_txs d)" and "get_tx w r = Inr x"
    and "(sys_step metaf p)\<^sup>*\<^sup>* (T, w) (T', w')"
  shows "\<exists>d' fl' y. get_db w' p = Inr d' \<and> get_freelist w' (db_freelist d') = Inr fl' \<and>
    r \<in> set (db_txs d') \<and> get_tx w' r = Inr y \<and> (tx_db y \<noteq> nullptr \<longrightarrow> Tx_meta_txid w' y = Inr (Tx_id w x)) \<and>
    (\<forall>u \<ge> Tx_id w x. pending_of fl' u = pending_of fl u) \<and>
    set (fl_ids fl') \<subseteq> set (fl_ids fl) \<union> \<Union> (pending_of fl ` {u. u < Tx_id w x}) \<and>
    set (fl_ids fl') \<union> \<Union> (range (pending_of fl')) = set (fl_ids fl) \<union> \<Union> (range (pending_of fl))"
proof -
  note i = meta_frame.run_simulated [OF assms(1,3) manager_start_inv [OF assms(2)], THEN conjunct1]
  note run = meta_frame.run_simulated [OF assms(1,8) i]
  obtain d' fl' where d': "get_db w' p = Inr d'" "get_freelist w' (db_freelist d') = Inr fl'" and l: "listed_inv w' d' T'"
    using run by (auto simp: manager_inv_def)
  have s: "m_safe (manager_view w d fl) (manager_view w' d' fl')"
    using run m_steps_safe assms(4,5) d' by auto
  have u: "reader_id w r = Tx_id w x" using assms(7) by (simp add: reader_id_def)
  note safe = m_safe_reader [OF s assms(6), unfolded u]
  obtain y where y: "w_txs w' r = Some y" using l safe(1) by (auto simp: listed_inv_def)
  then have "get_tx w' r = Inr y" "tx_db y \<noteq> nullptr \<longrightarrow> Tx_meta_txid w' y = Inr (Tx_id w x)"
    using safe(2) by (simp_all add: get_defs reader_id_def Tx_meta_txid_def)
  then show ?thesis using d' safe(1,3-5) by (intro exI [of _ d'] exI [of _ fl'] exI [of _ y] conjI)
qed

text \<open>The concrete database with a reader of id 5, and one thread that begins a write transaction.\<close>

lemma read_world_release:
  obtains w d where "(sys_step (retA 512) 64)\<^sup>*\<^sup>* (\<lambda>_. Idle, read_world) (two (Wr_release 1000 5) Idle, w)"
    and "get_freelist w 80 = Inr life_freelist" and "get_db w 64 = Inr d" and "db_freelist d = 80"
proof -
  obtain w1 where n: "Tx_new (retA 512) life_tx life_bucket 64 True (set_db read_world 64 read_locked) = (Inr 1000, w1)"
    and d1: "get_db w1 64 = Inr read_locked" "get_freelist w1 80 = Inr life_freelist"
    and t: "get_tx w1 48 = Inr (life_tx\<lparr>tx_db := 64, tx_meta := 512\<rparr>)" and id5: "Meta_txid (w_mem w1) 512 = 5"
    by (rule read_world_new)
  have d: "get_db read_world 64 = Inr (life_db\<lparr>db_txs := [48]\<rparr>)" by (simp add: read_world_def get_defs)
  let ?w = "set_db w1 64 (read_locked\<lparr>db_rwtx := 1000\<rparr>)"
  have seven: "(7 :: nat) = Suc (Suc (Suc (Suc (Suc (Suc (Suc 0))))))" by simp
  have run: "life_run 7 (begin_pc True) read_world = (Wr_release 1000 5, ?w)"
    unfolding seven using d n d1 t id5
    by (simp add: begin_pc_def step_defs lock_runs life_db_def Tx_meta_txid_def Tx_id_def)
  have "(sys_step (retA 512) 64)\<^sup>*\<^sup>* (\<lambda>_. Idle, read_world) (two Idle Idle, read_world)"
    by (simp only: two_upd rtranclp.rtrancl_refl)
  then have "(sys_step (retA 512) 64)\<^sup>*\<^sup>* (\<lambda>_. Idle, read_world) (two (begin_pc True) Idle, read_world)"
    by (rule two_call(1)) simp
  then have "(sys_step (retA 512) 64)\<^sup>*\<^sup>* (\<lambda>_. Idle, read_world) (two (Wr_release 1000 5) Idle, ?w)"
    by (rule two_run(1)) (rule run)
  moreover have "db_freelist (read_locked\<lparr>db_rwtx := 1000\<rparr>) = 80" by (simp add: life_db_def)
  ultimately show thesis using d1(2) by (intro that [of ?w "read_locked\<lparr>db_rwtx := 1000\<rparr>"]) simp_all
qed

lemma read_world_start: "manager_start 64 (\<lambda>_. Idle, read_world)"
  by (auto simp: manager_start_def sys_start_def heap_apart_def read_world_def life_world_def life_db_def life_tx_def get_defs
      Meta_sizeof_def region_disjointI split: if_splits)

theorem threads_refine_manager_witness:
  "\<exists>w m m'. (sys_step (retA 512) 64)\<^sup>*\<^sup>* (\<lambda>_. Idle, read_world) (two (Wr_release 1000 5) Idle, w) \<and>
    manager_of 64 read_world = Inr m \<and> manager_of 64 w = Inr m' \<and> m_step\<^sup>*\<^sup>* m m'"
proof -
  obtain w where r: "(sys_step (retA 512) 64)\<^sup>*\<^sup>* (\<lambda>_. Idle, read_world) (two (Wr_release 1000 5) Idle, w)"
    by (rule read_world_release)
  show ?thesis using threads_refine_manager [OF stored_meta_frame.meta_frame_axioms read_world_start r] r by auto
qed

text \<open>
  The same run with the statement that releases pages: afterwards page 8 is pending, and the reader is
  still listed.
\<close>

theorem readers_isolated_witness:
  "\<exists>T w d fl. (sys_step (retA 512) 64)\<^sup>*\<^sup>* (\<lambda>_. Idle, read_world) (T, w) \<and> T 0 = Wr_leave (Inr 1000) \<and>
    get_db w 64 = Inr d \<and> get_freelist w (db_freelist d) = Inr fl \<and> 48 \<in> set (db_txs d) \<and>
    pending_of fl 6 = {8} \<and> set (fl_ids fl) \<subseteq> {4, 7}"
proof -
  let ?R = "(sys_step (retA 512) 64)\<^sup>*\<^sup>* (\<lambda>_. Idle, read_world)"
  obtain w d where r: "?R (two (Wr_release 1000 5) Idle, w)"
    and f: "get_freelist w 80 = Inr life_freelist" and d: "get_db w 64 = Inr d" "db_freelist d = 80"
    by (rule read_world_release)
  let ?w' = "set_freelist w 80 (released life_freelist 4)"
  have "thread_step (retA 512) life_tx life_bucket 64 (two (Wr_release 1000 5) Idle 0) w =
      Some (Wr_leave (Inr 1000), ?w')" using f d by (simp add: two_def guarded_def life_release)
  from rtranclp.rtrancl_into_rtrancl [OF r sys_step.move, OF this]
  have r': "?R ((two (Wr_release 1000 5) Idle)(0 := Wr_leave (Inr 1000)), ?w')" .
  let ?d = "life_db\<lparr>db_txs := [48]\<rparr>" and ?x = "life_tx\<lparr>tx_db := 64, tx_meta := 512\<rparr>"
  have s: "get_db read_world 64 = Inr ?d" "get_freelist read_world (db_freelist ?d) = Inr life_freelist"
    "48 \<in> set (db_txs ?d)" "get_tx read_world 48 = Inr ?x"
    by (simp_all add: read_world_def life_world_def life_db_def get_defs)
  have id5: "Tx_id read_world ?x = 5" by (simp add: read_world_def life_world_def Tx_id_def life_meta)
  have p: "pending_of life_freelist 6 = {8}" "\<Union> (pending_of life_freelist ` {u. u < 5}) \<subseteq> {7}" "set (fl_ids life_freelist) = {4}"
    by (auto simp: pending_of_def life_freelist_def)
  from readers_isolated [OF stored_meta_frame.meta_frame_axioms read_world_start rtranclp.rtrancl_refl s r', unfolded id5]
  obtain d' fl' y where q': "get_db ?w' 64 = Inr d'" "get_freelist ?w' (db_freelist d') = Inr fl'" "48 \<in> set (db_txs d')"
    "get_tx ?w' 48 = Inr y" and u: "\<forall>u \<ge> 5. pending_of fl' u = pending_of life_freelist u"
    and a: "set (fl_ids fl') \<subseteq> set (fl_ids life_freelist) \<union> \<Union> (pending_of life_freelist ` {u. u < 5})"
    by (elim exE conjE) (rule that)
  have "pending_of fl' 6 = {8}" using u p(1) by simp
  moreover have "set (fl_ids fl') \<subseteq> {4, 7}" using a p(2,3) by blast
  moreover have "((two (Wr_release 1000 5) Idle)(0 := Wr_leave (Inr 1000))) 0 = Wr_leave (Inr 1000)" by simp
  ultimately show ?thesis using r' q' by blast
qed

section \<open>After the first reader has ended\<close>

text \<open>
  C30. \<^verbatim>\<open>close\<close> deletes the meta record of a reader and leaves the reader in \<^verbatim>\<open>txs_\<close>. From then on no
  write transaction can be started, in any interleaving: whenever a thread comes to the loop of
  \<^verbatim>\<open>begin_rwtx\<close> over \<^verbatim>\<open>txs_\<close>, the loop reads the deleted record, which is undefined behaviour; and
  \<^verbatim>\<open>begin(true)\<close> as one action never returns a transaction.
\<close>

theorem closed_reader_stops_writers:
  assumes "meta_frame metaf" and "manager_start p s" and "(sys_step metaf p)\<^sup>*\<^sup>* s (T, w)"
    and "get_db w p = Inr d" and "r \<in> set (db_txs d)" and "get_tx w r = Inr x" and "tx_db x = nullptr"
    and "(sys_step metaf p)\<^sup>*\<^sup>* (T, w) (T', w')"
  shows "(\<forall>j u raw rawb. T' j = Wr_minid u \<longrightarrow> thread_step metaf raw rawb p (T' j) w' = Some (Wr_leave (Inl UB), w')) \<and>
    (\<forall>raw rawb t w''. DB_begin metaf raw rawb p True w' \<noteq> (Inr t, w''))"
proof -
  note i = meta_frame.run_simulated [OF assms(1,3) manager_start_inv [OF assms(2)], THEN conjunct1]
  have "closed_listed p r w" using assms(4-7) by (auto simp: closed_listed_def get_tx_def deref_Inr_iff)
  then have c: "closed_listed p r w'" using meta_frame.closed_listed_run [OF assms(1,8) i] by simp
  then obtain e y where e: "get_db w' p = Inr e" "r \<in> set (db_txs e)" and y: "w_txs w' r = Some y" "tx_db y = nullptr"
    by (auto simp: closed_listed_def)
  have "sys_inv p (T', w')" using meta_frame.run_simulated [OF assms(1,8) i] by (simp add: manager_inv_def)
  then have fr: "set (w_fresh w') \<inter> dom (w_txs w') = {}" by (auto simp: sys_inv_def owner_inv_def)
  have "thread_step metaf raw rawb p (Wr_minid u) w' = Some (Wr_leave (Inl UB), w')" for raw rawb u
    using min_txid_closed [OF e(2) y] e(1) by (simp add: step_defs)
  then show ?thesis using meta_frame.closed_listed_begin [OF assms(1) c fr] by simp
qed

text \<open>
  Two threads on the concrete database: thread 0 begins a reader and rolls it back; before it
  deletes the meta record, thread 1 comes to the loop of \<^verbatim>\<open>begin_rwtx\<close>.
\<close>

lemma life_manager_start: "manager_start 64 (\<lambda>_. Idle, life_world)"
  using life_start by (auto simp: manager_start_def heap_apart_def life_world_def life_db_def get_defs Meta_sizeof_def region_disjointI)

theorem closed_reader_stops_writers_witness:
  "\<exists>T w d x. (sys_step (retA 512) 64)\<^sup>*\<^sup>* (\<lambda>_. Idle, life_world) (T, w) \<and> T 0 = Ended \<and> T 1 = Wr_minid 1300 \<and>
    get_db w 64 = Inr d \<and> db_txs d = [1000] \<and> get_tx w 1000 = Inr x \<and> tx_db x = nullptr \<and>
    thread_step (retA 512) life_tx life_bucket 64 (T 1) w = Some (Wr_leave (Inl UB), w)"
proof -
  let ?R = "(sys_step (retA 512) 64)\<^sup>*\<^sup>* (\<lambda>_. Idle, life_world)" and ?T = "\<lambda>x. two (Cl_clear False 1000 x) (Wr_minid 1300)"
  obtain x w d where r: "?R (?T x, w)" and d: "get_db w 64 = Inr d" "db_txs d = [1000]" using life_clear_minid by blast
  have "manager_inv 64 (?T x, w)"
    using stored_meta_frame.run_simulated [OF r manager_start_inv [OF life_manager_start]] by simp
  then have "thread_ok 64 w (?T x 0)" by (auto simp: manager_inv_def sys_inv_def owner_inv_def)
  then obtain y where y: "w_txs w 1000 = Some y" by (auto simp: thread_ok_def two_def)
  let ?y = "y\<lparr>tx_db := nullptr, tx_pages := Map.empty\<rparr>"
  let ?w = "set_tx (w\<lparr>w_buckets := (w_buckets w)(tx_root x := None)\<rparr>) 1000 ?y"
  have "get_tx (w\<lparr>w_buckets := bs\<rparr>) 1000 = Inr y" for bs using y by (simp add: get_defs)
  then have "thread_step (retA 512) life_tx life_bucket 64 (?T x 0) w = Some (Ended, ?w)"
    by (simp add: two_def step_defs)
  from rtranclp.rtrancl_into_rtrancl [OF r sys_step.move, OF this]
  have r': "?R ((?T x)(0 := Ended), ?w)" .
  have d': "get_db ?w 64 = Inr d" "1000 \<in> set (db_txs d)" "get_tx ?w 1000 = Inr ?y" "tx_db ?y = nullptr"
    using d by (simp_all add: get_defs set_tx_def)
  have T: "((?T x)(0 := Ended)) 0 = Ended" "((?T x)(0 := Ended)) 1 = Wr_minid 1300" by (simp_all add: two_def)
  note c = closed_reader_stops_writers [OF stored_meta_frame.meta_frame_axioms life_manager_start r' d' rtranclp.rtrancl_refl]
  have "thread_step (retA 512) life_tx life_bucket 64 (((?T x)(0 := Ended)) 1) ?w = Some (Wr_leave (Inl UB), ?w)"
    using c T(2) by blast
  then show ?thesis using r' T d(2) d' by blast
qed

end
